(* ===== verification/Prelude.thy ===== *)
theory Prelude
  imports Main "HOL-Library.Word"
begin

unbundle bit_operations_syntax

section \<open>Shared types, results and list lemmas\<close>

text \<open>
  What every component shares.  A JavaScript string is a sequence of UTF-16 code units, so a
  string value is a list of 16-bit words; a byte is an 8-bit word and the operand of a JavaScript
  bitwise operator is a 32-bit word.  \<open>js\<close> turns an ASCII literal of the source into a code-unit
  list.  An exception is a value of \<open>exn\<close> on the left of a sum, and \<open>bindE\<close> sequences two
  computations that may throw.  \<open>coalesce\<close> is the operator \<open>??\<close> on a value that may be
  undefined.  The end of the theory has the list lemmas the string library is built on.
\<close>

type_synonym u8 = "8 word"
type_synonym cu = "16 word"
type_synonym i32 = "32 word"
type_synonym jstring = "cu list"

named_theorems js_eval \<open>evaluation of string primitives on literals\<close>
named_theorems sep_free \<open>characters that do not occur in an encoded text\<close>

definition js :: "string \<Rightarrow> jstring" where
  "js s = map of_char s"

abbreviation ch :: "char \<Rightarrow> cu" where
  "ch c \<equiv> of_char c"

lemma js_Nil [simp]: "js [] = []"
  by (simp add: js_def)

lemma js_Cons [simp]: "js (c # s) = ch c # js s"
  by (simp add: js_def)

lemma js_append: "js (s @ t) = js s @ js t"
  by (simp add: js_def)

lemma length_js [simp]: "length (js s) = length s"
  by (simp add: js_def)

lemma js_eq_Nil [simp]: "js s = [] \<longleftrightarrow> s = []"
  by (simp add: js_def)

text \<open>ASCII literals are told apart by their characters.\<close>

lemma of_char_nat_less_256: "(of_char c :: nat) < 256"
  using horner_sum_of_bool_2_less [of "[digit0 c, digit1 c, digit2 c, digit3 c, digit4 c, digit5 c,
    digit6 c, digit7 c]"] by (simp add: of_char_def)

lemma ch_inject: "(ch c = ch d) = (c = d)"
proof -
  have un: "unat (of_char x :: cu) = of_char x" for x
  proof -
    have "unat (of_nat (of_char x) :: cu) = of_char x"
      using order.strict_trans [OF of_char_nat_less_256 [of x], of 65536]
      by (simp add: unat_of_nat del: of_nat_of_char)
    then show ?thesis by (simp add: of_nat_of_char)
  qed
  show ?thesis
  proof
    assume "ch c = ch d"
    then have "unat (ch c) = unat (ch d)" by simp
    then show "c = d" by (simp add: un)
  qed simp
qed

lemma js_inject: "(js s = js t) = (s = t)"
  unfolding js_def by (rule inj_map_eq_map) (auto intro: injI simp: ch_inject)

subsection \<open>Results that may be an exception\<close>

text \<open>The exceptions the modelled code can meet; every one of them is caught by class-blind
  \<open>catch\<close> clauses, so only the fact that one was raised matters.\<close>

datatype exn = SyntaxError | TypeError | URIError

fun bindE :: "exn + 'a \<Rightarrow> ('a \<Rightarrow> exn + 'b) \<Rightarrow> exn + 'b" where
  "bindE (Inl e) f = Inl e"
| "bindE (Inr x) f = f x"

lemma bindE_eq_Inr: "bindE m f = Inr y \<longleftrightarrow> (\<exists>x. m = Inr x \<and> f x = Inr y)"
  by (cases m) auto

lemma bindE_assoc: "bindE (bindE m f) g = bindE m (\<lambda>x. bindE (f x) g)"
  by (cases m) auto

lemma bindE_cong [fundef_cong]:
  "m = m' \<Longrightarrow> (\<And>x. m' = Inr x \<Longrightarrow> f x = f' x) \<Longrightarrow> bindE m f = bindE m' f'"
  by (cases m') auto

text \<open>\<open>a ?? d\<close> on a value that may be \<open>undefined\<close>.\<close>

definition coalesce :: "'a option \<Rightarrow> 'a \<Rightarrow> 'a" where
  "coalesce a d = (case a of None \<Rightarrow> d | Some x \<Rightarrow> x)"

lemma coalesce_simps [simp]: "coalesce None d = d" "coalesce (Some x) d = x"
  by (simp_all add: coalesce_def)

subsection \<open>List lemmas\<close>

lemma takeWhile_append_stop:
  "\<forall>x \<in> set xs. P x \<Longrightarrow> ys = [] \<or> \<not> P (hd ys) \<Longrightarrow> takeWhile P (xs @ ys) = xs"
  by (induction xs) (cases ys; auto)+

lemma dropWhile_append_stop:
  "\<forall>x \<in> set xs. P x \<Longrightarrow> ys = [] \<or> \<not> P (hd ys) \<Longrightarrow> dropWhile P (xs @ ys) = ys"
  by (induction xs) (cases ys; auto)+

lemma dropWhile_id: "xs = [] \<or> \<not> P (hd xs) \<Longrightarrow> dropWhile P xs = xs"
  by (cases xs) auto

lemma map_filter_append: "List.map_filter f (xs @ ys) = List.map_filter f xs @ List.map_filter f ys"
  by (induction xs) (auto simp: List.map_filter_simps split: option.splits)

end
