(* ===== verification/JsString.thy ===== *)
theory JsString
  imports Prelude
begin

section \<open>The string primitives of the language\<close>

text \<open>
  The methods of \<open>String.prototype\<close> the code calls, on code-unit lists: \<open>indexOf\<close>,
  \<open>lastIndexOf\<close>, \<open>startsWith\<close>, \<open>includes\<close>, \<open>slice\<close> (as \<open>take\<close> and \<open>drop\<close>),
  \<open>split\<close> on one character and on the pattern \<open>/\r?\n/\<close>, \<open>trim\<close>, \<open>toLowerCase\<close> and
  \<open>replace\<close> of one character.  \<open>is_ws\<close> is the class \<open>\s\<close>, which is also what \<open>trim\<close>
  strips.  \<open>to_lower\<close> maps the ASCII letters only: the code compares its result with ASCII
  keywords that contain neither \<open>k\<close> nor an \<open>i\<close> followed by a combining dot, and no other code
  unit has an ASCII lower-case form, so the comparisons come out as in the full mapping.
\<close>

subsection \<open>Searching\<close>

definition starts_with :: "'a list \<Rightarrow> 'a list \<Rightarrow> bool" where
  "starts_with p s \<longleftrightarrow> take (length p) s = p"

lemma starts_with_Nil [simp]: "starts_with [] s"
  by (simp add: starts_with_def)

lemma starts_with_Cons [simp]:
  "starts_with (x # p) [] = False"
  "starts_with (x # p) (y # s) = (x = y \<and> starts_with p s)"
  by (auto simp: starts_with_def)

lemma starts_with_append [simp]: "starts_with p (p @ s)"
  by (simp add: starts_with_def)

fun index_of :: "'a list \<Rightarrow> 'a list \<Rightarrow> nat option" where
  "index_of p [] = (if p = [] then Some 0 else None)"
| "index_of p (x # s) = (if starts_with p (x # s) then Some 0 else map_option Suc (index_of p s))"

definition js_includes :: "'a list \<Rightarrow> 'a list \<Rightarrow> bool" where
  "js_includes p s \<longleftrightarrow> index_of p s \<noteq> None"

fun last_index_of :: "'a \<Rightarrow> 'a list \<Rightarrow> nat option" where
  "last_index_of c [] = None"
| "last_index_of c (x # s) =
     (case last_index_of c s of Some i \<Rightarrow> Some (Suc i) | None \<Rightarrow> if x = c then Some 0 else None)"

lemma index_of_single_None: "index_of [c] s = None \<longleftrightarrow> c \<notin> set s"
  by (induction s) auto

lemma index_of_single_first: "c \<notin> set s \<Longrightarrow> index_of [c] (s @ c # t) = Some (length s)"
  by (induction s) auto

lemma index_of_SomeD: "index_of p s = Some i \<Longrightarrow> \<exists>t. s = take i s @ p @ t"
proof (induction s arbitrary: i)
  case (Cons x s)
  show ?case
  proof (cases "starts_with p (x # s)")
    case True
    with Cons.prems show ?thesis
      by (metis append_Nil append_take_drop_id index_of.simps(2) option.sel starts_with_def take0)
  next
    case False
    with Cons.prems obtain j where "i = Suc j" "index_of p s = Some j" by auto
    with Cons.IH show ?thesis by auto
  qed
qed (auto split: if_splits)

lemma index_of_single_less: "index_of [c] s = Some i \<Longrightarrow> i < length s"
  by (induction s arbitrary: i) (auto split: if_splits)

lemma index_of_single_SomeD:
  "index_of [c] s = Some i \<Longrightarrow> s = take i s @ c # drop (Suc i) s \<and> c \<notin> set (take i s)"
  by (induction s arbitrary: i) (auto split: if_splits)

lemma last_index_of_None: "last_index_of c s = None \<longleftrightarrow> c \<notin> set s"
  by (induction s) (auto split: option.splits)

lemma last_index_of_last: "c \<notin> set t \<Longrightarrow> last_index_of c (s @ c # t) = Some (length s)"
proof (induction s)
  case Nil
  then have "last_index_of c t = None" by (simp add: last_index_of_None)
  then show ?case by simp
qed auto

lemma last_index_of_SomeD:
  "last_index_of c s = Some i \<Longrightarrow> s = take i s @ c # drop (Suc i) s \<and> c \<notin> set (drop (Suc i) s)"
proof (induction s arbitrary: i)
  case (Cons x s)
  then show ?case
    by (cases "last_index_of c s") (auto simp: last_index_of_None split: if_splits)
qed simp

lemma js_includes_single [simp]: "js_includes [c] s \<longleftrightarrow> c \<in> set s"
  by (auto simp: js_includes_def index_of_single_None [of c s])

text \<open>The text before and after the first or the last separator.\<close>

lemma cut_first:
  assumes "c \<notin> set a"
  shows "take (the (index_of [c] (a @ c # b))) (a @ c # b) = a"
    and "drop (Suc (the (index_of [c] (a @ c # b)))) (a @ c # b) = b"
  using assms by (simp_all add: index_of_single_first)

subsection \<open>White space and case\<close>

definition is_ws :: "cu \<Rightarrow> bool" where
  "is_ws c \<longleftrightarrow> c \<in> {0x09, 0x0A, 0x0B, 0x0C, 0x0D, 0x20, 0xA0, 0x1680, 0x2028, 0x2029, 0x202F,
     0x205F, 0x3000, 0xFEFF} \<or> (0x2000 \<le> c \<and> c \<le> 0x200A)"

definition trim_start :: "jstring \<Rightarrow> jstring" where
  "trim_start s = dropWhile is_ws s"

definition trim :: "jstring \<Rightarrow> jstring" where
  "trim s = rev (dropWhile is_ws (rev (dropWhile is_ws s)))"

lemma trim_Nil [simp]: "trim [] = []"
  by (simp add: trim_def)

lemma trim_id:
  assumes "s = [] \<or> \<not> is_ws (hd s) \<and> \<not> is_ws (last s)"
  shows "trim s = s"
proof (cases "s = []")
  case False
  with assms have "dropWhile is_ws s = s" "dropWhile is_ws (rev s) = rev s"
    by (auto intro!: dropWhile_id simp: hd_rev)
  then show ?thesis by (simp add: trim_def)
qed simp

lemma trim_ends: "trim s = [] \<or> \<not> is_ws (hd (trim s)) \<and> \<not> is_ws (last (trim s))"
proof (cases "trim s = []")
  case False
  let ?t = "dropWhile is_ws s"
  from False have r: "dropWhile is_ws (rev ?t) \<noteq> []" by (simp add: trim_def)
  then have last: "\<not> is_ws (last (trim s))"
    by (simp add: trim_def last_rev hd_dropWhile)
  obtain us where us: "rev ?t = us @ dropWhile is_ws (rev ?t)"
    by (metis takeWhile_dropWhile_id)
  then have "?t = trim s @ rev us"
    by (metis rev_append rev_rev_ident trim_def)
  with False have "hd (trim s) = hd ?t" by (metis hd_append2)
  moreover from False have "?t \<noteq> []" by (metis dropWhile.simps(1) rev.simps(1) trim_def)
  ultimately have "\<not> is_ws (hd (trim s))" by (simp add: hd_dropWhile)
  with last show ?thesis by simp
qed simp

lemma trim_trim [simp]: "trim (trim s) = trim s"
  by (rule trim_id) (rule trim_ends)

lemma set_trim: "set (trim s) \<subseteq> set s"
  by (auto simp: trim_def dest!: set_dropWhileD)

definition to_lower_cu :: "cu \<Rightarrow> cu" where
  "to_lower_cu c = (if 0x41 \<le> c \<and> c \<le> 0x5A then c + 0x20 else c)"

definition to_lower :: "jstring \<Rightarrow> jstring" where
  "to_lower s = map to_lower_cu s"

lemma to_lower_simps [simp]:
  "to_lower [] = []" "to_lower (c # s) = to_lower_cu c # to_lower s"
  by (simp_all add: to_lower_def)

subsection \<open>Splitting and joining\<close>

fun split_on :: "'a \<Rightarrow> 'a list \<Rightarrow> 'a list list" where
  "split_on c [] = [[]]"
| "split_on c (x # s) =
     (if x = c then [] # split_on c s
      else case split_on c s of [] \<Rightarrow> [[x]] | p # ps \<Rightarrow> (x # p) # ps)"

lemma split_on_ne [simp]: "split_on c s \<noteq> []"
  by (induction s) (auto split: list.splits)

fun join :: "'a list \<Rightarrow> 'a list list \<Rightarrow> 'a list" where
  "join sep [] = []"
| "join sep [x] = x"
| "join sep (x # y # xs) = x @ sep @ join sep (y # xs)"

lemma join_Cons: "join sep (x # xs) = (if xs = [] then x else x @ sep @ join sep xs)"
  by (cases xs) auto

lemma split_on_sep_free: "c \<notin> set s \<Longrightarrow> split_on c s = [s]"
  by (induction s) auto

lemma split_on_append_sep: "c \<notin> set s \<Longrightarrow> split_on c (s @ c # t) = s # split_on c t"
  by (induction s) auto

lemma split_on_join:
  "xs \<noteq> [] \<Longrightarrow> \<forall>x \<in> set xs. c \<notin> set x \<Longrightarrow> split_on c (join [c] xs) = xs"
  by (induction xs rule: induct_list012) (auto simp: split_on_sep_free split_on_append_sep)

text \<open>\<open>split(/\r?\n/)\<close>: a line ends at a line feed, with the carriage return before it.\<close>

definition LF :: cu where "LF = 0x0A"
definition CR :: cu where "CR = 0x0D"

fun split_lines :: "jstring \<Rightarrow> jstring list" where
  "split_lines [] = [[]]"
| "split_lines (x # s) =
     (if x = LF then [] # split_lines s
      else if x = CR \<and> starts_with [LF] s then [] # split_lines (tl s)
      else case split_lines s of [] \<Rightarrow> [[x]] | p # ps \<Rightarrow> (x # p) # ps)"

lemma split_lines_ne [simp]: "split_lines s \<noteq> []"
  by (induction s rule: split_lines.induct) (auto split: list.splits)

lemma split_lines_line: "LF \<notin> set s \<Longrightarrow> CR \<notin> set s \<Longrightarrow> split_lines s = [s]"
  by (induction s) auto

lemma split_lines_LF:
  "LF \<notin> set s \<Longrightarrow> CR \<notin> set s \<Longrightarrow> split_lines (s @ LF # t) = s # split_lines t"
  by (induction s) auto

lemma split_lines_CRLF:
  "LF \<notin> set s \<Longrightarrow> CR \<notin> set s \<Longrightarrow> split_lines (s @ CR # LF # t) = s # split_lines t"
  by (induction s) (auto simp: LF_def CR_def)

definition replace_cu :: "'a \<Rightarrow> 'a \<Rightarrow> 'a list \<Rightarrow> 'a list" where
  "replace_cu a b s = map (\<lambda>c. if c = a then b else c) s"

end
