(* ===== verification/JsNumber.thy ===== *)
theory JsNumber
  imports JsString Complex_Main
begin

section \<open>The numbers of the language\<close>

text \<open>
  A JavaScript number is an IEEE binary64 value.  \<open>jsnum\<close> has its infinities, its \<open>NaN\<close> and,
  for the finite values, the rational they denote; the two zeros are identified, since no code
  here can tell them apart.  \<open>dbl\<close> rounds a rational to the nearest double, ties to even,
  which is what every conversion from text does; \<open>dbl_int\<close> shows that integers below
  \<open>2 ^ 53\<close> are kept.  On top of it are \<open>parseInt(s, 10)\<close>, \<open>Number(s)\<close> and the conversion of
  a number to text.
\<close>

datatype jsnum = NaN | PosInf | NegInf | Fin rat

fun is_finite :: "jsnum \<Rightarrow> bool" where
  "is_finite (Fin q) = True"
| "is_finite _ = False"

subsection \<open>Rounding to a double\<close>

fun bitlen :: "nat \<Rightarrow> nat" where
  "bitlen n = (if n = 0 then 0 else Suc (bitlen (n div 2)))"

declare bitlen.simps [simp del]

definition p2 :: "int \<Rightarrow> rat" where
  "p2 e = (if 0 \<le> e then 2 ^ nat e else 1 / 2 ^ nat (- e))"

text \<open>The exponent \<open>e\<close> with \<open>2 ^ e \<le> q < 2 ^ (e + 1)\<close> of a positive rational.\<close>

definition exponent :: "rat \<Rightarrow> int" where
  "exponent q = (let (a, b) = quotient_of q; e = int (bitlen (nat a)) - int (bitlen (nat b))
     in if p2 e \<le> q then e else e - 1)"

definition round_half_even :: "rat \<Rightarrow> int" where
  "round_half_even q = (let f = \<lfloor>q\<rfloor>; r = q - of_int f
     in if r < 1 / 2 then f else if 1 / 2 < r then f + 1 else if even f then f else f + 1)"

definition dbl :: "rat \<Rightarrow> jsnum" where
  "dbl q = (if q = 0 then Fin 0 else
     let a = \<bar>q\<bar>; u = max (exponent a - 52) (- 1074);
         v = of_int (round_half_even (a / p2 u)) * p2 u
     in if p2 1024 \<le> v then (if q < 0 then NegInf else PosInf) else Fin (sgn q * v))"

lemma bitlen_le: "n < 2 ^ k \<Longrightarrow> bitlen n \<le> k"
proof (induction k arbitrary: n)
  case 0
  then show ?case by (simp add: bitlen.simps)
next
  case (Suc k)
  then have "n div 2 < 2 ^ k" by auto
  with Suc.IH have "bitlen (n div 2) \<le> k" by blast
  then show ?case by (subst bitlen.simps) simp
qed

lemma bitlen_1: "bitlen (Suc 0) = 1"
  by (simp add: bitlen.simps)

lemma round_half_even_int [simp]: "round_half_even (of_int n) = n"
  by (simp add: round_half_even_def)

lemma exponent_int_le:
  assumes "0 < n" "n < 2 ^ 53"
  shows "exponent (of_int n) \<le> 52"
proof -
  have "nat n < 2 ^ 53" using assms by (simp add: nat_less_iff)
  then have "bitlen (nat n) \<le> 53" by (rule bitlen_le)
  then show ?thesis by (auto simp: exponent_def Let_def bitlen_1)
qed

lemma dbl_pos_int:
  assumes "0 < n" "n < 2 ^ 53"
  shows "dbl (of_int n) = Fin (of_int n)"
proof -
  define u where "u = max (exponent (of_int n) - 52) (- 1074)"
  have u: "u \<le> 0" using exponent_int_le [OF assms] by (simp add: u_def)
  have p2u: "p2 u = 1 / 2 ^ nat (- u)" using u by (cases "u = 0") (simp_all add: p2_def)
  have "(of_int n :: rat) / p2 u = of_int (n * 2 ^ nat (- u))"
    by (simp add: p2u)
  then have m: "round_half_even (of_int n / p2 u) = n * 2 ^ nat (- u)"
    by (metis round_half_even_int)
  have v: "of_int (round_half_even (of_int n / p2 u)) * p2 u = (of_int n :: rat)"
    unfolding m by (simp add: p2u)
  have "(of_int n :: rat) < of_int (2 ^ 53)" using assms by (simp only: of_int_less_iff)
  also have "(of_int (2 ^ 53) :: rat) < p2 1024" by (simp add: p2_def)
  finally have "\<not> p2 1024 \<le> (of_int n :: rat)" by simp
  then show ?thesis
    using assms v by (simp add: dbl_def Let_def flip: u_def)
qed

lemma dbl_int:
  assumes "\<bar>n\<bar> < 2 ^ 53"
  shows "dbl (of_int n) = Fin (of_int n)"
proof -
  consider "n = 0" | "0 < n" | "n < 0" by linarith
  then show ?thesis
  proof cases
    case 1
    then show ?thesis by (simp add: dbl_def)
  next
    case 2
    with assms show ?thesis by (simp add: dbl_pos_int)
  next
    case 3
    with assms have p: "dbl (of_int (- n)) = Fin (of_int (- n))"
      by (intro dbl_pos_int) auto
    with 3 show ?thesis
      by (auto simp: dbl_def Let_def split: if_splits)
  qed
qed

lemma dbl_nat: "n < 2 ^ 53 \<Longrightarrow> dbl (of_nat n) = Fin (of_nat n)"
  using dbl_int [of "int n"] by simp

subsection \<open>Decimal digits\<close>

definition is_digit :: "cu \<Rightarrow> bool" where
  "is_digit c \<longleftrightarrow> 0x30 \<le> c \<and> c \<le> 0x39"

definition digit_val :: "cu \<Rightarrow> nat" where
  "digit_val c = unat c - 48"

definition digit_cu :: "nat \<Rightarrow> cu" where
  "digit_cu d = 48 + of_nat d"

fun nat_digits :: "nat \<Rightarrow> jstring" where
  "nat_digits n = (if n < 10 then [digit_cu n] else nat_digits (n div 10) @ [digit_cu (n mod 10)])"

declare nat_digits.simps [simp del]

definition digits_val :: "jstring \<Rightarrow> nat" where
  "digits_val ds = foldl (\<lambda>a c. 10 * a + digit_val c) 0 ds"

lemma digit_cu_lt10:
  assumes "d < 10"
  shows "is_digit (digit_cu d)" and "digit_val (digit_cu d) = d"
proof -
  have u: "unat (digit_cu d) = 48 + d"
    using assms by (simp add: digit_cu_def unat_word_ariths unat_of_nat)
  then show "digit_val (digit_cu d) = d" by (simp add: digit_val_def)
  show "is_digit (digit_cu d)"
    using assms by (simp add: is_digit_def word_le_nat_alt u)
qed

lemma digits_val_snoc [simp]: "digits_val (ds @ [c]) = 10 * digits_val ds + digit_val c"
  by (simp add: digits_val_def)

lemma nat_digits_ne [simp]: "nat_digits n \<noteq> []"
  by (subst nat_digits.simps) simp

lemma nat_digits_digits: "\<forall>c \<in> set (nat_digits n). is_digit c"
proof (induction n rule: nat_digits.induct)
  case (1 n)
  then show ?case
    by (cases "n < 10") (auto simp: nat_digits.simps [of n] digit_cu_lt10)
qed

lemma digits_val_nat_digits [simp]: "digits_val (nat_digits n) = n"
proof (induction n rule: nat_digits.induct)
  case (1 n)
  then show ?case
    by (cases "n < 10") (auto simp: nat_digits.simps [of n] digit_cu_lt10 digits_val_def)
qed

lemma nat_digits_leading_zero: "hd (nat_digits n) = digit_cu 0 \<Longrightarrow> n = 0 \<and> nat_digits n = [digit_cu 0]"
proof (induction n rule: nat_digits.induct)
  case (1 n)
  show ?case
  proof (cases "n < 10")
    case True
    then have "digit_val (digit_cu n) = n" by (rule digit_cu_lt10)
    with True 1 show ?thesis
      by (simp add: nat_digits.simps [of n]) (metis digit_cu_lt10(2) zero_less_numeral)
  next
    case False
    with 1 have "n div 10 = 0" by (simp add: nat_digits.simps [of n])
    with False show ?thesis by simp
  qed
qed

text \<open>Digits are neither white space nor any of the characters the link grammar uses.\<close>

lemma is_digit_not_ws: "is_digit c \<Longrightarrow> \<not> is_ws c"
  by (auto simp: is_digit_def is_ws_def word_le_nat_alt)

lemma dropWhile_ws_digits: "\<forall>c \<in> set ds. is_digit c \<Longrightarrow> dropWhile is_ws ds = ds"
  by (cases ds) (auto dest: is_digit_not_ws)

subsection \<open>\<open>parseInt(s, 10)\<close>\<close>

text \<open>Leading white space, an optional sign, the longest run of digits; \<open>NaN\<close> without a digit.\<close>

definition split_sign :: "jstring \<Rightarrow> bool \<times> jstring" where
  "split_sign s = (case s of c # cs \<Rightarrow> if c = ch (CHR ''-'') then (True, cs)
       else if c = ch (CHR ''+'') then (False, cs) else (False, s)
     | [] \<Rightarrow> (False, []))"

definition with_sign :: "bool \<Rightarrow> rat \<Rightarrow> rat" where
  "with_sign neg q = (if neg then - q else q)"

definition parseInt10 :: "jstring \<Rightarrow> jsnum" where
  "parseInt10 s = (let (neg, t) = split_sign (trim_start s); ds = takeWhile is_digit t
     in if ds = [] then NaN else dbl (with_sign neg (of_nat (digits_val ds))))"

lemma digit_not_sign: "is_digit c \<Longrightarrow> c \<noteq> ch (CHR ''-'') \<and> c \<noteq> ch (CHR ''+'')"
  by (auto simp: is_digit_def word_le_nat_alt)

lemma split_sign_digits:
  "ds \<noteq> [] \<Longrightarrow> \<forall>c \<in> set ds. is_digit c \<Longrightarrow> split_sign (ds @ t) = (False, ds @ t)"
  by (cases ds) (auto simp: split_sign_def dest: digit_not_sign)

lemma parseInt10_digits:
  assumes "t = [] \<or> \<not> is_digit (hd t)"
  shows "parseInt10 (nat_digits n @ t) = dbl (of_nat n)"
proof -
  have d: "\<forall>c \<in> set (nat_digits n). is_digit c" by (rule nat_digits_digits)
  then have "dropWhile is_ws (nat_digits n @ t) = nat_digits n @ t"
    by (cases "nat_digits n") (auto dest: is_digit_not_ws)
  moreover have "takeWhile is_digit (nat_digits n @ t) = nat_digits n"
    by (rule takeWhile_append_stop) (use d assms in auto)
  ultimately show ?thesis
    by (simp add: parseInt10_def trim_start_def split_sign_digits [OF nat_digits_ne d] with_sign_def)
qed

lemma parseInt10_nat:
  "n < 2 ^ 53 \<Longrightarrow> parseInt10 (nat_digits n) = Fin (of_nat n)"
  using parseInt10_digits [of "[]" n] by (simp add: dbl_nat)

subsection \<open>\<open>Number(s)\<close>\<close>

text \<open>
  The text without surrounding white space is empty (zero), a hexadecimal, octal or binary
  literal, or an optionally signed decimal literal or \<open>Infinity\<close>; anything else is \<open>NaN\<close>.
\<close>

definition p10 :: "int \<Rightarrow> rat" where
  "p10 e = (if 0 \<le> e then 10 ^ nat e else 1 / 10 ^ nat (- e))"

definition base_digit :: "cu \<Rightarrow> nat" where
  "base_digit c = (if is_digit c then digit_val c
     else if 0x61 \<le> to_lower_cu c \<and> to_lower_cu c \<le> 0x7A then unat (to_lower_cu c) - 87
     else 99)"

definition base_literal :: "nat \<Rightarrow> jstring \<Rightarrow> jsnum" where
  "base_literal b ds = (if ds \<noteq> [] \<and> (\<forall>c \<in> set ds. base_digit c < b)
     then dbl (of_nat (foldl (\<lambda>a c. b * a + base_digit c) 0 ds)) else NaN)"

text \<open>The exponent part: absent, or \<open>e\<close> with a signed digit run up to the end.\<close>

definition exponent_part :: "jstring \<Rightarrow> int option" where
  "exponent_part s = (case s of [] \<Rightarrow> Some 0 | c # cs \<Rightarrow>
     if c \<noteq> ch (CHR ''e'') \<and> c \<noteq> ch (CHR ''E'') then None
     else let (neg, ds) = split_sign cs in
       if ds = [] \<or> (\<exists>d \<in> set ds. \<not> is_digit d) then None
       else Some ((if neg then - 1 else 1) * int (digits_val ds)))"

definition frac_part :: "jstring \<Rightarrow> jstring \<times> jstring" where
  "frac_part s = (if starts_with [ch (CHR ''.'')] s
     then (takeWhile is_digit (tl s), dropWhile is_digit (tl s)) else ([], s))"

definition decimal_literal :: "jstring \<Rightarrow> jsnum" where
  "decimal_literal s = (let (neg, t) = split_sign s in
     if t = js ''Infinity'' then (if neg then NegInf else PosInf)
     else let ip = takeWhile is_digit t; (fp, rest) = frac_part (dropWhile is_digit t) in
       if ip = [] \<and> fp = [] then NaN
       else case exponent_part rest of None \<Rightarrow> NaN
         | Some e \<Rightarrow> dbl (with_sign neg (of_nat (digits_val (ip @ fp)) * p10 (e - int (length fp)))))"

definition js_Number :: "jstring \<Rightarrow> jsnum" where
  "js_Number s = (let t = trim s; p = to_lower (take 2 t) in
     if t = [] then Fin 0
     else if p = js ''0x'' then base_literal 16 (drop 2 t)
     else if p = js ''0o'' then base_literal 8 (drop 2 t)
     else if p = js ''0b'' then base_literal 2 (drop 2 t)
     else decimal_literal t)"

lemma take2_digits_prefix:
  assumes "\<forall>c \<in> set ds. is_digit c" "\<not> is_digit c2"
  shows "to_lower (take 2 ds) \<noteq> [c1, c2]"
proof
  assume a: "to_lower (take 2 ds) = [c1, c2]"
  have id: "to_lower_cu c = c" if "is_digit c" for c
    using that by (auto simp: to_lower_cu_def is_digit_def word_le_nat_alt)
  have "map to_lower_cu (take 2 ds) = map (\<lambda>c. c) (take 2 ds)"
    using assms(1) by (intro map_cong) (auto simp: id dest: in_set_takeD)
  with a have "take 2 ds = [c1, c2]" by (simp add: to_lower_def)
  then have "c2 \<in> set (take 2 ds)" by simp
  then have "c2 \<in> set ds" by (rule in_set_takeD)
  with assms show False by blast
qed

lemma js_Number_digits:
  assumes d: "\<forall>c \<in> set ds. is_digit c" and ne: "ds \<noteq> []" and small: "digits_val ds < 2 ^ 53"
  shows "js_Number ds = Fin (of_nat (digits_val ds))"
proof -
  have hl: "hd ds \<in> set ds" "last ds \<in> set ds" using ne by simp_all
  then have t: "trim ds = ds"
    using d is_digit_not_ws by (intro trim_id) blast
  have p: "to_lower (take 2 ds) \<noteq> js ''0x''" "to_lower (take 2 ds) \<noteq> js ''0o''"
      "to_lower (take 2 ds) \<noteq> js ''0b''"
    by (simp_all, (rule take2_digits_prefix [OF d], simp add: is_digit_def word_le_nat_alt)+)
  have s: "split_sign ds = (False, ds)"
    using split_sign_digits [OF ne d, of "[]"] by simp
  have i: "ds \<noteq> js ''Infinity''"
  proof
    assume e: "ds = js ''Infinity''"
    have "is_digit (hd ds)" using d hl by blast
    with e show False by (simp add: is_digit_def word_le_nat_alt)
  qed
  have tw: "takeWhile is_digit ds = ds" "dropWhile is_digit ds = []"
    using d by (auto simp: takeWhile_eq_all_conv)
  have "decimal_literal ds = dbl (of_nat (digits_val ds))"
    by (simp add: s i tw ne decimal_literal_def frac_part_def exponent_part_def with_sign_def p10_def
        del: js_Cons)
  with t p ne small show ?thesis by (simp add: js_Number_def Let_def dbl_nat del: js_Cons)
qed

lemma js_Number_nat:
  assumes "n < 2 ^ 53"
  shows "js_Number (nat_digits n) = Fin (of_nat n)"
  using js_Number_digits [OF nat_digits_digits nat_digits_ne, of n] assms by simp

subsection \<open>Number to text\<close>

text \<open>
  The shortest decimal text that reads back as the same double, in the language's positional or
  exponent format.  An integer below \<open>2 ^ 53\<close> is its decimal digits.
\<close>

definition zeros :: "nat \<Rightarrow> jstring" where
  "zeros n = replicate n (ch (CHR ''0''))"

definition dec_point :: "rat \<Rightarrow> int" where
  "dec_point q = (if 1 \<le> q then int (length (nat_digits (nat \<lfloor>q\<rfloor>)))
     else 1 - int (length (nat_digits (nat \<lceil>1 / q\<rceil> - 1))))"

definition shortest :: "rat \<Rightarrow> nat \<Rightarrow> int option" where
  "shortest q k = (let x = q / p10 (dec_point q - int k); f = \<lfloor>x\<rfloor>;
       near = (if x - of_int f < 1 / 2 then [f, f + 1] else [f + 1, f])
     in find (\<lambda>s. 10 ^ (k - 1) \<le> s \<and> s < 10 ^ k
          \<and> dbl (of_int s * p10 (dec_point q - int k)) = Fin q) near)"

definition layout :: "jstring \<Rightarrow> int \<Rightarrow> jstring" where
  "layout ds n = (let k = int (length ds); e = nat_digits (nat \<bar>n - 1\<bar>);
       sign = (if 0 \<le> n - 1 then js ''+'' else js ''-'') in
     if k \<le> n \<and> n \<le> 21 then ds @ zeros (nat (n - k))
     else if 0 < n \<and> n \<le> 21 then take (nat n) ds @ js ''.'' @ drop (nat n) ds
     else if - 6 < n \<and> n \<le> 0 then js ''0.'' @ zeros (nat (- n)) @ ds
     else if k = 1 then ds @ js ''e'' @ sign @ e
     else take 1 ds @ js ''.'' @ drop 1 ds @ js ''e'' @ sign @ e)"

definition pos_to_string :: "rat \<Rightarrow> jstring" where
  "pos_to_string q = (if q = of_int \<lfloor>q\<rfloor> \<and> q < 2 ^ 53 then nat_digits (nat \<lfloor>q\<rfloor>)
     else case List.map_filter (shortest q) [1..<18] of
       s # _ \<Rightarrow> layout (nat_digits (nat s)) (dec_point q) | [] \<Rightarrow> [])"

fun num_to_string :: "jsnum \<Rightarrow> jstring" where
  "num_to_string NaN = js ''NaN''"
| "num_to_string PosInf = js ''Infinity''"
| "num_to_string NegInf = js ''-Infinity''"
| "num_to_string (Fin q) = (if q < 0 then js ''-'' @ pos_to_string (- q) else pos_to_string q)"

text \<open>Integers that a double holds exactly.\<close>

definition safe_int :: "jsnum \<Rightarrow> bool" where
  "safe_int x = (case x of Fin q \<Rightarrow> q = of_int \<lfloor>q\<rfloor> \<and> \<bar>q\<bar> < 2 ^ 53 | _ \<Rightarrow> False)"

lemma num_to_string_nat [simp]:
  "n < 2 ^ 53 \<Longrightarrow> num_to_string (Fin (of_nat n)) = nat_digits n"
proof -
  assume "n < 2 ^ 53"
  then have "(of_nat n :: rat) < of_nat (2 ^ 53)" by (simp only: of_nat_less_iff)
  then have "(of_nat n :: rat) < 2 ^ 53" by simp
  then show ?thesis by (simp add: pos_to_string_def)
qed

end
