(* ===== verification/Codec.thy ===== *)
theory Codec
  imports Prelude
begin

section \<open>The interface of an encoding\<close>

text \<open>
  The program decodes several encodings that other programs produce: base64, UTF-8, percent
  encoding and JSON.  Each is an instance of one contract: a decoder that inverts an encoder on
  the values the encoder accepts.  The contract gives injectivity of the encoder, and it composes,
  which is how a \<open>vmess\<close> link nests JSON in UTF-8 in base64.
\<close>

locale codec =
  fixes enc :: "'a \<Rightarrow> 'b" and dec :: "'b \<Rightarrow> exn + 'a" and ok :: "'a \<Rightarrow> bool"
  assumes dec_enc: "ok x \<Longrightarrow> dec (enc x) = Inr x"
begin

lemma enc_inj_on: "inj_on enc {x. ok x}"
proof (rule inj_onI)
  fix x y
  assume "x \<in> {x. ok x}" "y \<in> {x. ok x}" "enc x = enc y"
  then have "(Inr x :: exn + 'a) = Inr y" by (metis dec_enc mem_Collect_eq)
  then show "x = y" by simp
qed

lemma bind_dec_enc: "ok x \<Longrightarrow> bindE (dec (enc x)) f = f x"
  by (simp add: dec_enc)

end

text \<open>Two layers: \<open>outer\<close> encodes what \<open>inner\<close> produced.\<close>

locale codec_stack = inner: codec enc dec ok + outer: codec enc' dec' ok'
  for enc :: "'a \<Rightarrow> 'b" and dec :: "'b \<Rightarrow> exn + 'a" and ok :: "'a \<Rightarrow> bool"
    and enc' :: "'b \<Rightarrow> 'c" and dec' :: "'c \<Rightarrow> exn + 'b" and ok' :: "'b \<Rightarrow> bool" +
  assumes layer: "ok x \<Longrightarrow> ok' (enc x)"
begin

lemma stack_dec_enc: "ok x \<Longrightarrow> bindE (dec' (enc' (enc x))) dec = Inr x"
  by (simp add: layer outer.bind_dec_enc inner.dec_enc)

end

sublocale codec_stack \<subseteq> stacked: codec "\<lambda>x. enc' (enc x)" "\<lambda>y. bindE (dec' y) dec" ok
  by unfold_locales (rule stack_dec_enc)

end
