(* ===== verification/Json.thy ===== *)
theory Json
  imports JsNumber Codec "HOL-Library.AList"
begin

section \<open>JSON values, \<open>JSON.parse\<close> and \<open>JSON.stringify\<close>\<close>

text \<open>
  \<open>json\<close> is the type of the values that go through \<open>JSON.parse\<close> and \<open>JSON.stringify\<close>; an object
  is the list of its own properties in insertion order.  It is also the type of the dynamically
  typed values of the code: the fields of a parsed \<open>vmess\<close> payload are used under an unchecked
  cast, so they may be any JSON value.  \<open>truthy\<close>, \<open>js_or\<close>, \<open>get_prop\<close> and \<open>to_text\<close> are the
  language's operations on such values.  The parser is fuelled; \<open>JSON_parse\<close> gives it twice the
  length of the text, and \<open>jp_fuel\<close> shows that more fuel changes nothing.
  \<open>stringify_parse\<close> is the round trip, stated again as an interpretation of the codec interface.
\<close>

datatype json = JNull | JBool bool | JNum jsnum | JStr jstring | JArr "json list"
  | JObj "(jstring \<times> json) list"

subsection \<open>The language's operations on dynamic values\<close>

fun truthy :: "json \<Rightarrow> bool" where
  "truthy JNull = False"
| "truthy (JBool b) = b"
| "truthy (JNum x) = (x \<noteq> NaN \<and> x \<noteq> Fin 0)"
| "truthy (JStr s) = (s \<noteq> [])"
| "truthy _ = True"

text \<open>\<open>a || b\<close>, where \<open>None\<close> is \<open>undefined\<close>; \<open>or_undef a\<close> is \<open>a || undefined\<close>.\<close>

definition js_or :: "json option \<Rightarrow> json \<Rightarrow> json" where
  "js_or a b = (case a of Some v \<Rightarrow> if truthy v then v else b | None \<Rightarrow> b)"

definition or_undef :: "json option \<Rightarrow> json option" where
  "or_undef a = (case a of Some v \<Rightarrow> if truthy v then Some v else None | None \<Rightarrow> None)"

text \<open>\<open>a ?? b\<close> on a dynamic value: \<open>null\<close> counts as missing too.\<close>

definition nullish :: "json option \<Rightarrow> json \<Rightarrow> json" where
  "nullish a b = (case a of None \<Rightarrow> b | Some v \<Rightarrow> if v = JNull then b else v)"

text \<open>Reading a property that no built-in prototype has: \<open>null\<close> throws, a non-object has none.\<close>

fun get_prop :: "json \<Rightarrow> jstring \<Rightarrow> exn + json option" where
  "get_prop JNull k = Inl TypeError"
| "get_prop (JObj kvs) k = Inr (map_of kvs k)"
| "get_prop _ k = Inr None"

text \<open>Conversion to text, as in a template literal.  An object with an own property \<open>toString\<close>
  has no usable conversion, because a JSON value is never a function.\<close>

fun seqE :: "(exn + 'a) list \<Rightarrow> exn + 'a list" where
  "seqE [] = Inr []"
| "seqE (x # xs) = bindE x (\<lambda>y. bindE (seqE xs) (\<lambda>ys. Inr (y # ys)))"

fun to_text :: "json \<Rightarrow> exn + jstring" where
  "to_text JNull = Inr (js ''null'')"
| "to_text (JBool b) = Inr (if b then js ''true'' else js ''false'')"
| "to_text (JNum x) = Inr (num_to_string x)"
| "to_text (JStr s) = Inr s"
| "to_text (JArr vs) = bindE (seqE (map (\<lambda>v. if v = JNull then Inr [] else to_text v) vs))
     (\<lambda>ts. Inr (join (js '','') ts))"
| "to_text (JObj kvs) = (if js ''toString'' \<in> fst ` set kvs then Inl TypeError
     else Inr (js ''[object Object]''))"

subsection \<open>\<open>JSON.stringify\<close>\<close>

definition is_high :: "cu \<Rightarrow> bool" where
  "is_high c \<longleftrightarrow> 0xD800 \<le> c \<and> c \<le> 0xDBFF"

definition is_low :: "cu \<Rightarrow> bool" where
  "is_low c \<longleftrightarrow> 0xDC00 \<le> c \<and> c \<le> 0xDFFF"

definition hex_cu :: "nat \<Rightarrow> cu" where
  "hex_cu d = (if d < 10 then 48 + of_nat d else 87 + of_nat d)"

definition hex4 :: "cu \<Rightarrow> jstring" where
  "hex4 c = (let n = unat c in
     map hex_cu [n div 4096, n div 256 mod 16, n div 16 mod 16, n mod 16])"

definition quote_cu :: "cu \<Rightarrow> jstring" where
  "quote_cu c = (if c = 0x22 then [0x5C, 0x22] else if c = 0x5C then [0x5C, 0x5C]
     else if c = 0x08 then [0x5C, ch (CHR ''b'')] else if c = 0x0C then [0x5C, ch (CHR ''f'')]
     else if c = 0x0A then [0x5C, ch (CHR ''n'')] else if c = 0x0D then [0x5C, ch (CHR ''r'')]
     else if c = 0x09 then [0x5C, ch (CHR ''t'')]
     else if c < 0x20 \<or> is_high c \<or> is_low c then 0x5C # ch (CHR ''u'') # hex4 c
     else [c])"

fun quote_body :: "jstring \<Rightarrow> jstring" where
  "quote_body [] = []"
| "quote_body (c # s) = (if is_high c \<and> s \<noteq> [] \<and> is_low (hd s)
     then c # hd s # quote_body (tl s) else quote_cu c @ quote_body s)"

definition quote :: "jstring \<Rightarrow> jstring" where
  "quote s = 0x22 # quote_body s @ [0x22]"

fun stringify :: "json \<Rightarrow> jstring" where
  "stringify JNull = js ''null''"
| "stringify (JBool b) = (if b then js ''true'' else js ''false'')"
| "stringify (JNum x) = (if is_finite x then num_to_string x else js ''null'')"
| "stringify (JStr s) = quote s"
| "stringify (JArr vs) = js ''['' @ join (js '','') (map stringify vs) @ js '']''"
| "stringify (JObj kvs) =
     js ''{'' @ join (js '','') (map (\<lambda>kv. quote (fst kv) @ js '':'' @ stringify (snd kv)) kvs) @ js ''}''"

subsection \<open>\<open>JSON.parse\<close>\<close>

definition json_ws :: "cu \<Rightarrow> bool" where
  "json_ws c \<longleftrightarrow> c \<in> {0x20, 0x09, 0x0A, 0x0D}"

definition skip :: "jstring \<Rightarrow> jstring" where
  "skip s = dropWhile json_ws s"

definition hex_val :: "cu \<Rightarrow> nat option" where
  "hex_val c = (if is_digit c then Some (digit_val c)
     else if 0x41 \<le> c \<and> c \<le> 0x46 then Some (unat c - 55)
     else if 0x61 \<le> c \<and> c \<le> 0x66 then Some (unat c - 87) else None)"

fun hex4_val :: "jstring \<Rightarrow> cu option" where
  "hex4_val [a, b, c, d] = (case (hex_val a, hex_val b, hex_val c, hex_val d) of
     (Some w, Some x, Some y, Some z) \<Rightarrow> Some (of_nat (4096 * w + 256 * x + 16 * y + z))
   | _ \<Rightarrow> None)"
| "hex4_val _ = None"

definition unescape :: "cu \<Rightarrow> cu option" where
  "unescape e = map_of [(0x22, 0x22), (0x5C, 0x5C), (0x2F, 0x2F), (ch (CHR ''b''), 0x08),
     (ch (CHR ''f''), 0x0C), (ch (CHR ''n''), 0x0A), (ch (CHR ''r''), 0x0D), (ch (CHR ''t''), 0x09)] e"

definition cons1 :: "'a \<Rightarrow> ('a list \<times> 'b) option \<Rightarrow> ('a list \<times> 'b) option" where
  "cons1 x m = map_option (\<lambda>(xs, r). (x # xs, r)) m"

fun jp_string :: "jstring \<Rightarrow> (jstring \<times> jstring) option" where
  "jp_string [] = None"
| "jp_string (c # s) =
     (if c = 0x22 then Some ([], s)
      else if c < 0x20 then None
      else if c \<noteq> 0x5C then cons1 c (jp_string s)
      else case s of [] \<Rightarrow> None | e # r \<Rightarrow>
        if e = ch (CHR ''u'') then
          (case hex4_val (take 4 r) of None \<Rightarrow> None | Some u \<Rightarrow> cons1 u (jp_string (drop 4 r)))
        else (case unescape e of None \<Rightarrow> None | Some u \<Rightarrow> cons1 u (jp_string r)))"

definition jp_frac :: "jstring \<Rightarrow> (jstring \<times> jstring) option" where
  "jp_frac s = (if starts_with [ch (CHR ''.'')] s then
       (let fp = takeWhile is_digit (tl s) in
        if fp = [] then None else Some (fp, dropWhile is_digit (tl s)))
     else Some ([], s))"

definition jp_exp :: "jstring \<Rightarrow> (int \<times> jstring) option" where
  "jp_exp s = (case s of [] \<Rightarrow> Some (0, []) | c # cs \<Rightarrow>
     if c = ch (CHR ''e'') \<or> c = ch (CHR ''E'') then
       (let (neg, t) = split_sign cs; ds = takeWhile is_digit t in
        if ds = [] then None
        else Some ((if neg then - 1 else 1) * int (digits_val ds), dropWhile is_digit t))
     else Some (0, s))"

definition jp_number :: "jstring \<Rightarrow> (json \<times> jstring) option" where
  "jp_number s = (let neg = starts_with (js ''-'') s; t = (if neg then tl s else s);
       ip = takeWhile is_digit t in
     if ip = [] \<or> (hd ip = digit_cu 0 \<and> 1 < length ip) then None
     else case jp_frac (dropWhile is_digit t) of None \<Rightarrow> None
       | Some (fp, r) \<Rightarrow> (case jp_exp r of None \<Rightarrow> None
         | Some (e, r') \<Rightarrow> Some (JNum (dbl (with_sign neg
             (of_nat (digits_val (ip @ fp)) * p10 (e - int (length fp))))), r')))"

text \<open>Duplicate keys: the last value wins, at the place of the first.\<close>

definition obj_of :: "(jstring \<times> json) list \<Rightarrow> (jstring \<times> json) list" where
  "obj_of kvs = foldl (\<lambda>acc (k, v). AList.update k v acc) [] kvs"

fun jp_value :: "nat \<Rightarrow> jstring \<Rightarrow> (json \<times> jstring) option"
  and jp_elems :: "nat \<Rightarrow> jstring \<Rightarrow> (json list \<times> jstring) option"
  and jp_members :: "nat \<Rightarrow> jstring \<Rightarrow> ((jstring \<times> json) list \<times> jstring) option" where
  "jp_value 0 s = None"
| "jp_value (Suc f) s =
     (case skip s of [] \<Rightarrow> None | c # cs \<Rightarrow>
      if c = ch (CHR ''{'') then
        (if starts_with (js ''}'') (skip cs) then Some (JObj [], tl (skip cs))
         else map_option (\<lambda>(kvs, r). (JObj (obj_of kvs), r)) (jp_members f cs))
      else if c = ch (CHR ''['') then
        (if starts_with (js '']'') (skip cs) then Some (JArr [], tl (skip cs))
         else map_option (\<lambda>(vs, r). (JArr vs, r)) (jp_elems f cs))
      else if c = 0x22 then map_option (\<lambda>(t, r). (JStr t, r)) (jp_string cs)
      else if starts_with (js ''null'') (c # cs) then Some (JNull, drop 4 (c # cs))
      else if starts_with (js ''true'') (c # cs) then Some (JBool True, drop 4 (c # cs))
      else if starts_with (js ''false'') (c # cs) then Some (JBool False, drop 5 (c # cs))
      else jp_number (c # cs))"
| "jp_elems 0 s = None"
| "jp_elems (Suc f) s =
     (case jp_value f s of None \<Rightarrow> None | Some (v, r) \<Rightarrow>
       (case skip r of [] \<Rightarrow> None | c # cs \<Rightarrow>
         if c = ch (CHR '','') then cons1 v (jp_elems f cs)
         else if c = ch (CHR '']'') then Some ([v], cs) else None))"
| "jp_members 0 s = None"
| "jp_members (Suc f) s =
     (case skip s of [] \<Rightarrow> None | c0 # t \<Rightarrow>
      if c0 \<noteq> 0x22 then None
      else (case jp_string t of None \<Rightarrow> None | Some (k, r) \<Rightarrow>
        if \<not> starts_with (js '':'') (skip r) then None
        else (case jp_value f (tl (skip r)) of None \<Rightarrow> None | Some (v, r') \<Rightarrow>
          (case skip r' of [] \<Rightarrow> None | c # cs \<Rightarrow>
            if c = ch (CHR '','') then cons1 (k, v) (jp_members f cs)
            else if c = ch (CHR ''}'') then Some ([(k, v)], cs) else None))))"

definition JSON_parse :: "jstring \<Rightarrow> exn + json" where
  "JSON_parse s = (case jp_value (2 * length s + 1) s of
     Some (v, r) \<Rightarrow> if skip r = [] then Inr v else Inl SyntaxError
   | None \<Rightarrow> Inl SyntaxError)"

subsection \<open>Strings read back\<close>

lemma hex_val_hex_cu: "d < 16 \<Longrightarrow> hex_val (hex_cu d) = Some d"
proof -
  assume d: "d < 16"
  show ?thesis
  proof (cases "d < 10")
    case True
    then have "hex_cu d = digit_cu d" by (simp add: hex_cu_def digit_cu_def)
    with True show ?thesis by (simp add: hex_val_def digit_cu_lt10)
  next
    case False
    then have "unat (hex_cu d) = 87 + d"
      using d by (simp add: hex_cu_def unat_word_ariths unat_of_nat)
    with False d show ?thesis
      by (simp add: hex_val_def is_digit_def word_le_nat_alt)
  qed
qed

lemma hex4_val_hex4: "hex4_val (hex4 c) = Some c"
proof -
  let ?n = "unat c"
  have n: "?n < 65536" using unsigned_less [of c] by simp
  then have b: "?n div 4096 < 16" by auto
  have "4096 * (?n div 4096) + 256 * (?n div 256 mod 16) + 16 * (?n div 16 mod 16) + ?n mod 16 = ?n"
  proof -
    have "?n div 256 div 16 = ?n div 4096" "?n div 16 div 16 = ?n div 256"
      by (simp_all flip: div_mult2_eq)
    then show ?thesis
      using div_mult_mod_eq [of "?n div 256" 16] div_mult_mod_eq [of "?n div 16" 16]
        div_mult_mod_eq [of ?n 16] by linarith
  qed
  then have "of_nat (4096 * (?n div 4096) + 256 * (?n div 256 mod 16) + 16 * (?n div 16 mod 16)
      + ?n mod 16) = (of_nat ?n :: cu)" by (rule arg_cong)
  moreover have "(of_nat ?n :: cu) = c" by simp
  ultimately have "of_nat (4096 * (?n div 4096) + 256 * (?n div 256 mod 16) + 16 * (?n div 16 mod 16)
      + ?n mod 16) = c" by (rule trans)
  then show ?thesis using b by (simp add: hex4_def Let_def hex_val_hex_cu del: of_nat_add of_nat_mult)
qed

lemma length_hex4 [simp]: "length (hex4 c) = 4"
  by (simp add: hex4_def Let_def)

lemma jp_string_unicode:
  "jp_string (0x5C # ch (CHR ''u'') # hex4 c @ t) = cons1 c (jp_string t)"
  by (simp add: hex4_val_hex4)

lemma jp_string_quote_cu: "jp_string (quote_cu c @ t) = cons1 c (jp_string t)"
proof -
  consider "c \<in> {0x22, 0x5C, 0x08, 0x0C, 0x0A, 0x0D, 0x09}"
    | "c \<notin> {0x22, 0x5C, 0x08, 0x0C, 0x0A, 0x0D, 0x09}" "c < 0x20 \<or> is_high c \<or> is_low c"
    | "c \<notin> {0x22, 0x5C, 0x08, 0x0C, 0x0A, 0x0D, 0x09}" "\<not> (c < 0x20 \<or> is_high c \<or> is_low c)"
    by blast
  then show ?thesis
  proof cases
    case 1
    then show ?thesis by (auto simp: quote_cu_def unescape_def)
  next
    case 2
    then have "quote_cu c = 0x5C # ch (CHR ''u'') # hex4 c" by (simp add: quote_cu_def)
    then show ?thesis using jp_string_unicode [of c t] by simp
  next
    case 3
    then show ?thesis by (simp add: quote_cu_def)
  qed
qed

lemma jp_string_plain:
  "is_high c \<or> is_low c \<Longrightarrow> jp_string (c # t) = cons1 c (jp_string t)"
  by (auto simp: is_high_def is_low_def word_le_nat_alt word_less_nat_alt)

lemma cons1_simps [simp]: "cons1 x None = None" "cons1 x (Some (xs, r)) = Some (x # xs, r)"
  by (simp_all add: cons1_def)

lemma cons1_eq_Some: "cons1 x m = Some (ys, r) \<longleftrightarrow> (\<exists>xs. m = Some (xs, r) \<and> ys = x # xs)"
  by (auto simp: cons1_def)

lemma jp_string_quote_body: "jp_string (quote_body s @ 0x22 # t) = Some (s, t)"
proof (induction s rule: quote_body.induct)
  case (2 c s)
  show ?case
  proof (cases "is_high c \<and> s \<noteq> [] \<and> is_low (hd s)")
    case True
    then have "jp_string (c # hd s # quote_body (tl s) @ 0x22 # t)
        = cons1 c (cons1 (hd s) (jp_string (quote_body (tl s) @ 0x22 # t)))"
      by (simp add: jp_string_plain del: jp_string.simps)
    with True 2 show ?thesis by (simp del: jp_string.simps)
  next
    case False
    then have "quote_body (c # s) = quote_cu c @ quote_body s" by auto
    with 2(2) [OF False] show ?thesis by (simp add: jp_string_quote_cu del: jp_string.simps)
  qed
qed simp

subsection \<open>Numbers read back\<close>

text \<open>What may follow a value inside a JSON text: nothing, or a separator or closing bracket.\<close>

definition stops :: "jstring \<Rightarrow> bool" where
  "stops r \<longleftrightarrow> r = [] \<or> hd r \<in> {ch (CHR '',''), ch (CHR '']''), ch (CHR ''}'')}"

lemma stops_Nil [simp]: "stops []"
  by (simp add: stops_def)

lemma stops_Cons [simp]:
  "stops (c # r) \<longleftrightarrow> c = ch (CHR '','') \<or> c = ch (CHR '']'') \<or> c = ch (CHR ''}'')"
  by (simp add: stops_def)

lemma stops_not_digit: "stops r \<Longrightarrow> r = [] \<or> \<not> is_digit (hd r)"
  by (auto simp: stops_def is_digit_def word_le_nat_alt)

lemma jp_rest_stops: "stops r \<Longrightarrow> jp_frac r = Some ([], r) \<and> jp_exp r = Some (0, r)"
  by (cases r) (auto simp: jp_frac_def jp_exp_def)

lemma digit_not_minus: "\<forall>c \<in> set ds. is_digit c \<Longrightarrow> ds \<noteq> [] \<Longrightarrow> \<not> starts_with (js ''-'') (ds @ r)"
  by (cases ds) (auto dest: digit_not_sign)

lemma nat_digits_no_leading_zero:
  "hd (nat_digits n) = digit_cu 0 \<longrightarrow> \<not> Suc 0 < length (nat_digits n)"
  using nat_digits_leading_zero [of n] by auto

lemma jp_number_nat_digits:
  assumes "stops r"
  shows "jp_number (nat_digits n @ r) = Some (JNum (dbl (of_nat n)), r)"
    and "jp_number (js ''-'' @ nat_digits n @ r) = Some (JNum (dbl (- of_nat n)), r)"
proof -
  let ?ds = "nat_digits n"
  have d: "\<forall>c \<in> set ?ds. is_digit c" by (rule nat_digits_digits)
  have tw: "takeWhile is_digit (?ds @ r) = ?ds" "dropWhile is_digit (?ds @ r) = r"
    using takeWhile_append_stop dropWhile_append_stop d stops_not_digit [OF assms] by blast+
  note facts = tw jp_rest_stops [OF assms] nat_digits_no_leading_zero
  show "jp_number (?ds @ r) = Some (JNum (dbl (of_nat n)), r)"
    by (simp add: jp_number_def digit_not_minus [OF d] facts with_sign_def p10_def Let_def del: js_Cons)
  show "jp_number (js ''-'' @ ?ds @ r) = Some (JNum (dbl (- of_nat n)), r)"
    by (simp add: jp_number_def facts with_sign_def p10_def Let_def)
qed

lemma safe_int_cases:
  assumes "safe_int x"
  obtains n where "x = Fin (of_nat n)" "n < 2 ^ 53" "num_to_string x = nat_digits n"
    "dbl (of_nat n) = x"
  | n where "0 < n" "x = Fin (- of_nat n)" "n < 2 ^ 53" "num_to_string x = js ''-'' @ nat_digits n"
    "dbl (- of_nat n) = x"
proof -
  from assms obtain q where x: "x = Fin q" and q: "q = of_int \<lfloor>q\<rfloor>" "\<bar>q\<bar> < 2 ^ 53"
    by (auto simp: safe_int_def split: jsnum.splits)
  define k where "k = \<lfloor>q\<rfloor>"
  have qk: "q = of_int k" using q(1) by (simp add: k_def)
  have "(of_int \<bar>k\<bar> :: rat) < of_int (2 ^ 53)" using q(2) qk by simp
  then have k: "\<bar>k\<bar> < 2 ^ 53" by (simp only: of_int_less_iff)
  show thesis
  proof (cases "0 \<le> k")
    case True
    define n where "n = nat k"
    have n: "n < 2 ^ 53" "q = of_nat n" using True k qk by (auto simp: n_def nat_less_iff)
    show thesis
      by (rule that(1) [of n]) (use x n in \<open>simp_all add: dbl_nat num_to_string_nat [simplified]
        del: num_to_string.simps\<close>)
  next
    case False
    define n where "n = nat (- k)"
    have n: "n < 2 ^ 53" "q = - of_nat n" "0 < n"
      using False k qk by (auto simp: n_def nat_less_iff)
    have p: "pos_to_string (of_nat n) = nat_digits n"
      using num_to_string_nat [OF n(1)] by simp
    have "dbl (of_int (- int n)) = Fin (of_int (- int n))" using n by (intro dbl_int) simp
    then have d: "dbl (- of_nat n) = Fin (- of_nat n)" by simp
    show thesis
      by (rule that(2) [of n]) (use x n p d in simp_all)
  qed
qed

lemma jp_number_safe_int:
  "safe_int x \<Longrightarrow> stops r \<Longrightarrow> jp_number (num_to_string x @ r) = Some (JNum x, r)"
  by (erule safe_int_cases) (simp_all add: jp_number_nat_digits del: num_to_string.simps js_Cons)

subsection \<open>The round trip\<close>

text \<open>
  The values whose text reads back as themselves: every number is an integer a double holds
  exactly, and no object has a key twice.  These are all the values the config builder makes from
  such ports.
\<close>

fun json_ok :: "json \<Rightarrow> bool" where
  "json_ok (JNum x) = safe_int x"
| "json_ok (JArr vs) = (\<forall>v \<in> set vs. json_ok v)"
| "json_ok (JObj kvs) = (distinct (map fst kvs) \<and> (\<forall>kv \<in> set kvs. json_ok (snd kv)))"
| "json_ok _ = True"

lemma safe_int_finite: "safe_int x \<Longrightarrow> is_finite x"
  by (cases x) (auto simp: safe_int_def)

lemma update_fresh: "k \<notin> fst ` set acc \<Longrightarrow> AList.update k v acc = acc @ [(k, v)]"
  by (induction acc) auto

lemma obj_of_acc:
  "distinct (map fst (acc @ kvs)) \<Longrightarrow> foldl (\<lambda>acc (k, v). AList.update k v acc) acc kvs = acc @ kvs"
proof (induction kvs arbitrary: acc)
  case (Cons kv kvs)
  obtain k v where kv: "kv = (k, v)" by fastforce
  with Cons.prems have "k \<notin> fst ` set acc" by auto
  then have "AList.update k v acc = acc @ [(k, v)]" by (rule update_fresh)
  with Cons kv show ?case by simp
qed simp

lemma obj_of_distinct: "distinct (map fst kvs) \<Longrightarrow> obj_of kvs = kvs"
  unfolding obj_of_def using obj_of_acc [of "[]" kvs] by simp

lemma skip_Cons: "\<not> json_ws c \<Longrightarrow> skip (c # s) = c # s"
  by (simp add: skip_def)

text \<open>The first character of a value's text, which decides the parser's branch.\<close>

lemma hd_num_to_string:
  assumes "safe_int x"
  shows "\<exists>c t. num_to_string x = c # t \<and> (is_digit c \<or> c = ch (CHR ''-''))"
proof -
  have "\<exists>c t. nat_digits n = c # t \<and> is_digit c" for n
    using nat_digits_digits [of n] by (cases "nat_digits n") auto
  then show ?thesis using assms by (elim safe_int_cases) (fastforce simp del: num_to_string.simps)+
qed

lemma jp_value_number:
  assumes "safe_int x" "stops r"
  shows "jp_value (Suc f) (num_to_string x @ r) = Some (JNum x, r)"
proof -
  from hd_num_to_string [OF assms(1)] obtain c t where
    ct: "num_to_string x = c # t" "is_digit c \<or> c = ch (CHR ''-'')" by blast
  then have "\<not> json_ws c" "c \<noteq> 0x22" "c \<noteq> ch (CHR ''{'')" "c \<noteq> ch (CHR ''['')"
      "\<not> starts_with (js ''null'') (c # t @ r)" "\<not> starts_with (js ''true'') (c # t @ r)"
      "\<not> starts_with (js ''false'') (c # t @ r)"
    by (auto simp: json_ws_def is_digit_def word_le_nat_alt)
  with ct jp_number_safe_int [OF assms] show ?thesis
    by (simp add: skip_Cons del: num_to_string.simps js_Cons)
qed

lemma jp_value_string: "jp_value (Suc f) (quote s @ r) = Some (JStr s, r)"
  by (simp add: quote_def skip_Cons json_ws_def jp_string_quote_body del: jp_string.simps)

lemma jp_value_literals:
  "jp_value (Suc f) (js ''null'' @ r) = Some (JNull, r)"
  "jp_value (Suc f) (js ''true'' @ r) = Some (JBool True, r)"
  "jp_value (Suc f) (js ''false'' @ r) = Some (JBool False, r)"
  by (simp_all add: skip_Cons json_ws_def)

lemma hd_stringify:
  assumes "json_ok v"
  obtains c t where "stringify v = c # t" "\<not> json_ws c" "c \<noteq> ch (CHR '']'')"
proof (cases v)
  case (JNum x)
  with assms obtain c t where "num_to_string x = c # t" "is_digit c \<or> c = ch (CHR ''-'')"
    using hd_num_to_string [of x] by auto
  with JNum assms show thesis
    by (intro that [of c t])
      (auto simp: safe_int_finite json_ws_def is_digit_def word_le_nat_alt simp del: num_to_string.simps)
next
  case (JBool b)
  then show thesis by (cases b) (auto intro: that simp: json_ws_def)
qed (auto intro: that simp: json_ws_def quote_def)

lemma jp_elems_join:
  assumes "\<And>v f r. v \<in> set vs \<Longrightarrow> stops r \<Longrightarrow> 2 * length (stringify v) < f \<Longrightarrow>
      jp_value f (stringify v @ r) = Some (v, r)"
    and "vs \<noteq> []" "2 * length (join (js '','') (map stringify vs)) + 1 < f"
  shows "jp_elems f (join (js '','') (map stringify vs) @ ch (CHR '']'') # r) = Some (vs, r)"
  using assms
proof (induction vs arbitrary: f)
  case (Cons v vs)
  then obtain f' where f: "f = Suc f'" by (cases f) auto
  show ?case
  proof (cases vs)
    case Nil
    with Cons.prems(1) [of v "ch (CHR '']'') # r" f'] Cons.prems(3) f show ?thesis
      by (simp add: skip_Cons json_ws_def)
  next
    case (Cons w ws)
    let ?rest = "join (js '','') (map stringify vs) @ ch (CHR '']'') # r"
    have "jp_value f' (stringify v @ js '','' @ ?rest) = Some (v, js '','' @ ?rest)"
      using Cons.prems(1) [of v "js '','' @ ?rest" f'] Cons.prems(3) f Cons by simp
    moreover have "jp_elems f' ?rest = Some (vs, r)"
      using Cons.IH [of f'] Cons.prems f Cons by simp
    ultimately show ?thesis using f Cons by (simp add: skip_Cons json_ws_def)
  qed
qed simp

abbreviation member_text :: "jstring \<times> json \<Rightarrow> jstring" where
  "member_text kv \<equiv> quote (fst kv) @ js '':'' @ stringify (snd kv)"

lemma jp_members_join:
  assumes "\<And>v f r. v \<in> snd ` set kvs \<Longrightarrow> stops r \<Longrightarrow> 2 * length (stringify v) < f \<Longrightarrow>
      jp_value f (stringify v @ r) = Some (v, r)"
    and "kvs \<noteq> []" "2 * length (join (js '','') (map member_text kvs)) + 1 < f"
  shows "jp_members f (join (js '','') (map member_text kvs) @ ch (CHR ''}'') # r) = Some (kvs, r)"
  using assms
proof (induction kvs arbitrary: f)
  case (Cons kv kvs)
  obtain k v where kv: "kv = (k, v)" by fastforce
  from Cons.prems obtain f' where f: "f = Suc f'" by (cases f) auto
  have head: "jp_members f (member_text (k, v) @ c # t) =
      (if c = ch (CHR '','') then cons1 (k, v) (jp_members f' t)
       else if c = ch (CHR ''}'') then Some ([(k, v)], t) else None)"
    if "jp_value f' (stringify v @ c # t) = Some (v, c # t)" "\<not> json_ws c" for c t
    using that f by (simp add: quote_def skip_Cons json_ws_def jp_string_quote_body
        del: jp_string.simps)
  show ?case
  proof (cases kvs)
    case Nil
    then have "jp_value f' (stringify v @ ch (CHR ''}'') # r) = Some (v, ch (CHR ''}'') # r)"
      using Cons.prems(1) [of v "ch (CHR ''}'') # r" f'] Cons.prems(3) f kv by simp
    from head [OF this] Nil kv show ?thesis by (simp add: json_ws_def)
  next
    case (Cons kw kws)
    let ?rest = "join (js '','') (map member_text kvs) @ ch (CHR ''}'') # r"
    have v: "jp_value f' (stringify v @ ch (CHR '','') # ?rest) = Some (v, ch (CHR '','') # ?rest)"
      using Cons.prems(1) [of v "ch (CHR '','') # ?rest" f'] Cons.prems(3) f Cons kv by simp
    have "jp_members f' ?rest = Some (kvs, r)"
      using Cons.IH [of f'] Cons.prems f Cons by simp
    with head [OF v] Cons kv show ?thesis by (simp add: json_ws_def)
  qed
qed simp

lemma jp_value_stringify:
  "json_ok v \<Longrightarrow> stops r \<Longrightarrow> 2 * length (stringify v) < f \<Longrightarrow>
   jp_value f (stringify v @ r) = Some (v, r)"
proof (induction v arbitrary: f r)
  case JNull
  then show ?case using jp_value_literals by (cases f) (auto simp del: js_Cons)
next
  case (JBool b)
  then show ?case using jp_value_literals by (cases f) (auto simp del: js_Cons)
next
  case (JNum x)
  then show ?case
    by (cases f) (simp_all add: jp_value_number safe_int_finite del: num_to_string.simps jp_value.simps)
next
  case (JStr s)
  then show ?case by (cases f) (simp_all add: jp_value_string del: jp_value.simps)
next
  case (JArr vs)
  from JArr.prems obtain f' where f: "f = Suc f'" by (cases f) auto
  show ?case
  proof (cases vs)
    case Nil
    with f show ?thesis by (simp add: skip_Cons json_ws_def)
  next
    case (Cons v ws)
    with JArr.prems have "json_ok v" by simp
    then obtain c t where ct: "stringify v = c # t" "\<not> json_ws c" "c \<noteq> ch (CHR '']'')"
      by (rule hd_stringify)
    obtain u where u: "join (js '','') (map stringify vs) = c # u"
      using Cons ct by (cases ws) auto
    have "jp_elems f' (join (js '','') (map stringify vs) @ ch (CHR '']'') # r) = Some (vs, r)"
      using JArr Cons f by (intro jp_elems_join) auto
    with f u ct show ?thesis by (simp add: skip_Cons json_ws_def)
  qed
next
  case (JObj kvs)
  from JObj.prems obtain f' where f: "f = Suc f'" by (cases f) auto
  have IH: "jp_value g (stringify v @ t) = Some (v, t)"
    if "v \<in> snd ` set kvs" "stops t" "2 * length (stringify v) < g" for v g t
  proof -
    from that(1) obtain k where "(k, v) \<in> set kvs" by auto
    moreover from this JObj.prems(1) have "json_ok v" by fastforce
    ultimately show ?thesis using JObj.IH [of "(k, v)" v] that by simp
  qed
  show ?case
  proof (cases kvs)
    case Nil
    with f show ?thesis by (simp add: skip_Cons json_ws_def)
  next
    case (Cons kv kvs')
    obtain u where u: "join (js '','') (map member_text kvs) = 0x22 # u"
      using Cons by (cases kvs') (auto simp: quote_def)
    have "jp_members f' (join (js '','') (map member_text kvs) @ ch (CHR ''}'') # r) = Some (kvs, r)"
      using IH JObj.prems Cons f by (intro jp_members_join) simp_all
    with f u JObj.prems show ?thesis
      by (simp add: skip_Cons json_ws_def obj_of_distinct)
  qed
qed

lemma stringify_parse: "json_ok v \<Longrightarrow> JSON_parse (stringify v) = Inr v"
  using jp_value_stringify [of v "[]" "2 * length (stringify v) + 1"]
  by (simp add: JSON_parse_def skip_def del: jp_value.simps)

interpretation json_codec: codec stringify JSON_parse json_ok
  by unfold_locales (rule stringify_parse)

subsection \<open>The fuel is enough\<close>

text \<open>Each parser consumes text, so twice the length bounds the depth of the calls.\<close>

lemma length_skip_le: "length (skip s) \<le> length s"
  by (simp add: skip_def length_dropWhile_le)

lemma skip_eq_Cons_length: "skip s = c # t \<Longrightarrow> length t < length s"
  using length_skip_le [of s] by simp

lemma jp_string_shorter: "jp_string s = Some (t, r) \<Longrightarrow> length r < length s"
proof (induction s arbitrary: t rule: length_induct)
  case (1 s)
  have IH: "length r < length q" if "jp_string q = Some (u, r)" "length q < length s" for q u
    using 1 that by blast
  show ?case
  proof (cases s)
    case (Cons c cs)
    have rec: "jp_string q = Some (u, r) \<Longrightarrow> length q \<le> length cs \<Longrightarrow> length r < length s" for q u
      using IH [of q u] Cons by simp
    have "length (drop 4 (tl cs)) \<le> length cs" "length (tl cs) \<le> length cs" by auto
    then show ?thesis
      using "1.prems" Cons rec
      by (auto split: if_splits list.splits option.splits simp: cons1_eq_Some)
  qed (use "1.prems" in simp)
qed

lemma jp_frac_shorter: "jp_frac s = Some (fp, r) \<Longrightarrow> length r \<le> length s"
proof -
  have "length (dropWhile is_digit (tl s)) \<le> length s"
    using length_dropWhile_le [of is_digit "tl s"] by (cases s) auto
  then show "jp_frac s = Some (fp, r) \<Longrightarrow> length r \<le> length s"
    by (auto simp: jp_frac_def Let_def split: if_splits)
qed

lemma jp_exp_shorter: "jp_exp s = Some (e, r) \<Longrightarrow> length r \<le> length s"
proof -
  assume a: "jp_exp s = Some (e, r)"
  show ?thesis
  proof (cases s)
    case Nil
    with a show ?thesis by (simp add: jp_exp_def)
  next
    case (Cons c cs)
    have "length (snd (split_sign cs)) \<le> length cs"
      by (auto simp: split_sign_def split: list.splits)
    then have "length (dropWhile is_digit (snd (split_sign cs))) \<le> length cs"
      using length_dropWhile_le [of is_digit "snd (split_sign cs)"] by linarith
    with a Cons show ?thesis
      by (auto simp: jp_exp_def Let_def split: if_splits prod.splits)
  qed
qed

lemma jp_number_shorter:
  assumes "jp_number s = Some (v, r)"
  shows "length r < length s"
proof -
  define t where "t = (if starts_with (js ''-'') s then tl s else s)"
  from assms have ip: "takeWhile is_digit t \<noteq> []"
    by (auto simp: jp_number_def t_def Let_def split: if_splits)
  have "length (dropWhile is_digit t) < length t"
    using ip by (metis length_append length_greater_0_conv less_add_same_cancel2 takeWhile_dropWhile_id)
  also have "length t \<le> length s" by (simp add: t_def)
  finally have lt: "length (dropWhile is_digit t) < length s" .
  from assms obtain fp q e where "jp_frac (dropWhile is_digit t) = Some (fp, q)" "jp_exp q = Some (e, r)"
    by (auto simp: jp_number_def t_def Let_def split: if_splits option.splits prod.splits)
  then show ?thesis using lt jp_frac_shorter jp_exp_shorter by fastforce
qed

lemma jp_shorter:
  "jp_value f s = Some (v, r) \<Longrightarrow> length r < length s"
  "jp_elems f s = Some (vs, r) \<Longrightarrow> length r < length s"
  "jp_members f s = Some (kvs, r) \<Longrightarrow> length r < length s"
proof (induction f s and f s and f s arbitrary: v r and vs r and kvs r
    rule: jp_value_jp_elems_jp_members.induct)
  case (2 f s)
  then obtain c cs where sk: "skip s = c # cs" by (auto split: list.splits)
  have l: "length cs < length s" "length (c # cs) \<le> length s"
    using sk length_skip_le [of s] by auto
  have "length (tl (skip cs)) < length s" "length (drop 4 (c # cs)) < length s"
      "length (drop 5 (c # cs)) < length s"
    using l length_skip_le [of cs] by auto
  with 2 sk l show ?case
    by (auto split: if_splits dest!: jp_string_shorter jp_number_shorter simp del: drop_Cons_numeral)
      (fastforce dest: less_trans)+
next
  case (4 f s)
  from "4.prems" obtain w q c cs where w: "jp_value f s = Some (w, q)" "skip q = c # cs"
    by (auto split: option.splits list.splits)
  then have "length q < length s" "length cs < length q"
    using "4.IH"(1) skip_eq_Cons_length by blast+
  with "4.prems" "4.IH"(2) [OF w(1) refl w(2)] w show ?case
    by (fastforce split: if_splits simp: cons1_eq_Some)
next
  case (6 f s)
  from "6.prems" obtain c0 t k q w q' c cs where w: "skip s = c0 # t" "c0 = 0x22"
      "jp_string t = Some (k, q)" "starts_with (js '':'') (skip q)"
      "jp_value f (tl (skip q)) = Some (w, q')" "skip q' = c # cs"
    by (auto split: option.splits list.splits if_splits)
  have "length t < length s" "length q < length t" "length (tl (skip q)) \<le> length q"
    using w skip_eq_Cons_length jp_string_shorter length_skip_le [of q] by auto
  moreover have "length q' < length (tl (skip q))" "length cs < length q'"
    using w "6.IH"(1) skip_eq_Cons_length by auto
  ultimately have l: "length cs < length s" by linarith
  show ?case
  proof (cases "c = ch (CHR '','')")
    case True
    with "6.prems" w obtain ws where "jp_members f cs = Some (ws, r)"
      by (auto simp: cons1_eq_Some split: if_splits)
    with "6.IH"(2) w True have "length r < length cs" by auto
    with l show ?thesis by simp
  next
    case False
    with "6.prems" w l show ?thesis by (auto split: if_splits)
  qed
qed simp_all

lemma jp_fuel:
  "2 * length s + 1 \<le> f \<Longrightarrow> 2 * length s + 1 \<le> g \<Longrightarrow> jp_value f s = jp_value g s"
  "2 * length s + 2 \<le> f \<Longrightarrow> 2 * length s + 2 \<le> g \<Longrightarrow> jp_elems f s = jp_elems g s"
  "2 * length s + 2 \<le> f \<Longrightarrow> 2 * length s + 2 \<le> g \<Longrightarrow> jp_members f s = jp_members g s"
proof (induction f s and f s and f s arbitrary: g and g and g
    rule: jp_value_jp_elems_jp_members.induct)
  case (2 f s)
  from "2.prems" obtain g' where g: "g = Suc g'" by (cases g) auto
  show ?case
  proof (cases "skip s")
    case (Cons c cs)
    then have "length cs < length s" by (rule skip_eq_Cons_length)
    with 2 g Cons have "c = ch (CHR ''['') \<Longrightarrow> \<not> starts_with (js '']'') (skip cs) \<Longrightarrow>
        jp_elems f cs = jp_elems g' cs"
      "c = ch (CHR ''{'') \<Longrightarrow> \<not> starts_with (js ''}'') (skip cs) \<Longrightarrow> jp_members f cs = jp_members g' cs"
      by auto
    with g Cons show ?thesis by (simp del: js_Cons)
  qed (use g in simp)
next
  case (4 f s)
  from "4.prems" obtain g' where g: "g = Suc g'" by (cases g) auto
  have v: "jp_value f s = jp_value g' s" by (rule "4.IH"(1)) (use "4.prems" g in simp_all)
  show ?case
  proof (cases "jp_value f s")
    case (Some p)
    obtain w q where p: "p = (w, q)" by fastforce
    have vs: "jp_value f s = Some (w, q)" "jp_value g' s = Some (w, q)" using v Some p by simp_all
    show ?thesis
    proof (cases "skip q")
      case (Cons c cs)
      have "length q < length s" "length cs < length q"
        using jp_shorter(1) Some p Cons skip_eq_Cons_length by blast+
      then have "c = ch (CHR '','') \<Longrightarrow> jp_elems f cs = jp_elems g' cs"
        using "4.prems" g by (intro "4.IH"(2) [OF Some p [symmetric] Cons]) auto
      with vs Cons g show ?thesis by (cases "c = ch (CHR '','')") simp_all
    qed (use vs g in simp)
  next
    case None
    then have "jp_value g' s = None" using v by simp
    with None g show ?thesis by simp
  qed
next
  case (6 f s)
  from "6.prems" obtain g' where g: "g = Suc g'" by (cases g) auto
  have step: "jp_value f (tl (skip q)) = jp_value g' (tl (skip q))" 
      "\<And>w q' c cs. jp_value f (tl (skip q)) = Some (w, q') \<Longrightarrow> skip q' = c # cs \<Longrightarrow>
        c = ch (CHR '','') \<Longrightarrow> jp_members f cs = jp_members g' cs"
    if h: "skip s = c0 # t" "c0 = 0x22" "jp_string t = Some (k, q)" "starts_with (js '':'') (skip q)"
    for c0 t k q
  proof -
    have l: "length t < length s" "length q < length t" "length (tl (skip q)) \<le> length q"
      using h skip_eq_Cons_length jp_string_shorter length_skip_le [of q] by auto
    then show "jp_value f (tl (skip q)) = jp_value g' (tl (skip q))"
      using "6.prems" g h by (intro "6.IH"(1)) auto
    fix w q' c cs
    assume a: "jp_value f (tl (skip q)) = Some (w, q')" "skip q' = c # cs" "c = ch (CHR '','')"
    have "length q' < length (tl (skip q))" "length cs < length q'"
      using a jp_shorter(1) skip_eq_Cons_length by blast+
    with l "6.prems" g h a show "jp_members f cs = jp_members g' cs"
      by (intro "6.IH"(2)) auto
  qed
  show ?case
    using g step by (auto split: list.splits option.splits)
qed simp_all

end
