(* ===== verification/Utf8.thy ===== *)
theory Utf8
  imports Json
begin

section \<open>Reference UTF-8 encoding of a string\<close>

text \<open>
  The encoding the decoders of the program are measured against.  \<open>wf16\<close> is a string without a
  lone surrogate; \<open>utf8\<close> is its UTF-8 byte sequence, one to three bytes for a code unit outside
  the surrogate range and four for a surrogate pair.  \<open>join2\<close>, \<open>join3\<close> and \<open>join4\<close> put the
  payload bits of a sequence together again, as both decoders do, and \<open>split_pair\<close> makes a
  surrogate pair of a code point.  The lemmas say that these invert the encoder.
\<close>

fun wf16 :: "jstring \<Rightarrow> bool" where
  "wf16 [] = True"
| "wf16 (c # s) = (if is_high c then s \<noteq> [] \<and> is_low (hd s) \<and> wf16 (tl s)
     else \<not> is_low c \<and> wf16 s)"

definition code_point :: "cu \<Rightarrow> cu \<Rightarrow> i32" where
  "code_point c d = 0x10000 + push_bit 10 (ucast c - 0xD800) + (ucast d - 0xDC00)"

definition cont :: "'a::len word \<Rightarrow> u8" where
  "cont w = 0x80 OR ucast (w AND 0x3F)"

definition enc2 :: "cu \<Rightarrow> u8 list" where
  "enc2 c = [0xC0 OR ucast (drop_bit 6 c), cont c]"

definition enc3 :: "cu \<Rightarrow> u8 list" where
  "enc3 c = [0xE0 OR ucast (drop_bit 12 c), cont (drop_bit 6 c), cont c]"

definition enc4 :: "i32 \<Rightarrow> u8 list" where
  "enc4 p = [0xF0 OR ucast (drop_bit 18 p), cont (drop_bit 12 p), cont (drop_bit 6 p), cont p]"

fun utf8 :: "jstring \<Rightarrow> u8 list" where
  "utf8 [] = []"
| "utf8 (c # s) =
     (if c < 0x80 then ucast c # utf8 s
      else if c < 0x800 then enc2 c @ utf8 s
      else if is_high c \<and> s \<noteq> [] then enc4 (code_point c (hd s)) @ utf8 (tl s)
      else enc3 c @ utf8 s)"

subsection \<open>Bits of a small word\<close>

lemma take_bit_small_word:
  fixes w :: "'a::len word"
  assumes "unat w < 2 ^ n"
  shows "take_bit n w = w"
proof -
  have "unat (take_bit n w) = unat w"
    using assms by (simp add: unsigned_take_bit_eq take_bit_nat_eq_self)
  then show ?thesis by (rule unsigned_word_eqI)
qed

lemma and_masks:
  fixes w :: "'a::len word"
  shows "w AND 0x3F = take_bit 6 w" "w AND 0x1F = take_bit 5 w" "w AND 0x0F = take_bit 4 w"
    "w AND 0x07 = take_bit 3 w" "w AND 0x3FF = take_bit 10 w" "w AND 0xFF = take_bit 8 w"
  by (simp_all add: take_bit_eq_mask mask_eq_exp_minus_1)

lemma lead_bits:
  fixes n :: nat
  shows "n < 6 \<Longrightarrow> \<not> bit (0x80 :: int) n" "n < 6 \<Longrightarrow> \<not> bit (0xC0 :: int) n"
    "n < 5 \<Longrightarrow> \<not> bit (0xE0 :: int) n" "n < 4 \<Longrightarrow> \<not> bit (0xF0 :: int) n"
  by (auto simp: less_Suc_eq numeral_eq_Suc)

lemma unat_ucast_up:
  "unat (ucast (c :: cu) :: i32) = unat c" "unat (ucast (b :: u8) :: i32) = unat b"
  "unat (ucast (b :: u8) :: cu) = unat b"
proof -
  have "unat c < 2 ^ 16" "unat b < 2 ^ 8"
    using unsigned_less [of c, where ?'a = nat] unsigned_less [of b, where ?'a = nat] by simp_all
  then show "unat (ucast c :: i32) = unat c" "unat (ucast b :: i32) = unat b"
      "unat (ucast b :: cu) = unat b"
    by (simp_all add: unsigned_ucast_eq take_bit_nat_eq_self)
qed

subsection \<open>Putting the payload bits together\<close>

definition join2 :: "u8 \<Rightarrow> u8 \<Rightarrow> i32" where
  "join2 a b = push_bit 6 (ucast a AND 0x1F) OR (ucast b AND 0x3F)"

definition join3 :: "u8 \<Rightarrow> u8 \<Rightarrow> u8 \<Rightarrow> i32" where
  "join3 a b c = push_bit 12 (ucast a AND 0x0F) OR push_bit 6 (ucast b AND 0x3F) OR (ucast c AND 0x3F)"

definition join4 :: "u8 \<Rightarrow> u8 \<Rightarrow> u8 \<Rightarrow> u8 \<Rightarrow> i32" where
  "join4 a b c d = push_bit 18 (ucast a AND 0x07) OR push_bit 12 (ucast b AND 0x3F)
     OR push_bit 6 (ucast c AND 0x3F) OR (ucast d AND 0x3F)"

lemma cont_payload: "ucast (cont w) AND 0x3F = (take_bit 6 (ucast w) :: i32)"
  by (rule bit_word_eqI) (auto simp: cont_def and_masks bit_simps lead_bits)

lemma lead_payload:
  "ucast (0xC0 OR ucast w :: u8) AND 0x1F = (take_bit 5 (ucast w) :: i32)"
  "ucast (0xE0 OR ucast w :: u8) AND 0x0F = (take_bit 4 (ucast w) :: i32)"
  "ucast (0xF0 OR ucast w :: u8) AND 0x07 = (take_bit 3 (ucast w) :: i32)"
  by (rule bit_word_eqI; auto simp: and_masks bit_simps lead_bits)+

lemma join2_enc2:
  fixes c :: cu
  assumes "c < 0x800"
  shows "ucast (join2 (0xC0 OR ucast (drop_bit 6 c)) (cont c)) = c"
proof -
  have t: "take_bit 11 c = c"
    using assms by (intro take_bit_small_word) (simp add: word_less_nat_alt)
  have "ucast (join2 (0xC0 OR ucast (drop_bit 6 c)) (cont c)) = take_bit 11 c"
    by (rule bit_word_eqI) (auto simp: join2_def cont_payload lead_payload bit_simps)
  with t show ?thesis by simp
qed

lemma join3_enc3:
  "ucast (join3 (0xE0 OR ucast (drop_bit 12 c)) (cont (drop_bit 6 c)) (cont c)) = (c :: cu)"
  by (rule bit_word_eqI) (auto simp: join3_def cont_payload lead_payload bit_simps)

lemma join4_enc4:
  assumes "unat p < 2 ^ 21"
  shows "join4 (0xF0 OR ucast (drop_bit 18 p)) (cont (drop_bit 12 p)) (cont (drop_bit 6 p)) (cont p) = p"
proof -
  have t: "take_bit 21 p = p" using assms by (rule take_bit_small_word)
  have "join4 (0xF0 OR ucast (drop_bit 18 p)) (cont (drop_bit 12 p)) (cont (drop_bit 6 p)) (cont p)
      = take_bit 21 p"
  proof (rule bit_word_eqI)
    fix n
    show "bit (join4 (0xF0 OR ucast (drop_bit 18 p)) (cont (drop_bit 12 p)) (cont (drop_bit 6 p))
        (cont p)) n = bit (take_bit 21 p) n" if "n < LENGTH(32)"
      using that unfolding join4_def cont_payload lead_payload
      by (cases "n < 6"; cases "n < 12"; cases "n < 18"; simp add: bit_simps; linarith?)
  qed
  with t show ?thesis by simp
qed

subsection \<open>Surrogate pairs\<close>

text \<open>\<open>offset >> 10\<close> is an arithmetic shift, \<open>String.fromCharCode\<close> keeps the low 16 bits.\<close>

definition split_pair :: "i32 \<Rightarrow> jstring" where
  "split_pair p = (let offset = p - 0x10000 in
     [ucast (0xD800 + signed_drop_bit 10 offset), ucast (0xDC00 + (offset AND 0x3FF))])"

lemma unat_surrogate:
  "is_high c \<Longrightarrow> unat (ucast c - 0xD800 :: i32) = unat c - 0xD800 \<and> unat c - 0xD800 < 1024"
  "is_low d \<Longrightarrow> unat (ucast d - 0xDC00 :: i32) = unat d - 0xDC00 \<and> unat d - 0xDC00 < 1024"
  by (auto simp: is_high_def is_low_def word_le_nat_alt unat_sub unat_ucast_up)

lemma unat_push10: "unat (x :: i32) < 1024 \<Longrightarrow> unat (push_bit 10 x) = 1024 * unat x"
  by (simp add: push_bit_eq_mult unat_word_ariths)

lemma unat_drop10: "unat (drop_bit 10 x :: i32) = unat x div 1024"
proof -
  have "unat (drop_bit 10 x) = drop_bit 10 (unat x)" by (rule unat_drop_bit_eq)
  then show ?thesis by (simp only: drop_bit_eq_div) simp
qed

lemma unat_and10: "unat (x AND 0x3FF :: i32) = unat x mod 1024"
proof -
  have "unat (take_bit 10 x) = take_bit 10 (unat x)" by (rule unsigned_take_bit_eq)
  then show ?thesis by (simp only: and_masks take_bit_eq_mod) simp
qed

lemma unat_add_offset:
  "unat (x :: i32) < 2 ^ 31 \<Longrightarrow> unat (0x10000 + x) = 0x10000 + unat x"
  by (simp add: unat_word_ariths)

lemma unat_code_point:
  assumes "is_high c" "is_low d"
  shows "unat (code_point c d - 0x10000) = 1024 * (unat c - 0xD800) + (unat d - 0xDC00)"
    and "unat (code_point c d) = 0x10000 + 1024 * (unat c - 0xD800) + (unat d - 0xDC00)"
proof -
  let ?x = "ucast c - 0xD800 :: i32" and ?y = "ucast d - 0xDC00 :: i32"
  note x = unat_surrogate(1) [OF assms(1)] and y = unat_surrogate(2) [OF assms(2)]
  have px: "unat (push_bit 10 ?x) = 1024 * (unat c - 0xD800)"
    using x unat_push10 [of ?x] by simp
  have e: "code_point c d - 0x10000 = push_bit 10 ?x + ?y" by (simp add: code_point_def)
  have s: "unat (push_bit 10 ?x + ?y) = 1024 * (unat c - 0xD800) + (unat d - 0xDC00)"
    using px x y by (simp add: unat_word_ariths)
  show "unat (code_point c d - 0x10000) = 1024 * (unat c - 0xD800) + (unat d - 0xDC00)"
    by (rule trans [OF arg_cong [where f = unat, OF e] s])
  then have "unat (0x10000 + (code_point c d - 0x10000)) = 0x10000 + unat (code_point c d - 0x10000)"
    using x y by (intro unat_add_offset) simp
  then show "unat (code_point c d) = 0x10000 + 1024 * (unat c - 0xD800) + (unat d - 0xDC00)"
    using e s by simp
qed

lemma code_point_bounds:
  assumes "is_high c" "is_low d"
  shows "unat (code_point c d) < 2 ^ 21" "0x10000 \<le> unat (code_point c d)"
    "unat (code_point c d) \<le> 0x10FFFF"
  using unat_code_point(2) [OF assms] unat_surrogate(1) [OF assms(1)] unat_surrogate(2) [OF assms(2)]
  by simp_all

lemma split_pair_code_point:
  assumes "is_high c" "is_low d"
  shows "split_pair (code_point c d) = [c, d]"
proof -
  let ?o = "code_point c d - 0x10000"
  let ?x = "unat c - 0xD800" and ?y = "unat d - 0xDC00"
  have xy: "?x < 1024" "?y < 1024" "0xD800 \<le> unat c" "0xDC00 \<le> unat d"
    using unat_surrogate(1) [OF assms(1)] unat_surrogate(2) [OF assms(2)] assms
    by (auto simp: is_high_def is_low_def word_le_nat_alt)
  have o: "unat ?o = 1024 * ?x + ?y" by (rule unat_code_point(1) [OF assms])
  with xy have "unat ?o < 2 ^ 31" by simp
  then have "take_bit 31 ?o = ?o" by (rule take_bit_small_word)
  then have "\<not> bit ?o 31" by (metis bit_take_bit_iff less_irrefl)
  then have "signed_drop_bit 10 ?o = drop_bit 10 ?o"
    by (intro bit_word_eqI) (auto simp: bit_simps min_def le_less_Suc_eq numeral_eq_Suc
        dest: bit_imp_le_length)
  then have "unat (signed_drop_bit 10 ?o) = unat ?o div 1024" by (simp only: unat_drop10)
  moreover have dm: "(1024 * k + m) div 1024 = k \<and> (1024 * k + m) mod 1024 = m"
    if "m < 1024" for k m :: nat using that by simp
  ultimately have hi: "unat (signed_drop_bit 10 ?o) = ?x" by (metis o xy(2))
  have lo: "unat (?o AND 0x3FF) = ?y"
    using dm [OF xy(2), of ?x] o by (metis unat_and10)
  have "unat (ucast (0xD800 + signed_drop_bit 10 ?o) :: cu) = unat c"
    using hi xy by (simp add: unsigned_ucast_eq unat_word_ariths take_bit_eq_mod)
  moreover have "unat (ucast (0xDC00 + (?o AND 0x3FF)) :: cu) = unat d"
    using lo xy by (simp add: unsigned_ucast_eq unat_word_ariths take_bit_eq_mod)
  ultimately show ?thesis by (simp add: split_pair_def Let_def word_unat_eq_iff)
qed

subsection \<open>Lead bytes\<close>

lemma lead_table:
  "\<forall>n \<in> set [0..<32]. 0xC0 \<le> (0xC0 OR of_nat n :: u8) \<and> (0xC0 OR of_nat n :: u8) < 0xE0"
  "\<forall>n \<in> set [0..<16]. 0xE0 \<le> (0xE0 OR of_nat n :: u8) \<and> (0xE0 OR of_nat n :: u8) < 0xF0"
  "\<forall>n \<in> set [0..<8]. 0xF0 \<le> (0xF0 OR of_nat n :: u8) \<and> (0xF0 OR of_nat n :: u8) < 0xF8"
  by code_simp+

lemma lead_range:
  fixes x :: u8
  shows "unat x < 32 \<Longrightarrow> 0xC0 \<le> 0xC0 OR x \<and> 0xC0 OR x < 0xE0"
    "unat x < 16 \<Longrightarrow> 0xE0 \<le> 0xE0 OR x \<and> 0xE0 OR x < 0xF0"
    "unat x < 8 \<Longrightarrow> 0xF0 \<le> 0xF0 OR x \<and> 0xF0 OR x < 0xF8"
proof -
  have x: "of_nat (unat x) = x" by simp
  show "unat x < 32 \<Longrightarrow> 0xC0 \<le> 0xC0 OR x \<and> 0xC0 OR x < 0xE0"
    "unat x < 16 \<Longrightarrow> 0xE0 \<le> 0xE0 OR x \<and> 0xE0 OR x < 0xF0"
    "unat x < 8 \<Longrightarrow> 0xF0 \<le> 0xF0 OR x \<and> 0xF0 OR x < 0xF8"
    using bspec [OF lead_table(1), of "unat x"] bspec [OF lead_table(2), of "unat x"]
      bspec [OF lead_table(3), of "unat x"] unfolding x by simp_all
qed

lemma enc2_lead: "(c::cu) < 0x800 \<Longrightarrow> unat (ucast (drop_bit 6 c) :: u8) < 32"
proof -
  assume a: "c < 0x800"
  have "unat (drop_bit 6 c) = drop_bit 6 (unat c)" by (rule unat_drop_bit_eq)
  then have d: "unat (drop_bit 6 c) = unat c div 64" by (simp only: drop_bit_eq_div) simp
  with a have "unat (drop_bit 6 c) < 32" by (simp add: word_less_nat_alt less_mult_imp_div_less)
  then show ?thesis by (simp add: unsigned_ucast_eq take_bit_eq_mod)
qed

lemma enc3_lead: "unat (ucast (drop_bit 12 (c::cu)) :: u8) < 16"
proof -
  have "unat (drop_bit 12 c) = drop_bit 12 (unat c)" by (rule unat_drop_bit_eq)
  then have d: "unat (drop_bit 12 c) = unat c div 4096" by (simp only: drop_bit_eq_div) simp
  have "unat c < 65536" using unsigned_less [of c, where ?'a = nat] by simp
  with d have "unat (drop_bit 12 c) < 16" by (simp add: less_mult_imp_div_less)
  then show ?thesis by (simp add: unsigned_ucast_eq take_bit_eq_mod)
qed

lemma enc4_lead: "unat (p::i32) < 2 ^ 21 \<Longrightarrow> unat (ucast (drop_bit 18 p) :: u8) < 8"
proof -
  assume a: "unat p < 2 ^ 21"
  have "unat (drop_bit 18 p) = drop_bit 18 (unat p)" by (rule unat_drop_bit_eq)
  then have d: "unat (drop_bit 18 p) = unat p div 262144" by (simp only: drop_bit_eq_div) simp
  with a have "unat (drop_bit 18 p) < 8" by (simp add: less_mult_imp_div_less)
  then show ?thesis by (simp add: unsigned_ucast_eq take_bit_eq_mod)
qed

end
