(* ===== verification/Base64.thy ===== *)
theory Base64
  imports Utf8
begin

section \<open>Base64 (\<open>src/subscription/base64.ts\<close>)\<close>

text \<open>
  \<open>base64ToBytes\<close> with its loop state as a record (the 32-bit buffer is never masked, so it
  overflows after six characters), \<open>utf8Decode\<close>, \<open>base64ToString\<close> and \<open>looksLikeBase64\<close>.
  Then the facts: the loop writes inside its array and computes the bytes of the unbounded
  big-endian number the characters denote (so the overflow loses nothing), it inverts every
  standard emitter, and \<open>utf8Decode\<close> inverts UTF-8.  The interface \<open>base64_emitter\<close> is what the
  link parsers assume of the program that wrote a link.
\<close>

subsection \<open>The code\<close>

definition B64_ALPHABET :: jstring where
  "B64_ALPHABET = js ''ABCDEFGHIJKLMNOPQRSTUVWXYZabcdefghijklmnopqrstuvwxyz0123456789+/''"

definition B64_LOOKUP :: "cu \<Rightarrow> nat option" where
  "B64_LOOKUP c = index_of [c] B64_ALPHABET"

record b64_state =
  bitBuffer :: i32
  bitCount :: nat
  byteIndex :: nat
  bytes :: "u8 list"

text \<open>A write outside a \<open>Uint8Array\<close> is ignored, as \<open>list_update\<close> does.\<close>

definition b64_step :: "cu \<Rightarrow> b64_state \<Rightarrow> b64_state" where
  "b64_step c s = (case B64_LOOKUP c of
     None \<Rightarrow> s
   | Some value \<Rightarrow>
       let s = s\<lparr>bitBuffer := push_bit 6 (bitBuffer s) OR of_nat value, bitCount := bitCount s + 6\<rparr>
       in if 8 \<le> bitCount s then
            let k = bitCount s - 8 in
            s\<lparr>bitCount := k,
              bytes := (bytes s)[byteIndex s := ucast (signed_drop_bit k (bitBuffer s) AND 0xFF)],
              byteIndex := byteIndex s + 1\<rparr>
          else s)"

definition b64_clean :: "jstring \<Rightarrow> jstring" where
  "b64_clean input =
     (let normalized = filter (\<lambda>c. \<not> is_ws c)
        (replace_cu (ch (CHR ''_'')) (ch (CHR ''/'')) (replace_cu (ch (CHR ''-'')) (ch (CHR ''+'')) input))
      in rev (dropWhile (\<lambda>c. c = ch (CHR ''='')) (rev normalized)))"

definition base64ToBytes :: "jstring \<Rightarrow> u8 list" where
  "base64ToBytes input =
     (let clean = b64_clean input;
          byteLength = (length clean * 6) div 8;
          s = fold b64_step clean
            \<lparr>bitBuffer = 0, bitCount = 0, byteIndex = 0, bytes = replicate byteLength 0\<rparr>
      in if byteIndex s = length (bytes s) then bytes s else take (byteIndex s) (bytes s))"

text \<open>Reading past the end gives \<open>undefined\<close>, which a bitwise operator takes as 0.\<close>

definition byte_at :: "u8 list \<Rightarrow> nat \<Rightarrow> u8" where
  "byte_at bs i = (if i < length bs then bs ! i else 0)"

fun utf8Decode :: "u8 list \<Rightarrow> jstring" where
  "utf8Decode [] = []"
| "utf8Decode (byte1 # r) =
     (if byte1 < 0x80 then ucast byte1 # utf8Decode r
      else if 0xC0 \<le> byte1 \<and> byte1 < 0xE0 then
        ucast (join2 byte1 (byte_at r 0)) # utf8Decode (drop 1 r)
      else if 0xE0 \<le> byte1 \<and> byte1 < 0xF0 then
        ucast (join3 byte1 (byte_at r 0) (byte_at r 1)) # utf8Decode (drop 2 r)
      else split_pair (join4 byte1 (byte_at r 0) (byte_at r 1) (byte_at r 2)) @ utf8Decode (drop 3 r))"

definition base64ToString :: "jstring \<Rightarrow> jstring" where
  "base64ToString input = utf8Decode (base64ToBytes input)"

definition base64_class :: "cu \<Rightarrow> bool" where
  "base64_class c \<longleftrightarrow> (0x41 \<le> c \<and> c \<le> 0x5A) \<or> (0x61 \<le> c \<and> c \<le> 0x7A) \<or> is_digit c
     \<or> c \<in> set (js ''+/-_='') \<or> is_ws c"

definition looksLikeBase64 :: "jstring \<Rightarrow> bool" where
  "looksLikeBase64 input =
     (let trimmed = trim input in
      if js_includes (js ''://'') trimmed then False
      else trimmed \<noteq> [] \<and> (\<forall>c \<in> set trimmed. base64_class c) \<and> 0 < length trimmed)"

subsection \<open>The loop computes the bytes of one big number\<close>

definition b64_values :: "jstring \<Rightarrow> nat list" where
  "b64_values s = List.map_filter B64_LOOKUP s"

text \<open>The loop on unbounded numbers: \<open>t\<close> is everything read so far, \<open>k\<close> the bits not yet output.\<close>

fun b64_loop :: "nat \<Rightarrow> nat \<Rightarrow> nat list \<Rightarrow> u8 list" where
  "b64_loop t k [] = []"
| "b64_loop t k (v # vs) =
     (if 8 \<le> k + 6 then of_nat ((64 * t + v) div 2 ^ (k - 2)) # b64_loop (64 * t + v) (k - 2) vs
      else b64_loop (64 * t + v) (k + 6) vs)"

definition b64_number :: "nat list \<Rightarrow> nat" where
  "b64_number vs = foldl (\<lambda>t v. 64 * t + v) 0 vs"

lemma B64_LOOKUP_less: "B64_LOOKUP c = Some v \<Longrightarrow> v < 64"
  using index_of_single_less [of c B64_ALPHABET v] by (simp add: B64_LOOKUP_def B64_ALPHABET_def)

lemma buffer_push:
  assumes "v < 64"
  shows "push_bit 6 (of_nat t) OR of_nat v = (of_nat (64 * t + v) :: i32)"
proof -
  have "push_bit 6 (of_nat t) OR of_nat v = push_bit 6 (of_nat t :: i32) + of_nat v"
  proof (rule disjunctive_add [symmetric])
    fix n
    have "take_bit 6 v = v" using assms by (simp add: take_bit_nat_eq_self)
    then have "bit v n \<Longrightarrow> n < 6" by (metis bit_take_bit_iff)
    then show "\<not> bit (push_bit 6 (of_nat t) :: i32) n \<or> \<not> bit (of_nat v :: i32) n"
      by (auto simp: bit_simps)
  qed
  then show ?thesis by (simp add: push_bit_eq_mult ac_simps)
qed

lemma byte_out:
  assumes "k \<le> 24"
  shows "ucast (signed_drop_bit k (of_nat t :: i32) AND 0xFF) = (of_nat (t div 2 ^ k) :: u8)"
proof (rule bit_word_eqI)
  fix n assume n: "n < LENGTH(8)"
  with assms have m: "min (k + n) 31 = k + n" "\<not> 32 - k \<le> n" by auto
  show "bit (ucast (signed_drop_bit k (of_nat t :: i32) AND 0xFF) :: u8) n
      = bit (of_nat (t div 2 ^ k) :: u8) n"
    using n assms by (simp add: and_masks bit_simps m flip: drop_bit_eq_div)
qed

text \<open>One character of the loop, related to the unbounded loop.\<close>

definition b64_rel :: "nat \<Rightarrow> nat \<Rightarrow> u8 list \<Rightarrow> b64_state \<Rightarrow> bool" where
  "b64_rel t k out s \<longleftrightarrow> bitBuffer s = of_nat t \<and> bitCount s = k \<and> k < 8
     \<and> byteIndex s = length out \<and> take (length out) (bytes s) = out"

lemma b64_step_skip: "B64_LOOKUP c = None \<Longrightarrow> b64_step c s = s"
  by (simp add: b64_step_def)

lemma b64_step_few:
  "B64_LOOKUP c = Some v \<Longrightarrow> b64_rel t k out s \<Longrightarrow> k + 6 < 8 \<Longrightarrow>
   b64_rel (64 * t + v) (k + 6) out (b64_step c s)"
  using buffer_push [OF B64_LOOKUP_less, of c v t] by (auto simp: b64_step_def b64_rel_def Let_def)

lemma b64_step_byte:
  assumes "B64_LOOKUP c = Some v" "b64_rel t k out s" "8 \<le> k + 6" "length out < length (bytes s)"
  shows "b64_rel (64 * t + v) (k - 2) (out @ [of_nat ((64 * t + v) div 2 ^ (k - 2))]) (b64_step c s)"
proof -
  have k: "k - 2 \<le> 24" using assms(2) by (auto simp: b64_rel_def)
  have "b64_step c s = s\<lparr>bitBuffer := of_nat (64 * t + v), bitCount := k - 2,
      bytes := (bytes s)[length out := of_nat ((64 * t + v) div 2 ^ (k - 2))],
      byteIndex := length out + 1\<rparr>"
    using assms(1,2,3) buffer_push [OF B64_LOOKUP_less [OF assms(1)], of t]
    by (simp add: b64_step_def b64_rel_def Let_def byte_out [OF k]
        del: of_nat_add of_nat_mult of_nat_numeral)
  with assms show ?thesis
    by (auto simp: b64_rel_def take_Suc_conv_app_nth)
qed

lemma b64_fold:
  assumes "b64_rel t k out s" "length out + (k + 6 * length cs) div 8 \<le> length (bytes s)"
  shows "\<exists>t' k'. b64_rel t' k' (out @ b64_loop t k (b64_values cs)) (fold b64_step cs s)
    \<and> length (bytes (fold b64_step cs s)) = length (bytes s)"
  using assms
proof (induction cs arbitrary: t k out s)
  case (Cons c cs)
  show ?case
  proof (cases "B64_LOOKUP c")
    case None
    with Cons.prems Cons.IH [of t k out s] show ?thesis
      by (simp add: b64_step_skip b64_values_def List.map_filter_simps)
  next
    case (Some v)
    have len: "length (bytes (b64_step c s)) = length (bytes s)"
      by (simp add: b64_step_def Let_def split: option.splits)
    show ?thesis
    proof (cases "8 \<le> k + 6")
      case True
      let ?b = "of_nat ((64 * t + v) div 2 ^ (k - 2)) :: u8"
      have "1 \<le> (k + 6 * length (c # cs)) div 8" using True by simp
      then have "b64_rel (64 * t + v) (k - 2) (out @ [?b]) (b64_step c s)"
        using Some Cons.prems True by (intro b64_step_byte) auto
      moreover have "(k + 6 * length (c # cs)) div 8 = Suc ((k - 2 + 6 * length cs) div 8)"
        using True by (simp add: div_if)
      ultimately show ?thesis
        using Cons.IH [of "64 * t + v" "k - 2" "out @ [?b]" "b64_step c s"] Cons.prems(2) Some True len
        by (simp add: b64_values_def List.map_filter_simps)
    next
      case False
      then have "b64_rel (64 * t + v) (k + 6) out (b64_step c s)"
        using Some Cons.prems by (intro b64_step_few) auto
      then show ?thesis
        using Cons.IH [of "64 * t + v" "k + 6" out "b64_step c s"] Cons.prems(2) Some False len
        by (simp add: b64_values_def List.map_filter_simps add.assoc)
    qed
  qed
qed (auto simp: b64_values_def List.map_filter_simps)

lemma base64ToBytes_fold:
  fixes s0 :: b64_state
  assumes "s0 = \<lparr>bitBuffer = 0, bitCount = 0, byteIndex = 0, bytes = replicate ((length c * 6) div 8) 0\<rparr>"
  shows "take (byteIndex (fold b64_step c s0)) (bytes (fold b64_step c s0)) = b64_loop 0 0 (b64_values c)"
    and "byteIndex (fold b64_step c s0) \<le> (length c * 6) div 8"
    and "length (bytes (fold b64_step c s0)) = (length c * 6) div 8"
proof -
  have rel: "b64_rel 0 0 [] s0" and len: "length (bytes s0) = (length c * 6) div 8"
    by (simp_all add: assms b64_rel_def)
  have "length ([] :: u8 list) + (0 + 6 * length c) div 8 \<le> length (bytes s0)"
    unfolding len by (simp only: list.size add_0 mult.commute le_refl)
  from b64_fold [OF rel this] obtain t' k' where
    r: "b64_rel t' k' (b64_loop 0 0 (b64_values c)) (fold b64_step c s0)"
      "length (bytes (fold b64_step c s0)) = length (bytes s0)"
    unfolding append_Nil by blast
  from r(1) show t: "take (byteIndex (fold b64_step c s0)) (bytes (fold b64_step c s0))
      = b64_loop 0 0 (b64_values c)"
    by (simp add: b64_rel_def)
  from r(2) len show "length (bytes (fold b64_step c s0)) = (length c * 6) div 8" by simp
  from r(1) have "length (b64_loop 0 0 (b64_values c)) = byteIndex (fold b64_step c s0)"
    "take (length (b64_loop 0 0 (b64_values c))) (bytes (fold b64_step c s0)) = b64_loop 0 0 (b64_values c)"
    by (simp_all add: b64_rel_def)
  then have "byteIndex (fold b64_step c s0) \<le> length (bytes (fold b64_step c s0))"
    by (metis length_take min.cobounded1)
  with r(2) len show "byteIndex (fold b64_step c s0) \<le> (length c * 6) div 8" by simp
qed

lemma base64ToBytes_loop: "base64ToBytes input = b64_loop 0 0 (b64_values (b64_clean input))"
  using base64ToBytes_fold [OF refl, of "b64_clean input"] by (auto simp: base64ToBytes_def Let_def)

text \<open>The unbounded loop, byte by byte.\<close>

lemma b64_loop_length: "k < 8 \<Longrightarrow> length (b64_loop t k vs) = (k + 6 * length vs) div 8"
proof (induction vs arbitrary: t k)
  case (Cons v vs)
  have "(k + 6 * length (v # vs)) div 8 = Suc ((k - 2 + 6 * length vs) div 8)" if "8 \<le> k + 6"
    using that by (simp add: div_if)
  moreover have "k + 6 + 6 * length vs = k + 6 * length (v # vs)" by simp
  ultimately show ?case using Cons by auto
qed simp

lemma b64_foldl_div:
  "\<forall>v \<in> set vs. v < 64 \<Longrightarrow> foldl (\<lambda>t v. 64 * t + v) t vs div 2 ^ (6 * length vs) = (t::nat)"
proof (induction vs arbitrary: t)
  case (Cons v vs)
  have "foldl (\<lambda>t v. 64 * t + v) t (v # vs) div 2 ^ (6 * length (v # vs))
      = foldl (\<lambda>t v. 64 * t + v) (64 * t + v) vs div 2 ^ (6 * length vs) div 2 ^ 6"
    by (simp add: power_add div_mult2_eq [symmetric] mult.commute)
  with Cons show ?case by simp
qed simp

lemma b64_loop_nth:
  assumes "k < 8" "\<forall>v \<in> set vs. v < 64" "i < length (b64_loop t k vs)"
  shows "b64_loop t k vs ! i
    = of_nat (foldl (\<lambda>t v. 64 * t + v) t vs div 2 ^ (k + 6 * length vs - 8 * (i + 1)))"
  using assms
proof (induction vs arbitrary: t k i)
  case (Cons v vs)
  let ?f = "foldl (\<lambda>t v. 64 * t + v) (64 * t + v) vs"
  show ?case
  proof (cases "8 \<le> k + 6")
    case True
    show ?thesis
    proof (cases i)
      case 0
      have "?f div 2 ^ (6 * length vs + (k - 2)) = (64 * t + v) div 2 ^ (k - 2)"
        unfolding power_add div_mult2_eq using b64_foldl_div [of vs "64 * t + v"] Cons.prems by simp
      moreover have "6 * length vs + (k - 2) = k + 6 * length (v # vs) - 8 * (0 + 1)" using True by simp
      ultimately show ?thesis using True 0 by simp
    next
      case (Suc j)
      have "k - 2 + 6 * length vs - 8 * (j + 1) = k + 6 * length (v # vs) - 8 * (i + 1)"
        using True Suc by simp
      with Suc True Cons.prems Cons.IH [of "k - 2" j "64 * t + v"] show ?thesis by simp
    qed
  next
    case False
    have "k + 6 + 6 * length vs - 8 * (i + 1) = k + 6 * length (v # vs) - 8 * (i + 1)" by simp
    with False Cons.prems Cons.IH [of "k + 6" i "64 * t + v"] show ?thesis by simp
  qed
qed simp

lemma b64_values_less: "\<forall>v \<in> set (b64_values s). v < 64"
  by (induction s) (auto simp: b64_values_def List.map_filter_simps B64_LOOKUP_less split: option.splits)

text \<open>The specification of the decoder, free of the loop and of the 32-bit buffer: byte \<open>i\<close> of
  the number whose base-64 digits are the characters of the alphabet, from the top.\<close>

definition b64_spec :: "nat list \<Rightarrow> u8 list" where
  "b64_spec vs = map (\<lambda>i. of_nat (b64_number vs div 2 ^ (6 * length vs - 8 * (i + 1))))
     [0..<6 * length vs div 8]"

lemma base64ToBytes_b64_spec: "base64ToBytes input = b64_spec (b64_values (b64_clean input))"
proof -
  let ?vs = "b64_values (b64_clean input)"
  have "b64_loop 0 0 ?vs = b64_spec ?vs"
  proof (rule nth_equalityI)
    show "length (b64_loop 0 0 ?vs) = length (b64_spec ?vs)"
      by (simp add: b64_loop_length b64_spec_def)
    fix i assume "i < length (b64_loop 0 0 ?vs)"
    then show "b64_loop 0 0 ?vs ! i = b64_spec ?vs ! i"
      using b64_loop_nth [of 0 ?vs i 0] b64_values_less
      by (simp add: b64_spec_def b64_number_def b64_loop_length)
  qed
  then show ?thesis by (simp add: base64ToBytes_loop)
qed

text \<open>C26: on every input, stray characters, padding and white space included, \<open>base64ToBytes\<close>
  returns the bytes of the number its base-64 digits denote: although the 32-bit accumulator is
  never masked and overflows after a few characters, no output bit is lost.\<close>

theorem base64ToBytes_spec: "base64ToBytes input = b64_spec (b64_values (b64_clean input))"
  by (rule base64ToBytes_b64_spec)

text \<open>The typed array is never written out of its bounds, so the final \<open>subarray\<close> is taken
  within the array and no decoded byte is dropped.\<close>

theorem base64ToBytes_in_bounds:
  "byteIndex (fold b64_step clean \<lparr>bitBuffer = 0, bitCount = 0, byteIndex = 0,
     bytes = replicate ((length clean * 6) div 8) 0\<rparr>)
   \<le> length (bytes (fold b64_step clean \<lparr>bitBuffer = 0, bitCount = 0, byteIndex = 0,
     bytes = replicate ((length clean * 6) div 8) 0\<rparr>))"
  using base64ToBytes_fold [OF refl, of clean] by simp

subsection \<open>\<open>utf8Decode\<close> inverts UTF-8\<close>

lemma utf8Decode_ascii: "c < 0x80 \<Longrightarrow> utf8Decode (ucast c # r) = c # utf8Decode r"
proof -
  assume a: "c < 0x80"
  have "unat c < 128" using a by (simp add: word_less_nat_alt)
  then have u: "unat (ucast c :: u8) = unat c" by (simp add: unsigned_ucast_eq take_bit_nat_eq_self)
  then have "ucast (ucast c :: u8) = c"
    by (simp add: word_unat_eq_iff unat_ucast_up)
  moreover have "(ucast c :: u8) < 0x80" using u a by (simp add: word_less_nat_alt)
  ultimately show ?thesis by simp
qed

lemma utf8Decode_enc2: "c < 0x800 \<Longrightarrow> utf8Decode (enc2 c @ r) = c # utf8Decode r"
proof -
  assume a: "c < 0x800"
  have l: "(0xC0 :: u8) \<le> 0xC0 OR ucast (drop_bit 6 c) \<and> (0xC0 OR ucast (drop_bit 6 c) :: u8) < 0xE0"
    by (rule lead_range(1) [OF enc2_lead [OF a]])
  then have "\<not> (0xC0 OR ucast (drop_bit 6 c) :: u8) < 0x80" by (simp add: word_less_nat_alt word_le_nat_alt)
  with l join2_enc2 [OF a] show ?thesis by (simp add: enc2_def byte_at_def)
qed

lemma utf8Decode_enc3: "utf8Decode (enc3 c @ r) = c # utf8Decode r"
proof -
  have l: "(0xE0 :: u8) \<le> 0xE0 OR ucast (drop_bit 12 c) \<and> (0xE0 OR ucast (drop_bit 12 c) :: u8) < 0xF0"
    by (rule lead_range(2) [OF enc3_lead])
  then have "\<not> (0xE0 OR ucast (drop_bit 12 c) :: u8) < 0x80" "\<not> (0xE0 OR ucast (drop_bit 12 c) :: u8) < 0xE0"
    by (simp_all add: word_less_nat_alt word_le_nat_alt)
  with l join3_enc3 [of c] show ?thesis by (simp add: enc3_def byte_at_def)
qed

lemma utf8Decode_enc4:
  assumes "unat p < 2 ^ 21"
  shows "utf8Decode (enc4 p @ r) = split_pair p @ utf8Decode r"
proof -
  have l: "(0xF0 :: u8) \<le> 0xF0 OR ucast (drop_bit 18 p) \<and> (0xF0 OR ucast (drop_bit 18 p) :: u8) < 0xF8"
    by (rule lead_range(3) [OF enc4_lead [OF assms]])
  then have "\<not> (0xF0 OR ucast (drop_bit 18 p) :: u8) < 0x80" "\<not> (0xF0 OR ucast (drop_bit 18 p) :: u8) < 0xE0"
    "\<not> (0xF0 OR ucast (drop_bit 18 p) :: u8) < 0xF0"
    by (simp_all add: word_less_nat_alt word_le_nat_alt)
  with join4_enc4 [OF assms] show ?thesis by (simp add: enc4_def byte_at_def numeral_2_eq_2)
qed

lemma utf8Decode_utf8_id: "wf16 s \<Longrightarrow> utf8Decode (utf8 s) = s"
proof (induction s rule: utf8.induct)
  case (2 c s)
  show ?case
  proof (cases "\<not> c < 0x80 \<and> \<not> c < 0x800 \<and> is_high c")
    case True
    with 2(5) obtain d r where s: "s = d # r" "is_low d" "wf16 r"
      by (cases s) auto
    then have "s \<noteq> []" by simp
    then have "utf8 (c # s) = enc4 (code_point c (hd s)) @ utf8 (tl s)" using True by simp
    then have "utf8 (c # s) = enc4 (code_point c d) @ utf8 r" by (simp only: s list.sel)
    with s True 2(3) show ?thesis
      using utf8Decode_enc4 [OF code_point_bounds(1), of c d] split_pair_code_point [of c d]
      by (simp del: utf8.simps add: not_less)
  next
    case False
    then consider "c < 0x80" | "\<not> c < 0x80" "c < 0x800" | "\<not> c < 0x80" "\<not> c < 0x800" "\<not> is_high c"
      by blast
    then show ?thesis
    proof cases
      case 1
      then have "\<not> is_high c" "\<not> is_low c" by (simp_all add: is_high_def is_low_def word_le_nat_alt word_less_nat_alt)
      with 1 "2.IH" "2.prems" show ?thesis by (simp add: utf8Decode_ascii del: utf8Decode.simps)
    next
      case 2
      then have "\<not> is_high c" by (simp_all add: is_high_def word_le_nat_alt word_less_nat_alt)
      with 2 "2.IH" "2.prems" show ?thesis by (simp add: utf8Decode_enc2 del: utf8Decode.simps)
    next
      case 3
      with "2.IH" "2.prems" show ?thesis by (simp add: utf8Decode_enc3 del: utf8Decode.simps)
    qed
  qed
qed simp

subsection \<open>Emitters of base64 text\<close>

fun b64_sextets :: "u8 list \<Rightarrow> nat list" where
  "b64_sextets [] = []"
| "b64_sextets [a] = [unat a div 4, unat a mod 4 * 16]"
| "b64_sextets [a, b] = [unat a div 4, unat a mod 4 * 16 + unat b div 16, unat b mod 16 * 4]"
| "b64_sextets (a # b # c # r) = [unat a div 4, unat a mod 4 * 16 + unat b div 16,
     unat b mod 16 * 4 + unat c div 64, unat c mod 64] @ b64_sextets r"

lemma unat_u8_less: "unat (a :: u8) < 256"
  using unsigned_less [of a, where ?'a = nat] by simp

lemma of_nat_u8: "n mod 256 = unat a \<Longrightarrow> of_nat n = (a :: u8)"
  by (simp add: word_unat_eq_iff unat_of_nat)

lemma b64_sextets_less: "v \<in> set (b64_sextets bs) \<Longrightarrow> v < 64"
proof (induction bs rule: b64_sextets.induct)
  case (2 a)
  then show ?case using unat_u8_less [of a] by auto
next
  case (3 a b)
  then show ?case using unat_u8_less [of a] unat_u8_less [of b] by auto
next
  case (4 a b c r)
  then show ?case using unat_u8_less [of a] unat_u8_less [of b] unat_u8_less [of c] by auto
qed simp

lemma b64_loop_steps:
  "b64_loop t 0 (v # vs) = b64_loop (64 * t + v) 6 vs"
  "b64_loop t 6 (v # vs) = of_nat ((64 * t + v) div 16) # b64_loop (64 * t + v) 4 vs"
  "b64_loop t 4 (v # vs) = of_nat ((64 * t + v) div 4) # b64_loop (64 * t + v) 2 vs"
  "b64_loop t 2 (v # vs) = of_nat (64 * t + v) # b64_loop (64 * t + v) 0 vs"
  by (simp_all del: of_nat_add of_nat_mult of_nat_numeral)

lemma sextets_arith:
  fixes t p q m n z r :: nat
  assumes "m < 16"
  shows "p < 64 \<Longrightarrow> q < 4 \<Longrightarrow> (64 * (64 * t + p) + (q * 16 + m)) div 16 mod 256 = 4 * p + q"
    "n < 16 \<Longrightarrow> z < 4 \<Longrightarrow> (64 * (64 * t + (q * 16 + m)) + (n * 4 + z)) div 4 mod 256 = 16 * m + n"
    "z < 4 \<Longrightarrow> r < 64 \<Longrightarrow> (64 * (64 * t + (n * 4 + z)) + r) mod 256 = 64 * z + r"
proof -
  have "64 * (64 * t + p) + (q * 16 + m) = m + (256 * t + (4 * p + q)) * 16" by simp
  then have "(64 * (64 * t + p) + (q * 16 + m)) div 16 = 256 * t + (4 * p + q)"
    using assms by (simp add: div_mult_self1 del: mult_Suc_right)
  then show "p < 64 \<Longrightarrow> q < 4 \<Longrightarrow> (64 * (64 * t + p) + (q * 16 + m)) div 16 mod 256 = 4 * p + q"
    by simp
  assume "z < 4"
  have "64 * (64 * t + (q * 16 + m)) + (n * 4 + z) = z + (256 * (4 * t + q) + (16 * m + n)) * 4" by simp
  then have d: "(64 * (64 * t + (q * 16 + m)) + (n * 4 + z)) div 4 = (16 * m + n) + (4 * t + q) * 256"
    using \<open>z < 4\<close> by simp
  show "n < 16 \<Longrightarrow> (64 * (64 * t + (q * 16 + m)) + (n * 4 + z)) div 4 mod 256 = 16 * m + n"
    unfolding d mod_mult_self1 using assms by simp
  have e: "64 * (64 * t + (n * 4 + z)) + r = 64 * z + r + (16 * t + n) * 256" by simp
  show "r < 64 \<Longrightarrow> (64 * (64 * t + (n * 4 + z)) + r) mod 256 = 64 * z + r"
    using \<open>z < 4\<close> by (simp only: e mod_mult_self1) simp
qed

lemma sextet_bytes:
  fixes a b c :: u8
  shows "m < 16 \<Longrightarrow> of_nat ((64 * (64 * t + unat a div 4) + (unat a mod 4 * 16 + m)) div 16) = a"
    "z < 4 \<Longrightarrow> of_nat ((64 * (64 * t + (q * 16 + unat b div 16)) + (unat b mod 16 * 4 + z)) div 4) = b"
    "of_nat (64 * (64 * t + (n * 4 + unat c div 64)) + unat c mod 64) = c"
  using sextets_arith(1) [of m "unat a div 4" "unat a mod 4" t] unat_u8_less [of a]
    sextets_arith(2) [of "unat b div 16" "unat b mod 16" z t q] unat_u8_less [of b]
    sextets_arith(3) [of 0 "unat c div 64" "unat c mod 64" t n] unat_u8_less [of c]
  by (intro of_nat_u8; simp add: mult_div_mod_eq)+

lemma b64_loop_sextets: "b64_loop t 0 (b64_sextets bs) = bs"
proof (induction bs arbitrary: t rule: b64_sextets.induct)
  case (2 a)
  show ?case
    unfolding b64_sextets.simps b64_loop_steps b64_loop.simps(1)
    using sextet_bytes(1) [of 0 t a] by (simp only: add_0_right)
next
  case (3 a b)
  have "unat b div 16 < 16" using unat_u8_less [of b] by simp
  then show ?case
    unfolding b64_sextets.simps b64_loop_steps b64_loop.simps(1)
    using sextet_bytes(2) [of 0 _ _ b] by (simp only: sextet_bytes(1) add_0_right)
next
  case (4 a b c r)
  have "unat b div 16 < 16" "unat c div 64 < 4" using unat_u8_less [of b] unat_u8_less [of c] by simp_all
  then show ?case
    unfolding b64_sextets.simps append.simps b64_loop_steps "4.IH"
    by (simp only: sextet_bytes)
qed simp

text \<open>An emitter writes the sextets with the standard or the URL-safe alphabet and pads at will.\<close>

definition b64_char :: "bool \<Rightarrow> nat \<Rightarrow> cu" where
  "b64_char url v = (if url \<and> v = 62 then ch (CHR ''-'') else if url \<and> v = 63 then ch (CHR ''_'')
     else B64_ALPHABET ! v)"

definition b64_text :: "bool \<Rightarrow> nat \<Rightarrow> u8 list \<Rightarrow> jstring" where
  "b64_text url pad bs = map (b64_char url) (b64_sextets bs) @ replicate pad (ch (CHR ''=''))"

definition b64_norm_cu :: "cu \<Rightarrow> cu" where
  "b64_norm_cu c = (let c = if c = ch (CHR ''-'') then ch (CHR ''+'') else c
     in if c = ch (CHR ''_'') then ch (CHR ''/'') else c)"

lemma index_of_nth: "distinct xs \<Longrightarrow> i < length xs \<Longrightarrow> index_of [xs ! i] xs = Some i"
proof (induction xs arbitrary: i)
  case (Cons x xs)
  then show ?case by (cases i) auto
qed simp

lemma B64_ALPHABET_distinct: "distinct B64_ALPHABET" "length B64_ALPHABET = 64"
  by (simp_all add: B64_ALPHABET_def)

lemma B64_ALPHABET_class:
  "\<forall>c \<in> set B64_ALPHABET. base64_class c \<and> \<not> is_ws c \<and> c \<notin> set (js ''=:-_'')"
  by (simp add: B64_ALPHABET_def base64_class_def is_ws_def is_digit_def)

lemma B64_ALPHABET_62: "B64_ALPHABET ! 62 = ch (CHR ''+'')" "B64_ALPHABET ! 63 = ch (CHR ''/'')"
  by (simp_all add: B64_ALPHABET_def)

lemma b64_char_norm: "v < 64 \<Longrightarrow> b64_norm_cu (b64_char url v) = B64_ALPHABET ! v"
proof -
  assume v: "v < 64"
  then have "B64_ALPHABET ! v \<in> set B64_ALPHABET" by (simp add: B64_ALPHABET_distinct)
  with B64_ALPHABET_class have "B64_ALPHABET ! v \<notin> set (js ''-_'')" by auto
  then show ?thesis by (auto simp: b64_norm_cu_def b64_char_def B64_ALPHABET_62 Let_def)
qed

lemma b64_char_class: "v < 64 \<Longrightarrow> base64_class (b64_char url v) \<and> \<not> is_ws (b64_char url v)"
proof -
  assume v: "v < 64"
  then have "B64_ALPHABET ! v \<in> set B64_ALPHABET" by (simp add: B64_ALPHABET_distinct)
  with B64_ALPHABET_class show ?thesis
    by (auto simp: b64_char_def base64_class_def is_ws_def)
qed

lemma is_ws_norm: "is_ws (b64_norm_cu c) = is_ws c"
  by (auto simp: b64_norm_cu_def is_ws_def Let_def)

lemma b64_clean_norm:
  "b64_clean s = rev (dropWhile (\<lambda>c. c = ch (CHR ''='')) (rev (map b64_norm_cu (filter (\<lambda>c. \<not> is_ws c) s))))"
proof -
  have "replace_cu (ch (CHR ''_'')) (ch (CHR ''/'')) (replace_cu (ch (CHR ''-'')) (ch (CHR ''+'')) s)
      = map b64_norm_cu s"
    by (simp add: replace_cu_def b64_norm_cu_def Let_def)
  then show ?thesis by (simp add: b64_clean_def filter_map o_def is_ws_norm)
qed

lemma b64_clean_text:
  assumes "filter (\<lambda>c. \<not> is_ws c) s = b64_text url pad bs"
  shows "b64_clean s = map ((!) B64_ALPHABET) (b64_sextets bs)"
proof -
  let ?a = "map ((!) B64_ALPHABET) (b64_sextets bs)"
  have "map b64_norm_cu (b64_text url pad bs) = ?a @ replicate pad (ch (CHR ''=''))"
    by (auto simp: b64_text_def b64_char_norm b64_sextets_less) (simp add: b64_norm_cu_def)
  moreover have "ch (CHR ''='') \<notin> set ?a"
    using B64_ALPHABET_class b64_sextets_less by (fastforce simp: B64_ALPHABET_distinct)
  then have "rev ?a = [] \<or> hd (rev ?a) \<noteq> ch (CHR ''='')"
    by (metis hd_in_set set_rev)
  then have "dropWhile (\<lambda>c. c = ch (CHR ''='')) (replicate pad (ch (CHR ''='')) @ rev ?a) = rev ?a"
    by (intro dropWhile_append_stop) auto
  ultimately show ?thesis by (simp add: b64_clean_norm assms)
qed

lemma base64ToBytes_text:
  assumes "filter (\<lambda>c. \<not> is_ws c) s = b64_text url pad bs"
  shows "base64ToBytes s = bs"
proof -
  have "b64_values (map ((!) B64_ALPHABET) vs) = vs" if "\<forall>v \<in> set vs. v < 64" for vs
    using that
    by (induction vs) (auto simp: b64_values_def List.map_filter_simps B64_LOOKUP_def
      index_of_nth B64_ALPHABET_distinct)
  then show ?thesis
    by (simp add: base64ToBytes_loop b64_clean_text [OF assms] b64_sextets_less b64_loop_sextets)
qed

lemma b64_text_class:
  "c \<in> set (b64_text url pad bs) \<Longrightarrow> base64_class c \<and> \<not> is_ws c"
  using b64_char_class [OF b64_sextets_less]
  by (auto simp: b64_text_def) (simp_all add: base64_class_def is_ws_def)

lemma base64_class_sep_free:
  "base64_class c \<Longrightarrow> c \<notin> set (js '':@?#%&[]'')"
  by (auto simp: base64_class_def is_ws_def is_digit_def word_le_nat_alt)

subsection \<open>The interface of an emitter\<close>

text \<open>What the parsers rely on: the text decodes to the bytes it was made from and consists of
  base64 characters only.\<close>

locale base64_emitter =
  fixes emit :: "u8 list \<Rightarrow> jstring"
  assumes decodes: "base64ToBytes (emit bs) = bs"
    and emits: "c \<in> set (emit bs) \<Longrightarrow> base64_class c \<and> \<not> is_ws c"
begin

lemma decodes_string: "wf16 s \<Longrightarrow> base64ToString (emit (utf8 s)) = s"
  by (simp add: base64ToString_def decodes utf8Decode_utf8_id)

lemma emit_trim: "trim (emit bs) = emit bs"
proof (rule trim_id)
  show "emit bs = [] \<or> \<not> is_ws (hd (emit bs)) \<and> \<not> is_ws (last (emit bs))"
    using emits [of _ bs] by (cases "emit bs = []") auto
qed

lemma emit_free: "c \<in> set (emit bs) \<Longrightarrow> c \<notin> set (js '':@?#%&[]'')"
  using emits base64_class_sep_free by blast

lemma emit_no_ws: "\<forall>c \<in> set (emit bs). \<not> is_ws c"
  using emits by blast

end

interpretation b64: base64_emitter "b64_text url pad" for url pad
proof
  fix bs c
  have "\<forall>c \<in> set (b64_text url pad bs). \<not> is_ws c" using b64_text_class by blast
  then have "filter (\<lambda>c. \<not> is_ws c) (b64_text url pad bs) = b64_text url pad bs" by simp
  then show "base64ToBytes (b64_text url pad bs) = bs" by (rule base64ToBytes_text)
  show "c \<in> set (b64_text url pad bs) \<Longrightarrow> base64_class c \<and> \<not> is_ws c" by (rule b64_text_class)
qed

text \<open>C27: base64 round trip: the text any emitter makes of a byte sequence, with the standard or the
  URL-safe alphabet, with any padding or none and with white space anywhere in between, decodes
  to exactly those bytes.\<close>

theorem base64_roundtrip:
  "filter (\<lambda>c. \<not> is_ws c) s = b64_text url pad bs \<Longrightarrow> base64ToBytes s = bs"
  by (rule base64ToBytes_text)

theorem base64_roundtrip_witness: "base64ToBytes (js ''_- A ='') = [0xFF, 0xE0]"
proof -
  have "filter (\<lambda>c. \<not> is_ws c) (js ''_- A ='') = b64_text True 1 [0xFF, 0xE0]"
    by (simp add: is_ws_def b64_text_def b64_char_def B64_ALPHABET_def)
  then show ?thesis by (rule base64_roundtrip)
qed

text \<open>C28: a string without lone surrogates survives UTF-8, base64 and \<open>base64ToString\<close>: non-ASCII
  server names, surrogate pairs included, come out as they went in.\<close>

theorem base64ToString_utf8: "wf16 s \<Longrightarrow> base64ToString (b64_text url pad (utf8 s)) = s"
  by (rule b64.decodes_string)

theorem base64ToString_utf8_witness:
  "base64ToString (b64_text False 2 (utf8 [0x41, 0xE9, 0x20AC, 0xD83D, 0xDE00])) = [0x41, 0xE9, 0x20AC, 0xD83D, 0xDE00]"
  by (rule base64ToString_utf8) (simp add: is_high_def is_low_def)

end
