(* ===== verification/Uri.thy ===== *)
theory Uri
  imports Base64
begin

section \<open>Percent encoding\<close>

text \<open>
  \<open>decodeURIComponent\<close> of the language, with every error of its specification, the helper
  \<open>decodeComponentSafe\<close> of \<open>src/subscription/parse.ts\<close> that returns the input when it throws, and
  the encoders that write the components of a link.  \<open>pct_encode keep\<close> escapes every character
  outside \<open>keep\<close>; \<open>encodeURIComponent\<close> is one instance.  The interface \<open>component_encoder\<close> is what
  the link parsers need of the program that wrote the link: the component decodes to the text, and
  the delimiters of a link do not occur in it.
\<close>

subsection \<open>The decoder\<close>

definition percent :: cu where "percent = 0x25"

fun pct_octet :: "jstring \<Rightarrow> (u8 \<times> jstring) option" where
  "pct_octet (p # a # b # r) =
     (if p = percent then case (hex_val a, hex_val b) of
        (Some x, Some y) \<Rightarrow> Some (of_nat (16 * x + y), r) | _ \<Rightarrow> None
      else None)"
| "pct_octet _ = None"

fun pct_octets :: "nat \<Rightarrow> jstring \<Rightarrow> (u8 list \<times> jstring) option" where
  "pct_octets 0 s = Some ([], s)"
| "pct_octets (Suc n) s = (case pct_octet s of None \<Rightarrow> None
     | Some (b, r) \<Rightarrow> map_option (\<lambda>(bs, r'). (b # bs, r')) (pct_octets n r))"

text \<open>The octets that follow a lead octet; \<open>None\<close> for an octet that cannot lead.\<close>

definition followers :: "u8 \<Rightarrow> nat option" where
  "followers b = (if b < 0x80 then Some 0 else if b < 0xC0 then None else if b < 0xE0 then Some 1
     else if b < 0xF0 then Some 2 else if b < 0xF8 then Some 3 else None)"

definition is_cont :: "u8 \<Rightarrow> bool" where
  "is_cont b \<longleftrightarrow> b AND 0xC0 = 0x80"

text \<open>The code units of a valid UTF-8 sequence: continuation octets, no overlong form, no
  surrogate, at most \<open>0x10FFFF\<close>.\<close>

fun utf8_units :: "u8 list \<Rightarrow> jstring option" where
  "utf8_units [a] = Some [ucast a]"
| "utf8_units [a, b] = (let p = join2 a b in
     if is_cont b \<and> 0x80 \<le> p then Some [ucast p] else None)"
| "utf8_units [a, b, c] = (let p = join3 a b c in
     if is_cont b \<and> is_cont c \<and> 0x800 \<le> p \<and> \<not> (0xD800 \<le> p \<and> p \<le> 0xDFFF) then Some [ucast p]
     else None)"
| "utf8_units [a, b, c, d] = (let p = join4 a b c d in
     if is_cont b \<and> is_cont c \<and> is_cont d \<and> 0x10000 \<le> p \<and> p \<le> 0x10FFFF then Some (split_pair p)
     else None)"
| "utf8_units _ = None"

lemma pct_octet_shorter: "pct_octet s = Some (b, r) \<Longrightarrow> length r < length s"
  by (induction s rule: pct_octet.induct) (auto split: if_splits option.splits)

lemma pct_octets_shorter: "pct_octets n s = Some (bs, r) \<Longrightarrow> length r \<le> length s"
  by (induction n arbitrary: s bs) (fastforce split: option.splits dest: pct_octet_shorter)+

function decodeURIComponent :: "jstring \<Rightarrow> exn + jstring" where
  "decodeURIComponent [] = Inr []"
| "decodeURIComponent (c # s) =
     (if c \<noteq> percent then bindE (decodeURIComponent s) (\<lambda>t. Inr (c # t))
      else case pct_octet (c # s) of
        None \<Rightarrow> Inl URIError
      | Some (b, r) \<Rightarrow> (case followers b of
          None \<Rightarrow> Inl URIError
        | Some n \<Rightarrow> (case pct_octets n r of
            None \<Rightarrow> Inl URIError
          | Some (bs, r') \<Rightarrow> (case utf8_units (b # bs) of
              None \<Rightarrow> Inl URIError
            | Some us \<Rightarrow> bindE (decodeURIComponent r') (\<lambda>t. Inr (us @ t))))))"
  by pat_completeness auto

termination
  by (relation "measure length")
    (auto dest!: pct_octet_shorter pct_octets_shorter)

definition decodeComponentSafe :: "jstring \<Rightarrow> jstring" where
  "decodeComponentSafe input = (case decodeURIComponent input of Inr t \<Rightarrow> t | Inl _ \<Rightarrow> input)"

subsection \<open>Encoders\<close>

definition hex_upper :: "nat \<Rightarrow> cu" where
  "hex_upper d = (if d < 10 then 48 + of_nat d else 55 + of_nat d)"

definition pct_byte :: "u8 \<Rightarrow> jstring" where
  "pct_byte b = [percent, hex_upper (unat b div 16), hex_upper (unat b mod 16)]"

definition pct_bytes :: "u8 list \<Rightarrow> jstring" where
  "pct_bytes bs = concat (map pct_byte bs)"

fun pct_encode :: "(cu \<Rightarrow> bool) \<Rightarrow> jstring \<Rightarrow> jstring" where
  "pct_encode keep [] = []"
| "pct_encode keep (c # s) =
     (if keep c then c # pct_encode keep s
      else if c < 0x80 then pct_bytes [ucast c] @ pct_encode keep s
      else if c < 0x800 then pct_bytes (enc2 c) @ pct_encode keep s
      else if is_high c \<and> s \<noteq> [] then pct_bytes (enc4 (code_point c (hd s))) @ pct_encode keep (tl s)
      else pct_bytes (enc3 c) @ pct_encode keep s)"

definition unreserved :: "cu \<Rightarrow> bool" where
  "unreserved c \<longleftrightarrow> (0x41 \<le> c \<and> c \<le> 0x5A) \<or> (0x61 \<le> c \<and> c \<le> 0x7A) \<or> is_digit c
     \<or> c \<in> set (js ''-_.!~*()'') \<or> c = 0x27"

definition encodeURIComponent :: "jstring \<Rightarrow> jstring" where
  "encodeURIComponent s = pct_encode unreserved s"

lemma hex_table:
  "\<forall>d \<in> set [0..<16]. hex_val (hex_upper d) = Some d"
  by (simp add: hex_val_def hex_upper_def upt_rec is_digit_def digit_val_def)

lemma hex_val_upper: "d < 16 \<Longrightarrow> hex_val (hex_upper d) = Some d"
  using hex_table by auto

lemma pct_octet_byte [simp]: "pct_octet (pct_byte b @ r) = Some (b, r)"
proof -
  have "of_nat (16 * (unat b div 16) + unat b mod 16) = b" by (simp add: mult_div_mod_eq)
  then show ?thesis
    using unat_u8_less [of b]
    by (simp add: pct_byte_def hex_val_upper del: of_nat_add of_nat_mult)
qed

lemma pct_bytes_simps [simp]:
  "pct_bytes [] = []" "pct_bytes (b # bs) = pct_byte b @ pct_bytes bs"
  by (simp_all add: pct_bytes_def)

lemma pct_octets_bytes [simp]: "pct_octets (length bs) (pct_bytes bs @ r) = Some (bs, r)"
  by (induction bs) simp_all

lemma decode_units:
  assumes "followers b = Some (length bs)" "utf8_units (b # bs) = Some us"
  shows "decodeURIComponent (pct_bytes (b # bs) @ r) = bindE (decodeURIComponent r) (\<lambda>t. Inr (us @ t))"
proof -
  obtain s where s: "pct_bytes (b # bs) @ r = percent # s" by (simp add: pct_byte_def)
  have "pct_octet (percent # s) = Some (b, pct_bytes bs @ r)" by (simp flip: s)
  with assms show ?thesis unfolding s by simp
qed

lemma cont_is_cont: "is_cont (cont w)"
proof -
  have a: "(0x80 OR ucast (w AND 0x3F) :: u8) AND 0xC0 = 0x80 OR (ucast (w AND 0x3F) AND 0xC0)"
    by (simp add: bit.conj_disj_distrib2)
  have "(ucast (w AND 0x3F) :: u8) AND 0xC0 = 0"
    by (rule bit_word_eqI) (use lead_bits in \<open>auto simp: and_masks bit_simps\<close>)
  with a show ?thesis by (simp add: is_cont_def cont_def)
qed

lemma join2_value: "c < 0x800 \<Longrightarrow> join2 (0xC0 OR ucast (drop_bit 6 c)) (cont c) = ucast (c :: cu)"
proof -
  assume "c < 0x800"
  then have t: "take_bit 11 c = c"
    by (intro take_bit_small_word) (simp add: word_less_nat_alt)
  have "join2 (0xC0 OR ucast (drop_bit 6 c)) (cont c) = ucast (take_bit 11 c)"
    by (rule bit_word_eqI) (auto simp: join2_def cont_payload lead_payload bit_simps)
  with t show ?thesis by simp
qed

lemma join3_value:
  "join3 (0xE0 OR ucast (drop_bit 12 c)) (cont (drop_bit 6 c)) (cont c) = ucast (c :: cu)"
  by (rule bit_word_eqI)
    (auto simp: join3_def cont_payload lead_payload bit_simps dest: bit_imp_le_length)

lemma ucast_ucast_i32: "ucast (ucast (c :: cu) :: i32) = c"
  by (rule bit_word_eqI) (simp add: bit_simps)

lemma units_enc2:
  assumes "\<not> c < 0x80" "c < 0x800"
  shows "followers (hd (enc2 c)) = Some (length (tl (enc2 c)))" "utf8_units (enc2 c) = Some [c]"
proof -
  have "0xC0 \<le> (0xC0 OR ucast (drop_bit 6 c) :: u8) \<and> 0xC0 OR ucast (drop_bit 6 c) < (0xE0 :: u8)"
    by (rule lead_range(1) [OF enc2_lead [OF assms(2)]])
  then show "followers (hd (enc2 c)) = Some (length (tl (enc2 c)))"
    by (simp add: enc2_def followers_def word_less_nat_alt word_le_nat_alt)
  show "utf8_units (enc2 c) = Some [c]"
    using assms by (simp add: enc2_def join2_value cont_is_cont word_le_nat_alt word_less_nat_alt unat_ucast_up
        not_less ucast_ucast_i32)
qed

lemma units_enc3:
  assumes "\<not> c < 0x800" "\<not> is_high c" "\<not> is_low c"
  shows "followers (hd (enc3 c)) = Some (length (tl (enc3 c)))" "utf8_units (enc3 c) = Some [c]"
proof -
  have "0xE0 \<le> (0xE0 OR ucast (drop_bit 12 c) :: u8) \<and> 0xE0 OR ucast (drop_bit 12 c) < (0xF0 :: u8)"
    by (rule lead_range(2) [OF enc3_lead])
  then show "followers (hd (enc3 c)) = Some (length (tl (enc3 c)))"
    by (simp add: enc3_def followers_def word_less_nat_alt word_le_nat_alt)
  show "utf8_units (enc3 c) = Some [c]"
    using assms by (auto simp add: enc3_def join3_value cont_is_cont word_le_nat_alt word_less_nat_alt
        unat_ucast_up not_less is_high_def is_low_def ucast_ucast_i32)
qed

lemma units_enc4:
  assumes "is_high c" "is_low d"
  shows "followers (hd (enc4 (code_point c d))) = Some (length (tl (enc4 (code_point c d))))"
    "utf8_units (enc4 (code_point c d)) = Some [c, d]"
proof -
  let ?p = "code_point c d"
  note b = code_point_bounds [OF assms]
  have "0xF0 \<le> (0xF0 OR ucast (drop_bit 18 ?p) :: u8) \<and> 0xF0 OR ucast (drop_bit 18 ?p) < (0xF8 :: u8)"
    by (rule lead_range(3) [OF enc4_lead [OF b(1)]])
  then show "followers (hd (enc4 ?p)) = Some (length (tl (enc4 ?p)))"
    by (simp add: enc4_def followers_def word_less_nat_alt word_le_nat_alt)
  show "utf8_units (enc4 ?p) = Some [c, d]"
    using b by (simp add: enc4_def join4_enc4 cont_is_cont word_le_nat_alt split_pair_code_point [OF assms])
qed

lemma decode_keep: "c \<noteq> percent \<Longrightarrow> decodeURIComponent (c # s) = bindE (decodeURIComponent s) (\<lambda>t. Inr (c # t))"
  by simp

lemma decode_ascii:
  "c < 0x80 \<Longrightarrow> decodeURIComponent (pct_bytes [ucast c] @ s) = bindE (decodeURIComponent s) (\<lambda>t. Inr (c # t))"
proof -
  assume a: "c < 0x80"
  have "unat c < 128" using a by (simp add: word_less_nat_alt)
  then have u: "unat (ucast c :: u8) = unat c" by (simp add: unsigned_ucast_eq take_bit_nat_eq_self)
  then have "ucast (ucast c :: u8) = c" by (simp add: word_unat_eq_iff unat_ucast_up)
  moreover have "(ucast c :: u8) < 0x80" using u a by (simp add: word_less_nat_alt)
  ultimately show ?thesis using decode_units [of "ucast c" "[]" "[c]" s] by (simp add: followers_def)
qed

lemma decode_seq:
  assumes "followers (hd bs) = Some (length (tl bs))" "utf8_units bs = Some us"
  shows "decodeURIComponent (pct_bytes bs @ s) = bindE (decodeURIComponent s) (\<lambda>t. Inr (us @ t))"
  using assms by (cases bs) (simp_all del: pct_bytes_simps decodeURIComponent.simps add: decode_units)

definition keeps :: "(cu \<Rightarrow> bool) \<Rightarrow> bool" where
  "keeps keep \<longleftrightarrow> (\<forall>c. keep c \<longrightarrow> c \<noteq> percent \<and> \<not> is_high c \<and> \<not> is_low c)"

lemma decode_pct_encode:
  assumes "keeps keep" "wf16 s"
  shows "decodeURIComponent (pct_encode keep s) = Inr s"
  using assms
proof (induction keep s rule: pct_encode.induct)
  case (2 keep c s)
  note [simp del] = decodeURIComponent.simps(2) pct_bytes_simps(2)
  consider "keep c" | "\<not> keep c" "c < 0x80" | "\<not> keep c" "\<not> c < 0x80" "c < 0x800"
    | "\<not> keep c" "\<not> c < 0x80" "\<not> c < 0x800" "is_high c"
    | "\<not> keep c" "\<not> c < 0x80" "\<not> c < 0x800" "\<not> is_high c" by blast
  then show ?case
  proof cases
    case 1
    with "2.prems" have "c \<noteq> percent" "wf16 s" by (auto simp: keeps_def)
    with 1 "2.IH"(1) "2.prems" show ?thesis by (simp add: decode_keep)
  next
    case 2
    then have "\<not> is_high c" by (simp_all add: is_high_def word_le_nat_alt word_less_nat_alt)
    with 2 "2.IH"(2) "2.prems" show ?thesis by (simp add: decode_ascii)
  next
    case 3
    then have "\<not> is_high c" by (simp_all add: is_high_def word_le_nat_alt word_less_nat_alt)
    with 3 "2.IH"(3) "2.prems" show ?thesis by (simp add: decode_seq units_enc2)
  next
    case 4
    with "2.prems" obtain d r where s: "s = d # r" "is_low d" "wf16 r" by (cases s) auto
    with 4 "2.IH"(4) "2.prems" show ?thesis by (simp add: decode_seq units_enc4)
  next
    case 5
    with "2.IH"(5) "2.prems" show ?thesis by (simp add: decode_seq units_enc3)
  qed
qed simp

subsection \<open>The interface of a component encoder\<close>

text \<open>The delimiters of a link; white space would be trimmed.\<close>

definition delimiters :: "cu set" where
  "delimiters = set (js ''#?@&=/,'')"

definition link_safe :: "jstring \<Rightarrow> bool" where
  "link_safe t \<longleftrightarrow> (\<forall>c \<in> set t. c \<notin> delimiters \<and> \<not> is_ws c)"

locale component_encoder =
  fixes enc :: "jstring \<Rightarrow> jstring" and ok :: "jstring \<Rightarrow> bool"
  assumes decodes: "ok s \<Longrightarrow> decodeComponentSafe (enc s) = s"
    and safe: "ok s \<Longrightarrow> link_safe (enc s)"
    and non_empty: "ok s \<Longrightarrow> s \<noteq> [] \<Longrightarrow> enc s \<noteq> []"
begin

lemma enc_no_delim: "ok s \<Longrightarrow> c \<in> delimiters \<Longrightarrow> c \<notin> set (enc s)"
  using safe by (auto simp: link_safe_def)

lemma enc_no_ws: "ok s \<Longrightarrow> c \<in> set (enc s) \<Longrightarrow> \<not> is_ws c"
  using safe by (auto simp: link_safe_def)

end

text \<open>Escaping everything outside \<open>keep\<close> is such an encoder, whatever safe characters are kept.\<close>

lemma pct_bytes_set: "c \<in> set (pct_bytes bs) \<Longrightarrow> c \<notin> delimiters \<and> \<not> is_ws c"
proof -
  have "hex_upper d \<notin> delimiters \<and> \<not> is_ws (hex_upper d)" if "d < 16" for d
  proof -
    have "\<forall>d \<in> set [0..<16]. hex_upper d \<notin> delimiters \<and> \<not> is_ws (hex_upper d)"
      by (simp add: hex_upper_def delimiters_def is_ws_def upt_rec)
    with that show ?thesis by auto
  qed
  moreover have "percent \<notin> delimiters \<and> \<not> is_ws percent"
    by (simp add: percent_def delimiters_def is_ws_def)
  moreover have "unat b div 16 < 16" for b :: u8 using unat_u8_less [of b] by simp
  ultimately show "c \<in> set (pct_bytes bs) \<Longrightarrow> c \<notin> delimiters \<and> \<not> is_ws c"
    by (induction bs) (auto simp: pct_byte_def)
qed

lemma pct_encode_safe:
  "(\<And>c. keep c \<Longrightarrow> c \<notin> delimiters \<and> \<not> is_ws c) \<Longrightarrow> link_safe (pct_encode keep s)"
proof (induction keep s rule: pct_encode.induct)
  case (2 keep c s)
  then show ?case using pct_bytes_set by (auto simp: link_safe_def simp del: pct_bytes_simps)
qed (simp add: link_safe_def)

lemma pct_encode_ne: "s \<noteq> [] \<Longrightarrow> pct_encode keep s \<noteq> []"
  by (cases s) (auto simp: enc2_def enc3_def enc4_def pct_byte_def)

lemma decodeComponentSafe_encode:
  "keeps keep \<Longrightarrow> wf16 s \<Longrightarrow> decodeComponentSafe (pct_encode keep s) = s"
  by (simp add: decodeComponentSafe_def decode_pct_encode)

lemma unreserved_keeps: "keeps unreserved"
  "unreserved c \<Longrightarrow> c \<notin> delimiters \<and> \<not> is_ws c"
  by (auto simp: keeps_def unreserved_def percent_def is_high_def is_low_def is_digit_def delimiters_def
      is_ws_def word_le_nat_alt)

interpretation uri: component_encoder encodeURIComponent wf16
proof
  fix s :: jstring
  show "wf16 s \<Longrightarrow> decodeComponentSafe (encodeURIComponent s) = s"
    by (simp add: encodeURIComponent_def decodeComponentSafe_encode unreserved_keeps)
  show "wf16 s \<Longrightarrow> link_safe (encodeURIComponent s)"
    unfolding encodeURIComponent_def by (rule pct_encode_safe) (rule unreserved_keeps)
  show "wf16 s \<Longrightarrow> s \<noteq> [] \<Longrightarrow> encodeURIComponent s \<noteq> []"
    by (simp add: encodeURIComponent_def pct_encode_ne)
qed

text \<open>A component without escapes, such as a UUID, is its own encoding.\<close>

lemma decode_no_percent: "percent \<notin> set s \<Longrightarrow> decodeURIComponent s = Inr s"
  by (induction s) auto

definition plain :: "jstring \<Rightarrow> bool" where
  "plain s \<longleftrightarrow> percent \<notin> set s \<and> link_safe s"

interpretation plain_text: component_encoder "\<lambda>s. s" plain
  by unfold_locales (auto simp: plain_def decodeComponentSafe_def decode_no_percent)

text \<open>Percent round trip: a text without lone surrogates comes back unchanged from
  \<open>decodeComponentSafe\<close>, whatever safe characters the encoder left unescaped.\<close>

theorem percent_roundtrip:
  "keeps keep \<Longrightarrow> wf16 s \<Longrightarrow> decodeComponentSafe (pct_encode keep s) = s"
  by (rule decodeComponentSafe_encode)

theorem percent_roundtrip_witness:
  "decodeComponentSafe (pct_encode unreserved [0x23, 0x20, 0xE9, 0xD83D, 0xDE00]) = [0x23, 0x20, 0xE9, 0xD83D, 0xDE00]"
  by (rule percent_roundtrip) (simp_all add: unreserved_keeps is_high_def is_low_def)

end
