(* ===== verification/ServerTypes.thy ===== *)
theory ServerTypes
  imports Json
begin

section \<open>The parsed server (\<open>src/subscription/types.ts\<close>)\<close>

text \<open>
  \<open>ParsedServer\<close> as the program has it at run time.  The link parsers cast unchecked text and
  unchecked JSON to it, so a field that can come out of a \<open>vmess\<close> JSON document is a dynamic value
  (\<open>json\<close>) here, and \<open>network\<close> and \<open>security\<close> are not limited to the declared unions.  An
  optional field is an \<open>option\<close>; \<open>None\<close> is \<open>undefined\<close>.
\<close>

datatype protocol = Vless | Vmess | Trojan | Shadowsocks

type_synonym port = jsnum

record server =
  ps_protocol :: protocol
  ps_tag :: json
  ps_address :: json
  ps_port :: port
  ps_id :: "json option"
  ps_password :: "jstring option"
  ps_method :: "jstring option"
  ps_alterId :: "jsnum option"
  ps_encryption :: "json option"
  ps_flow :: "jstring option"
  ps_network :: json
  ps_security :: jstring
  ps_sni :: "json option"
  ps_fingerprint :: "json option"
  ps_alpn :: "jstring list option"
  ps_publicKey :: "jstring option"
  ps_shortId :: "jstring option"
  ps_spiderX :: "jstring option"
  ps_path :: "json option"
  ps_host :: "json option"
  ps_serviceName :: "json option"
  ps_headerType :: "json option"
  ps_raw :: jstring

text \<open>An object literal starts with every optional field absent.\<close>

definition server_of :: "protocol \<Rightarrow> json \<Rightarrow> json \<Rightarrow> port \<Rightarrow> jstring \<Rightarrow> server" where
  "server_of protocol tag address port raw = \<lparr>ps_protocol = protocol, ps_tag = tag, ps_address = address,
     ps_port = port, ps_id = None, ps_password = None, ps_method = None, ps_alterId = None,
     ps_encryption = None, ps_flow = None, ps_network = JStr (js ''tcp''), ps_security = js ''none'',
     ps_sni = None, ps_fingerprint = None, ps_alpn = None, ps_publicKey = None, ps_shortId = None,
     ps_spiderX = None, ps_path = None, ps_host = None, ps_serviceName = None, ps_headerType = None,
     ps_raw = raw\<rparr>"

text \<open>\<open>s || d\<close> and \<open>s || undefined\<close> on a string that may be \<open>undefined\<close>.\<close>

definition str_or :: "jstring option \<Rightarrow> jstring \<Rightarrow> jstring" where
  "str_or s d = (case s of Some t \<Rightarrow> if t = [] then d else t | None \<Rightarrow> d)"

definition str_or_undef :: "jstring option \<Rightarrow> jstring option" where
  "str_or_undef s = (case s of Some t \<Rightarrow> if t = [] then None else Some t | None \<Rightarrow> None)"

lemma str_or_simps [simp]:
  "str_or None d = d" "t \<noteq> [] \<Longrightarrow> str_or (Some t) d = t" "str_or (Some []) d = d"
  "str_or_undef None = None" "t \<noteq> [] \<Longrightarrow> str_or_undef (Some t) = Some t"
  "str_or_undef (Some []) = None"
  by (simp_all add: str_or_def str_or_undef_def)

end
