(* ===== verification/ShareLink.thy ===== *)
theory ShareLink
  imports Uri ServerTypes
begin

section \<open>Share links (\<open>src/subscription/parse.ts\<close>)\<close>

text \<open>
  \<open>parseShareLink\<close> and the four protocol parsers, with the helpers of the file in its order.  An
  exception raised inside is a left value, and \<open>parseShareLink\<close> turns it into \<open>null\<close> (\<open>None\<close>).
  A query is a map from decoded keys to decoded values.
\<close>

subsection \<open>Shared helpers\<close>

text \<open>\<open>indexOf\<close> followed by two \<open>slice\<close>s, and the same with \<open>lastIndexOf\<close>.\<close>

definition cut :: "cu \<Rightarrow> jstring \<Rightarrow> jstring \<times> jstring option" where
  "cut c s = (case index_of [c] s of None \<Rightarrow> (s, None) | Some i \<Rightarrow> (take i s, Some (drop (i + 1) s)))"

definition cut_last :: "cu \<Rightarrow> jstring \<Rightarrow> jstring option \<times> jstring" where
  "cut_last c s = (case last_index_of c s of None \<Rightarrow> (None, s)
     | Some i \<Rightarrow> (Some (take i s), drop (i + 1) s))"

definition toNumber :: "json option \<Rightarrow> jsnum \<Rightarrow> jsnum" where
  "toNumber value fallback = (case value of
     Some (JNum x) \<Rightarrow> if is_finite x then x else fallback
   | Some (JStr s) \<Rightarrow> (let parsed = parseInt10 s in if is_finite parsed then parsed else fallback)
   | _ \<Rightarrow> fallback)"

definition toPort :: "json option \<Rightarrow> port" where
  "toPort value = toNumber value (Fin 0)"

definition fallbackTag :: "jstring \<Rightarrow> jstring \<Rightarrow> port \<Rightarrow> jstring" where
  "fallbackTag protocol host port = protocol @ js ''-'' @ host @ js '':'' @ num_to_string port"

definition splitCsv :: "jstring option \<Rightarrow> jstring list option" where
  "splitCsv value = (case str_or_undef value of None \<Rightarrow> None
   | Some v \<Rightarrow> (let parts = filter (\<lambda>p. 0 < length p) (map trim (split_on (ch (CHR '','')) v))
       in if 0 < length parts then Some parts else None))"

definition splitFirst :: "jstring \<Rightarrow> cu \<Rightarrow> (jstring \<times> jstring) option" where
  "splitFirst input sep = (case index_of [sep] input of None \<Rightarrow> None
     | Some idx \<Rightarrow> Some (take idx input, drop (idx + 1) input))"

definition splitHostPort :: "jstring \<Rightarrow> jstring \<times> port" where
  "splitHostPort hostPort =
     (if starts_with (js ''['') hostPort then
        (case index_of (js '']'') hostPort of
           None \<Rightarrow> (hostPort, Fin 0)
         | Some close \<Rightarrow>
             (let rest = drop (close + 1) hostPort;
                  portStr = (if starts_with (js '':'') rest then drop 1 rest else rest)
              in (drop 1 (take close hostPort), toPort (Some (JStr portStr)))))
      else (case cut_last (ch (CHR '':'')) hostPort of
           (None, _) \<Rightarrow> (hostPort, Fin 0)
         | (Some host, portStr) \<Rightarrow> (host, toPort (Some (JStr portStr)))))"

text \<open>\<open>out\<close> is a plain object: assigning a string to its key \<open>__proto__\<close> has no effect.\<close>

definition query_put :: "jstring \<Rightarrow> jstring \<Rightarrow> (jstring \<rightharpoonup> jstring) \<Rightarrow> jstring \<rightharpoonup> jstring" where
  "query_put k v out = (if k = js ''__proto__'' then out else out(k \<mapsto> v))"

definition query_pair :: "(jstring \<rightharpoonup> jstring) \<Rightarrow> jstring \<Rightarrow> jstring \<rightharpoonup> jstring" where
  "query_pair out pair = (if pair = [] then out else
     let (key, value) = cut (ch (CHR ''='')) pair
     in query_put (decodeComponentSafe key) (decodeComponentSafe (coalesce value [])) out)"

definition parseQuery :: "jstring \<Rightarrow> jstring \<rightharpoonup> jstring" where
  "parseQuery query = foldl query_pair Map.empty (split_on (ch (CHR ''&'')) query)"

record authority =
  au_userinfo :: jstring
  au_host :: jstring
  au_port :: port
  au_query :: "jstring \<rightharpoonup> jstring"
  au_fragment :: jstring

definition splitAuthorityLink :: "jstring \<Rightarrow> authority option" where
  "splitAuthorityLink afterScheme =
     (let (rest, frag) = cut (ch (CHR ''#'')) afterScheme;
          fragment = (case frag of None \<Rightarrow> [] | Some f \<Rightarrow> decodeComponentSafe f);
          (rest, q) = cut (ch (CHR ''?'')) rest;
          query = (case q of None \<Rightarrow> Map.empty | Some q \<Rightarrow> parseQuery q);
          (ui, rest) = cut_last (ch (CHR ''@'')) rest;
          userinfo = coalesce ui [];
          rest = fst (cut (ch (CHR ''/'')) rest);
          (host, port) = splitHostPort rest
      in if host = [] then None
         else Some \<lparr>au_userinfo = userinfo, au_host = host, au_port = port, au_query = query,
           au_fragment = fragment\<rparr>)"

text \<open>The fields \<open>streamFromQuery\<close> computes, spread into the object literal of its caller.\<close>

definition streamFromQuery :: "(jstring \<rightharpoonup> jstring) \<Rightarrow> jstring \<Rightarrow> server \<Rightarrow> server" where
  "streamFromQuery query defaultSecurity server =
     (let get = (\<lambda>k. str_or_undef (query (js k))); getj = (\<lambda>k. map_option JStr (get k)) in
      server\<lparr>ps_network := JStr (str_or (query (js ''type'')) (js ''tcp'')),
        ps_security := str_or (query (js ''security'')) defaultSecurity,
        ps_sni := (case getj ''sni'' of Some v \<Rightarrow> Some v | None \<Rightarrow> getj ''peer''),
        ps_fingerprint := getj ''fp'',
        ps_alpn := splitCsv (query (js ''alpn'')),
        ps_publicKey := get ''pbk'',
        ps_shortId := get ''sid'',
        ps_spiderX := get ''spx'',
        ps_path := getj ''path'',
        ps_host := getj ''host'',
        ps_serviceName := getj ''serviceName'',
        ps_headerType := getj ''headerType'',
        ps_flow := get ''flow''\<rparr>)"

definition tryBase64 :: "jstring \<Rightarrow> jstring" where
  "tryBase64 input = base64ToString input"

definition decodeUserinfoCreds :: "jstring \<Rightarrow> (jstring \<times> jstring) option" where
  "decodeUserinfoCreds userinfo =
     List.find (\<lambda>(method, password). method \<noteq> [])
       (List.map_filter (\<lambda>candidate. splitFirst candidate (ch (CHR '':'')))
         [tryBase64 userinfo, decodeComponentSafe userinfo])"

subsection \<open>Protocol parsers\<close>

definition parseVless :: "jstring \<Rightarrow> jstring \<Rightarrow> server option" where
  "parseVless afterScheme raw = (case splitAuthorityLink afterScheme of
     None \<Rightarrow> None
   | Some parts \<Rightarrow>
       if au_userinfo parts = [] \<or> au_port parts = Fin 0 then None
       else let tag = str_or (Some (au_fragment parts))
              (fallbackTag (js ''vless'') (au_host parts) (au_port parts)) in
         Some (streamFromQuery (au_query parts) (js ''none'')
           ((server_of Vless (JStr tag) (JStr (au_host parts)) (au_port parts) raw)
             \<lparr>ps_id := Some (JStr (decodeComponentSafe (au_userinfo parts))),
              ps_encryption := Some (JStr (str_or (au_query parts (js ''encryption'')) (js ''none'')))\<rparr>)))"

definition parseTrojan :: "jstring \<Rightarrow> jstring \<Rightarrow> server option" where
  "parseTrojan afterScheme raw = (case splitAuthorityLink afterScheme of
     None \<Rightarrow> None
   | Some parts \<Rightarrow>
       if au_userinfo parts = [] \<or> au_port parts = Fin 0 then None
       else let tag = str_or (Some (au_fragment parts))
              (fallbackTag (js ''trojan'') (au_host parts) (au_port parts)) in
         Some (streamFromQuery (au_query parts) (js ''tls'')
           ((server_of Trojan (JStr tag) (JStr (au_host parts)) (au_port parts) raw)
             \<lparr>ps_password := Some (decodeComponentSafe (au_userinfo parts))\<rparr>)))"

text \<open>\<open>splitCsv\<close> on an unchecked JSON value: a truthy value that is not a string has no \<open>split\<close>.\<close>

definition splitCsv_json :: "json option \<Rightarrow> exn + jstring list option" where
  "splitCsv_json value = (case or_undef value of
     None \<Rightarrow> Inr None
   | Some (JStr v) \<Rightarrow> Inr (splitCsv (Some v))
   | Some _ \<Rightarrow> Inl TypeError)"

definition vmess_tag :: "(string \<Rightarrow> json option) \<Rightarrow> json \<Rightarrow> port \<Rightarrow> exn + json" where
  "vmess_tag get address port = (case or_undef (get ''ps'') of
     Some v \<Rightarrow> Inr v
   | None \<Rightarrow> bindE (to_text address) (\<lambda>host. Inr (JStr (fallbackTag (js ''vmess'') host port))))"

definition vmess_server :: "(string \<Rightarrow> json option) \<Rightarrow> jstring \<Rightarrow> exn + server option" where
  "vmess_server get raw =
     (let address = nullish (get ''add'') (JStr []); port = toPort (get ''port'') in
      if \<not> truthy address \<or> port = Fin 0 then Inr None
      else
        let net = js_or (get ''net'') (JStr (js ''tcp''));
            tls = js_or (get ''tls'') (JStr []);
            security = (if tls = JStr (js ''reality'') then js ''reality''
              else if tls = JStr (js ''tls'') then js ''tls'' else js ''none'');
            grpc = (net = JStr (js ''grpc'')) in
        bindE (vmess_tag get address port) (\<lambda>tag.
        bindE (splitCsv_json (get ''alpn'')) (\<lambda>alpn.
          Inr (Some ((server_of Vmess tag address port raw)
            \<lparr>ps_id := get ''id'',
             ps_alterId := Some (toNumber (get ''aid'') (Fin 0)),
             ps_encryption := Some (js_or (get ''scy'') (JStr (js ''auto''))),
             ps_network := net,
             ps_security := security,
             ps_sni := or_undef (get ''sni''),
             ps_fingerprint := or_undef (get ''fp''),
             ps_alpn := alpn,
             ps_path := (if grpc then None else or_undef (get ''path'')),
             ps_serviceName := (if grpc then or_undef (get ''path'') else None),
             ps_host := or_undef (get ''host''),
             ps_headerType := or_undef (get ''type'')\<rparr>)))))"

text \<open>Reading any property of \<open>null\<close> throws; the first one read is \<open>add\<close>.\<close>

definition parseVmess :: "jstring \<Rightarrow> jstring \<Rightarrow> exn + server option" where
  "parseVmess afterScheme raw =
     (let payload = fst (cut (ch (CHR ''#'')) afterScheme) in
      bindE (JSON_parse (base64ToString payload)) (\<lambda>json.
      bindE (get_prop json (js ''add'')) (\<lambda>_.
        vmess_server (\<lambda>k. projr (get_prop json (js k))) raw)))"

definition ss_endpoint :: "jstring \<Rightarrow> (jstring \<times> jstring \<times> jstring \<times> port) option" where
  "ss_endpoint body =
     (if js_includes (js ''@'') body then
        (case cut_last (ch (CHR ''@'')) body of (userinfo, hostPort) \<Rightarrow>
          (case decodeUserinfoCreds (coalesce userinfo []) of None \<Rightarrow> None
           | Some (method, password) \<Rightarrow> Some (method, password, splitHostPort hostPort)))
      else
        (case cut_last (ch (CHR ''@'')) (base64ToString body) of
           (None, _) \<Rightarrow> None
         | (Some userinfo, hostPort) \<Rightarrow>
             (case splitFirst userinfo (ch (CHR '':'')) of None \<Rightarrow> None
              | Some (method, password) \<Rightarrow> Some (method, password, splitHostPort hostPort))))"

definition parseShadowsocks :: "jstring \<Rightarrow> jstring \<Rightarrow> server option" where
  "parseShadowsocks afterScheme raw =
     (let (body, frag) = cut (ch (CHR ''#'')) afterScheme;
          fragment = (case frag of None \<Rightarrow> [] | Some f \<Rightarrow> decodeComponentSafe f);
          body = fst (cut (ch (CHR ''?'')) body)
      in case ss_endpoint body of
           None \<Rightarrow> None
         | Some (method, password, host, port) \<Rightarrow>
             if host = [] \<or> port = Fin 0 then None
             else Some ((server_of Shadowsocks
               (JStr (str_or (Some fragment) (fallbackTag (js ''ss'') host port))) (JStr host) port raw)
               \<lparr>ps_method := Some method, ps_password := Some password\<rparr>))"

subsection \<open>The entry point\<close>

definition parse_scheme :: "jstring \<Rightarrow> jstring \<Rightarrow> jstring \<Rightarrow> exn + server option" where
  "parse_scheme scheme afterScheme trimmed =
     (if scheme = js ''vless'' then Inr (parseVless afterScheme trimmed)
      else if scheme = js ''trojan'' then Inr (parseTrojan afterScheme trimmed)
      else if scheme = js ''vmess'' then parseVmess afterScheme trimmed
      else if scheme = js ''ss'' then Inr (parseShadowsocks afterScheme trimmed)
      else Inr None)"

definition parseShareLink :: "jstring \<Rightarrow> server option" where
  "parseShareLink uri =
     (let trimmed = trim uri in
      case index_of (js ''://'') trimmed of
        None \<Rightarrow> None
      | Some schemeIdx \<Rightarrow>
          (case parse_scheme (to_lower (take schemeIdx trimmed)) (drop (schemeIdx + 3) trimmed) trimmed of
             Inr r \<Rightarrow> r | Inl _ \<Rightarrow> None))"

end
