(* ===== verification/LinkText.thy ===== *)
theory LinkText
  imports ShareLink
begin

section \<open>Writers of share links and what the parsers make of them\<close>

text \<open>
  A writer for each link form, as the panels that emit these links do it: components are encoded
  by a \<open>component_encoder\<close>, an IPv6 address is bracketed, absent fields are left out of the query.
  Inside the locale the helpers of the parser are shown to take such a link apart again.
\<close>

subsection \<open>Cutting\<close>

lemma cut_simps [simp]:
  "c \<notin> set a \<Longrightarrow> cut c (a @ c # b) = (a, Some b)"
  "c \<notin> set a \<Longrightarrow> cut c a = (a, None)"
  using index_of_single_None [of c a]
  by (simp_all add: cut_def index_of_single_first)

lemma cut_last_simps [simp]:
  "c \<notin> set b \<Longrightarrow> cut_last c (a @ c # b) = (Some a, b)"
  "c \<notin> set b \<Longrightarrow> cut_last c b = (None, b)"
  by (simp_all add: cut_last_def last_index_of_last last_index_of_None [THEN iffD2])

subsection \<open>Host and port\<close>

definition host_ok :: "jstring \<Rightarrow> bool" where
  "host_ok h \<longleftrightarrow> h \<noteq> [] \<and> link_safe h \<and> ch (CHR ''['') \<notin> set h \<and> ch (CHR '']'') \<notin> set h"

definition host_text :: "jstring \<Rightarrow> jstring" where
  "host_text h = (if ch (CHR '':'') \<in> set h then js ''['' @ h @ js '']'' else h)"

definition hostport_text :: "jstring \<Rightarrow> nat \<Rightarrow> jstring" where
  "hostport_text h n = host_text h @ js '':'' @ nat_digits n"

lemma digits_avoid: "\<not> is_digit c \<Longrightarrow> c \<notin> set (nat_digits n)"
  using nat_digits_digits by blast

lemma toPort_digits: "n < 2 ^ 53 \<Longrightarrow> toPort (Some (JStr (nat_digits n))) = Fin (of_nat n)"
  by (simp add: toPort_def toNumber_def parseInt10_nat)

lemma index_of_bracket:
  "ch (CHR '']'') \<notin> set h \<Longrightarrow> index_of (js '']'') (js ''['' @ h @ js '']'' @ r) = Some (Suc (length h))"
  using index_of_single_first [of "ch (CHR '']'')" "ch (CHR ''['') # h" r] by simp

lemma splitHostPort_text:
  assumes "host_ok h" "n < 2 ^ 53"
  shows "splitHostPort (hostport_text h n) = (h, Fin (of_nat n))"
proof (cases "ch (CHR '':'') \<in> set h")
  case True
  then have t: "hostport_text h n = js ''['' @ h @ js '']'' @ js '':'' @ nat_digits n"
    by (simp add: hostport_text_def host_text_def)
  have "index_of (js '']'') (hostport_text h n) = Some (Suc (length h))"
    unfolding t by (rule index_of_bracket) (use assms(1) in \<open>simp add: host_ok_def\<close>)
  moreover have "starts_with (js ''['') (hostport_text h n)" by (simp add: t)
  moreover have "drop (Suc (length h) + 1) (hostport_text h n) = js '':'' @ nat_digits n"
    "drop 1 (take (Suc (length h)) (hostport_text h n)) = h"
    by (simp_all add: t)
  ultimately show ?thesis
    using assms(2) unfolding splitHostPort_def
    by (simp add: toPort_digits Let_def)
next
  case False
  then have t: "hostport_text h n = h @ ch (CHR '':'') # nat_digits n"
    by (simp add: hostport_text_def host_text_def)
  moreover obtain x h' where "h = x # h'" "x \<noteq> ch (CHR ''['')"
    using assms(1) by (cases h) (auto simp: host_ok_def)
  ultimately have h: "\<not> starts_with (js ''['') (hostport_text h n)" by simp
  have "ch (CHR '':'') \<notin> set (nat_digits n)" by (rule digits_avoid) (simp add: is_digit_def)
  then have "cut_last (ch (CHR '':'')) (hostport_text h n) = (Some h, nat_digits n)"
    unfolding t by (rule cut_last_simps)
  with h show ?thesis
    using assms(2) by (simp add: splitHostPort_def toPort_digits)
qed

lemma link_safe_append [simp]: "link_safe (s @ t) \<longleftrightarrow> link_safe s \<and> link_safe t"
  by (auto simp: link_safe_def)

lemma link_safe_digits: "link_safe (nat_digits n)"
proof -
  have "c \<notin> delimiters" if "is_digit c" for c
    using that by (auto simp: delimiters_def is_digit_def word_le_nat_alt)
  then show ?thesis
    using nat_digits_digits is_digit_not_ws by (auto simp: link_safe_def)
qed

lemma link_safe_marks: "link_safe (js ''['')" "link_safe (js '']'')" "link_safe (js '':'')"
  by (simp_all add: link_safe_def delimiters_def is_ws_def)

lemma hostport_text_safe: "host_ok h \<Longrightarrow> link_safe (hostport_text h n)"
  using link_safe_marks
  by (simp add: hostport_text_def host_text_def host_ok_def link_safe_digits del: js_Cons)

subsection \<open>Queries\<close>

definition params :: "(jstring \<times> jstring option) list \<Rightarrow> (jstring \<times> jstring) list" where
  "params ps = List.map_filter (\<lambda>(k, v). map_option (Pair k) v) ps"

definition query_text :: "(jstring \<Rightarrow> jstring) \<Rightarrow> (jstring \<times> jstring) list \<Rightarrow> jstring" where
  "query_text enc kvs = join (js ''&'') (map (\<lambda>(k, v). enc k @ js ''='' @ enc v) kvs)"

lemma params_keys: "fst ` set (params ps) \<subseteq> fst ` set ps"
  by (induction ps) (auto simp: params_def List.map_filter_simps split: option.splits)

lemma map_of_params:
  "distinct (map fst ps) \<Longrightarrow> map_of (params ps) k = (case map_of ps k of None \<Rightarrow> None | Some v \<Rightarrow> v)"
proof (induction ps)
  case (Cons p ps)
  obtain k' v where p: "p = (k', v)" by fastforce
  have "map_of ps k' = None" using Cons.prems by (simp add: p map_of_eq_None_iff)
  with Cons p show ?case
    by (cases v) (auto simp: params_def List.map_filter_simps)
qed (simp add: params_def List.map_filter_simps)

lemma params_distinct: "distinct (map fst ps) \<Longrightarrow> distinct (map fst (params ps))"
proof (induction ps)
  case (Cons p ps)
  then show ?case using params_keys [of ps]
    by (cases p; cases "snd p") (auto simp: params_def List.map_filter_simps)
qed (simp add: params_def List.map_filter_simps)

lemma map_of_rev_distinct: "distinct (map fst kvs) \<Longrightarrow> map_of (rev kvs) = map_of kvs"
  by (rule map_of_eqI) (auto simp: rev_map [symmetric])

context component_encoder
begin

lemma enc_free: "ok s \<Longrightarrow> c \<in> set (js ''#?@&=/,'') \<Longrightarrow> c \<notin> set (enc s)"
  using enc_no_delim by (simp add: delimiters_def)

lemma query_pair_enc:
  assumes "ok k" "ok v" "k \<noteq> js ''__proto__''"
  shows "query_pair m (enc k @ js ''='' @ enc v) = m(k \<mapsto> v)"
  using assms enc_free [of k "ch (CHR ''='')"]
  by (simp add: query_pair_def query_put_def decodes)

lemma foldl_query_pair:
  assumes "\<forall>(k, v) \<in> set kvs. ok k \<and> ok v \<and> k \<noteq> js ''__proto__''"
  shows "foldl query_pair m (map (\<lambda>(k, v). enc k @ js ''='' @ enc v) kvs) = m ++ map_of (rev kvs)"
  using assms
proof (induction kvs arbitrary: m)
  case (Cons kv kvs)
  then show ?case by (cases kv) (simp add: query_pair_enc map_add_def fun_eq_iff del: js_Cons split: option.splits)
qed simp

lemma parseQuery_text:
  assumes "\<forall>(k, v) \<in> set kvs. ok k \<and> ok v \<and> k \<noteq> js ''__proto__''" "distinct (map fst kvs)"
  shows "parseQuery (query_text enc kvs) = map_of kvs"
proof (cases "kvs = []")
  case True
  then show ?thesis by (simp add: parseQuery_def query_text_def query_pair_def)
next
  case False
  let ?ts = "map (\<lambda>(k, v). enc k @ js ''='' @ enc v) kvs"
  have "\<forall>t \<in> set ?ts. ch (CHR ''&'') \<notin> set t"
    using assms(1) enc_free [of _ "ch (CHR ''&'')"] by fastforce
  with False have "split_on (ch (CHR ''&'')) (query_text enc kvs) = ?ts"
    using split_on_join [of ?ts "ch (CHR ''&'')"] by (simp add: query_text_def)
  then show ?thesis
    using foldl_query_pair [OF assms(1), of Map.empty] map_of_rev_distinct [OF assms(2)]
    by (simp add: parseQuery_def)
qed

lemma query_text_free:
  assumes "\<forall>(k, v) \<in> set kvs. ok k \<and> ok v" "c \<in> set (js ''#?@/,'')"
  shows "c \<notin> set (query_text enc kvs)"
proof -
  have j: "c \<notin> set (join (js ''&'') ts)" if "\<forall>t \<in> set ts. c \<notin> set t" for ts
    using that assms(2) by (induction ts rule: induct_list012) auto
  show ?thesis
    unfolding query_text_def by (rule j) (use assms enc_free [of _ c] in auto)
qed

end

subsection \<open>The authority form\<close>

definition path_ok :: "jstring \<Rightarrow> bool" where
  "path_ok p \<longleftrightarrow> (p = [] \<or> hd p = ch (CHR ''/''))
     \<and> (\<forall>c \<in> set (js ''#?@''). c \<notin> set p)"

definition authority_text ::
  "(jstring \<Rightarrow> jstring) \<Rightarrow> jstring \<Rightarrow> jstring \<Rightarrow> nat \<Rightarrow> jstring \<Rightarrow> (jstring \<times> jstring) list \<Rightarrow> jstring \<Rightarrow> jstring"
where
  "authority_text enc ui h n path kvs frag = enc ui @ js ''@'' @ hostport_text h n @ path
     @ js ''?'' @ query_text enc kvs @ js ''#'' @ enc frag"

lemma link_safe_free: "link_safe t \<Longrightarrow> c \<in> delimiters \<Longrightarrow> c \<notin> set t"
  by (auto simp: link_safe_def)

lemma cut_path:
  assumes "link_safe t" "path_ok p"
  shows "fst (cut (ch (CHR ''/'')) (t @ p)) = t"
proof -
  have "ch (CHR ''/'') \<notin> set t" using assms(1) by (rule link_safe_free) (simp add: delimiters_def)
  with assms(2) show ?thesis by (cases p) (auto simp: path_ok_def)
qed

context component_encoder
begin

lemma splitAuthorityLink_text:
  assumes "ok ui" "host_ok h" "n < 2 ^ 53" "path_ok path" "ok frag"
    and q: "\<forall>(k, v) \<in> set kvs. ok k \<and> ok v \<and> k \<noteq> js ''__proto__''" "distinct (map fst kvs)"
  shows "splitAuthorityLink (authority_text enc ui h n path kvs frag) =
    Some \<lparr>au_userinfo = enc ui, au_host = h, au_port = Fin (of_nat n), au_query = map_of kvs,
      au_fragment = frag\<rparr>"
proof -
  have q': "\<forall>(k, v) \<in> set kvs. ok k \<and> ok v" using q(1) by auto
  let ?hp = "hostport_text h n" and ?q = "query_text enc kvs"
  let ?b = "enc ui @ js ''@'' @ ?hp @ path"
  have hp: "c \<notin> set ?hp" if "c \<in> delimiters" for c
    using hostport_text_safe [OF assms(2)] that by (rule link_safe_free)
  have d: "ch (CHR ''#'') \<in> delimiters" "ch (CHR ''?'') \<in> delimiters" "ch (CHR ''@'') \<in> delimiters"
    by (simp_all add: delimiters_def)
  have p: "ch (CHR ''#'') \<notin> set path" "ch (CHR ''?'') \<notin> set path" "ch (CHR ''@'') \<notin> set path"
    using assms(4) by (simp_all add: path_ok_def)
  have b: "ch (CHR ''#'') \<notin> set ?b" "ch (CHR ''?'') \<notin> set ?b"
    using hp [OF d(1)] hp [OF d(2)] p enc_no_delim [OF assms(1) d(1)] enc_no_delim [OF assms(1) d(2)]
    by simp_all
  have "ch (CHR ''#'') \<notin> set ?q" by (rule query_text_free [OF q']) simp
  with b(1) have "ch (CHR ''#'') \<notin> set (?b @ js ''?'' @ ?q)" by simp
  from cut_simps(1) [OF this] have c1: "cut (ch (CHR ''#'')) (authority_text enc ui h n path kvs frag)
      = (?b @ js ''?'' @ ?q, Some (enc frag))"
    by (simp add: authority_text_def)
  have c2: "cut (ch (CHR ''?'')) (?b @ js ''?'' @ ?q) = (?b, Some ?q)"
    using cut_simps(1) [OF b(2), of ?q] by simp
  have "ch (CHR ''@'') \<notin> set (?hp @ path)" using hp [OF d(3)] p(3) by simp
  from cut_last_simps(1) [OF this, of "enc ui"]
  have c3: "cut_last (ch (CHR ''@'')) ?b = (Some (enc ui), ?hp @ path)" by simp
  show ?thesis
    using assms(2,3,5) unfolding splitAuthorityLink_def c1 c2 c3 Let_def prod.case
      cut_path [OF hostport_text_safe [OF assms(2)] assms(4)] splitHostPort_text [OF assms(2,3)]
    by (simp add: decodes parseQuery_text [OF q] host_ok_def)
qed

end

subsection \<open>The stream fields of a link\<close>

text \<open>A field of a link-made server is absent or a non-empty text.\<close>

fun text_field :: "json option \<Rightarrow> jstring option" where
  "text_field (Some (JStr t)) = Some t"
| "text_field _ = None"

definition stream_params :: "server \<Rightarrow> (jstring \<times> jstring option) list" where
  "stream_params s =
     [(js ''type'', text_field (Some (ps_network s))), (js ''security'', Some (ps_security s)),
      (js ''sni'', text_field (ps_sni s)), (js ''fp'', text_field (ps_fingerprint s)),
      (js ''alpn'', map_option (join (js '','')) (ps_alpn s)), (js ''pbk'', ps_publicKey s),
      (js ''sid'', ps_shortId s), (js ''spx'', ps_spiderX s), (js ''path'', text_field (ps_path s)),
      (js ''host'', text_field (ps_host s)), (js ''serviceName'', text_field (ps_serviceName s)),
      (js ''headerType'', text_field (ps_headerType s)), (js ''flow'', ps_flow s)]"

definition ne_text :: "(jstring \<Rightarrow> bool) \<Rightarrow> jstring option \<Rightarrow> bool" where
  "ne_text ok t \<longleftrightarrow> (case t of None \<Rightarrow> True | Some s \<Rightarrow> s \<noteq> [] \<and> ok s)"

definition is_text :: "json option \<Rightarrow> bool" where
  "is_text v \<longleftrightarrow> v = map_option JStr (text_field v)"

definition alpn_ok :: "jstring list option \<Rightarrow> bool" where
  "alpn_ok a \<longleftrightarrow> (case a of None \<Rightarrow> True | Some ps \<Rightarrow> ps \<noteq> []
     \<and> (\<forall>p \<in> set ps. p \<noteq> [] \<and> trim p = p \<and> ch (CHR '','') \<notin> set p))"

definition stream_ok :: "(jstring \<Rightarrow> bool) \<Rightarrow> server \<Rightarrow> bool" where
  "stream_ok ok s \<longleftrightarrow> is_text (Some (ps_network s)) \<and> (\<forall>v \<in> {ps_sni s, ps_fingerprint s, ps_path s,
       ps_host s, ps_serviceName s, ps_headerType s}. is_text v)
     \<and> alpn_ok (ps_alpn s) \<and> (\<forall>(k, v) \<in> set (stream_params s). ok k \<and> ne_text ok v)"

lemma splitCsv_join:
  assumes "alpn_ok a"
  shows "splitCsv (map_option (join (js '','')) a) = a"
proof (cases a)
  case None
  then show ?thesis by (simp add: splitCsv_def)
next
  case (Some ps)
  then have ps: "ps \<noteq> []" "\<forall>p \<in> set ps. p \<noteq> [] \<and> trim p = p \<and> ch (CHR '','') \<notin> set p"
    using assms by (auto simp: alpn_ok_def)
  then have "join (js '','') ps \<noteq> []" by (cases ps) (auto simp: join_Cons)
  moreover have "split_on (ch (CHR '','')) (join (js '','') ps) = ps"
    using split_on_join [of ps "ch (CHR '','')"] ps by simp
  moreover have "map trim ps = ps" "filter (\<lambda>p. p \<noteq> []) ps = ps" using ps(2)
    by (simp_all add: map_idI filter_id_conv)
  ultimately show ?thesis using Some ps(1) by (simp add: splitCsv_def)
qed

lemma stream_keys: "distinct (map fst (stream_params s))"
  "js ''encryption'' \<notin> fst ` set (stream_params s)" "js ''peer'' \<notin> fst ` set (stream_params s)"
  "js ''__proto__'' \<notin> fst ` set (stream_params s)"
  by (simp_all add: stream_params_def)

lemma str_or_undef_ne: "ne_text ok v \<Longrightarrow> str_or_undef v = v"
  by (cases v) (auto simp: ne_text_def)

lemma stream_lookup:
  "map_of (stream_params s @ ps) (js ''type'') = Some (text_field (Some (ps_network s)))"
  "map_of (stream_params s @ ps) (js ''security'') = Some (Some (ps_security s))"
  "map_of (stream_params s @ ps) (js ''sni'') = Some (text_field (ps_sni s))"
  "map_of (stream_params s @ ps) (js ''fp'') = Some (text_field (ps_fingerprint s))"
  "map_of (stream_params s @ ps) (js ''alpn'') = Some (map_option (join (js '','')) (ps_alpn s))"
  "map_of (stream_params s @ ps) (js ''pbk'') = Some (ps_publicKey s)"
  "map_of (stream_params s @ ps) (js ''sid'') = Some (ps_shortId s)"
  "map_of (stream_params s @ ps) (js ''spx'') = Some (ps_spiderX s)"
  "map_of (stream_params s @ ps) (js ''path'') = Some (text_field (ps_path s))"
  "map_of (stream_params s @ ps) (js ''host'') = Some (text_field (ps_host s))"
  "map_of (stream_params s @ ps) (js ''serviceName'') = Some (text_field (ps_serviceName s))"
  "map_of (stream_params s @ ps) (js ''headerType'') = Some (text_field (ps_headerType s))"
  "map_of (stream_params s @ ps) (js ''flow'') = Some (ps_flow s)"
  "map_of (stream_params s @ ps) (js ''peer'') = map_of ps (js ''peer'')"
  "map_of (stream_params s @ ps) (js ''encryption'') = map_of ps (js ''encryption'')"
  by (simp_all add: stream_params_def js_inject del: js_Cons)

text \<open>The spread of the stream fields over a server that differs in nothing else.\<close>

lemma streamFromQuery_params:
  assumes ok: "stream_ok ok s"
    and ps: "distinct (map fst (stream_params s @ ps))" "map_of ps (js ''peer'') = None"
  shows "streamFromQuery (map_of (params (stream_params s @ ps))) d s = s"
proof -
  have ne: "ne_text ok v" if "(k, v) \<in> set (stream_params s)" for k v
    using ok that by (auto simp: stream_ok_def)
  have t: "map_option JStr (text_field v) = v" if "is_text v" for v
    using that by (simp add: is_text_def)
  obtain net where net: "ps_network s = JStr net" "net \<noteq> []"
    using ok ne [of "js ''type''" "text_field (Some (ps_network s))"]
    by (cases "ps_network s") (auto simp: stream_ok_def is_text_def stream_params_def ne_text_def)
  have sec: "ps_security s \<noteq> []"
    using ne [of "js ''security''" "Some (ps_security s)"] by (simp add: stream_params_def ne_text_def)
  have u: "str_or_undef v = v" if "(k, v) \<in> set (stream_params s)" for k v
    using ne [OF that] by (rule str_or_undef_ne)
  have f: "str_or_undef (text_field (ps_sni s)) = text_field (ps_sni s)"
    "str_or_undef (text_field (ps_fingerprint s)) = text_field (ps_fingerprint s)"
    "str_or_undef (ps_publicKey s) = ps_publicKey s" "str_or_undef (ps_shortId s) = ps_shortId s"
    "str_or_undef (ps_spiderX s) = ps_spiderX s"
    "str_or_undef (text_field (ps_path s)) = text_field (ps_path s)"
    "str_or_undef (text_field (ps_host s)) = text_field (ps_host s)"
    "str_or_undef (text_field (ps_serviceName s)) = text_field (ps_serviceName s)"
    "str_or_undef (text_field (ps_headerType s)) = text_field (ps_headerType s)"
    "str_or_undef (ps_flow s) = ps_flow s"
    by (rule u, unfold stream_params_def, simp only: list.set insert_iff, blast)+
  have g: "map_option JStr (text_field (ps_sni s)) = ps_sni s"
    "map_option JStr (text_field (ps_fingerprint s)) = ps_fingerprint s"
    "map_option JStr (text_field (ps_path s)) = ps_path s"
    "map_option JStr (text_field (ps_host s)) = ps_host s"
    "map_option JStr (text_field (ps_serviceName s)) = ps_serviceName s"
    "map_option JStr (text_field (ps_headerType s)) = ps_headerType s"
    using ok by (auto intro!: t simp: stream_ok_def)
  have a: "splitCsv (map_option (join (js '','')) (ps_alpn s)) = ps_alpn s"
    using ok by (intro splitCsv_join) (simp add: stream_ok_def)
  have "streamFromQuery (map_of (params (stream_params s @ ps))) d s = s\<lparr>ps_network := JStr net,
      ps_sni := (case ps_sni s of None \<Rightarrow> None | Some v \<Rightarrow> Some v)\<rparr>"
    unfolding streamFromQuery_def Let_def map_of_params [OF ps(1)] stream_lookup ps(2) option.case f g a
    using net sec by (simp cong: option.case_cong)
  also have "(case ps_sni s of None \<Rightarrow> None | Some v \<Rightarrow> Some v) = ps_sni s" by (cases "ps_sni s") auto
  finally show ?thesis using net by simp
qed

lemma streamFromQuery_base:
  assumes "ps_protocol s0 = ps_protocol s" "ps_tag s0 = ps_tag s" "ps_address s0 = ps_address s"
    "ps_port s0 = ps_port s" "ps_id s0 = ps_id s" "ps_password s0 = ps_password s"
    "ps_method s0 = ps_method s" "ps_alterId s0 = ps_alterId s" "ps_encryption s0 = ps_encryption s"
    "ps_raw s0 = ps_raw s"
  shows "streamFromQuery q d s0 = streamFromQuery q d s"
  using assms by (cases s0; cases s) (simp add: streamFromQuery_def Let_def)

subsection \<open>Scheme and white space\<close>

lemma index_of_sep: "c \<notin> set a \<Longrightarrow> index_of (c # p) (a @ (c # p) @ b) = Some (length a)"
  by (induction a) auto

lemma trim_around:
  assumes "\<forall>c \<in> set u. is_ws c" "\<forall>c \<in> set w. is_ws c" "t \<noteq> []" "\<not> is_ws (hd t)" "\<not> is_ws (last t)"
  shows "trim (u @ t @ w) = t"
proof -
  have "dropWhile is_ws (u @ t @ w) = t @ w"
    using assms by (intro dropWhile_append_stop) auto
  moreover have "dropWhile is_ws (rev w @ rev t) = rev t"
    using assms by (intro dropWhile_append_stop) (auto simp: hd_rev)
  ultimately show ?thesis by (simp add: trim_def)
qed

text \<open>A link with its scheme in any letter case, white space around it.\<close>

lemma to_lower_colon: "to_lower_cu c = 0x3A \<longleftrightarrow> c = 0x3A"
  by (auto simp: to_lower_cu_def word_le_nat_alt word_unat_eq_iff unat_word_ariths)

lemma parseShareLink_scheme:
  assumes "\<forall>c \<in> set u. is_ws c" "\<forall>c \<in> set w. is_ws c"
    and "sch \<noteq> []" "\<not> is_ws (hd sch)" "ch (CHR '':'') \<notin> set sch" "body \<noteq> []" "\<not> is_ws (last body)"
  shows "parseShareLink (u @ (sch @ js ''://'' @ body) @ w) =
    (case parse_scheme (to_lower sch) body (sch @ js ''://'' @ body) of Inr r \<Rightarrow> r | Inl _ \<Rightarrow> None)"
proof -
  have "trim (u @ (sch @ js ''://'' @ body) @ w) = sch @ js ''://'' @ body"
    using assms by (intro trim_around) auto
  moreover have "index_of (js ''://'') (sch @ js ''://'' @ body) = Some (length sch)"
    using index_of_sep [OF assms(5), of "js ''//''" body] by simp
  ultimately show ?thesis by (simp add: parseShareLink_def)
qed

subsection \<open>\<open>vless\<close> and \<open>trojan\<close> links\<close>

fun json_text :: "json \<Rightarrow> jstring" where
  "json_text (JStr t) = t"
| "json_text _ = []"

text \<open>Tag, address and port a link can carry.\<close>

definition link_ok :: "(jstring \<Rightarrow> bool) \<Rightarrow> nat \<Rightarrow> server \<Rightarrow> bool" where
  "link_ok ok n s \<longleftrightarrow> ps_tag s = JStr (json_text (ps_tag s)) \<and> ne_text ok (Some (json_text (ps_tag s)))
     \<and> ps_address s = JStr (json_text (ps_address s)) \<and> host_ok (json_text (ps_address s))
     \<and> 0 < n \<and> n < 2 ^ 53 \<and> ps_port s = Fin (of_nat n) \<and> ps_method s = None \<and> ps_alterId s = None"

definition vless_params :: "server \<Rightarrow> (jstring \<times> jstring option) list" where
  "vless_params s = stream_params s @ [(js ''encryption'', text_field (ps_encryption s))]"

definition vless_body :: "(jstring \<Rightarrow> jstring) \<Rightarrow> nat \<Rightarrow> jstring \<Rightarrow> server \<Rightarrow> jstring" where
  "vless_body enc n path s = authority_text enc (json_text (the (ps_id s))) (json_text (ps_address s)) n
     path (params (vless_params s)) (json_text (ps_tag s))"

definition vless_ok :: "(jstring \<Rightarrow> bool) \<Rightarrow> nat \<Rightarrow> server \<Rightarrow> bool" where
  "vless_ok ok n s \<longleftrightarrow> ps_protocol s = Vless \<and> stream_ok ok s \<and> link_ok ok n s \<and> ps_password s = None
     \<and> is_text (ps_id s) \<and> ps_id s \<noteq> None \<and> ne_text ok (text_field (ps_id s))
     \<and> is_text (ps_encryption s) \<and> ps_encryption s \<noteq> None \<and> ne_text ok (text_field (ps_encryption s))
     \<and> ok (js ''encryption'')"

definition trojan_body :: "(jstring \<Rightarrow> jstring) \<Rightarrow> nat \<Rightarrow> jstring \<Rightarrow> server \<Rightarrow> jstring" where
  "trojan_body enc n path s = authority_text enc (the (ps_password s)) (json_text (ps_address s)) n
     path (params (stream_params s)) (json_text (ps_tag s))"

definition trojan_ok :: "(jstring \<Rightarrow> bool) \<Rightarrow> nat \<Rightarrow> server \<Rightarrow> bool" where
  "trojan_ok ok n s \<longleftrightarrow> ps_protocol s = Trojan \<and> stream_ok ok s \<and> link_ok ok n s \<and> ps_id s = None
     \<and> ps_encryption s = None \<and> ps_password s \<noteq> None \<and> ne_text ok (ps_password s)"

lemma params_ok:
  assumes "\<forall>(k, v) \<in> set ps. ok k \<and> ne_text ok v" "js ''__proto__'' \<notin> fst ` set ps"
  shows "\<forall>(k, v) \<in> set (params ps). ok k \<and> ok v \<and> k \<noteq> js ''__proto__''"
  using assms
  by (induction ps)
    (auto simp: params_def List.map_filter_simps ne_text_def simp del: js_Cons split: option.splits)

context component_encoder
begin

lemma parseVless_body:
  assumes s: "vless_ok ok n s" and path: "path_ok path" and raw: "ps_raw s = raw"
  shows "parseVless (vless_body enc n path s) raw = Some s"
proof -
  obtain u e h t where f: "ps_id s = Some (JStr u)" "u \<noteq> []" "ok u" "ps_encryption s = Some (JStr e)" "e \<noteq> []"
    "ps_address s = JStr h" "host_ok h" "ps_tag s = JStr t" "t \<noteq> []" "ok t"
    using s by (cases "ps_id s"; cases "ps_encryption s")
      (auto simp: vless_ok_def link_ok_def is_text_def ne_text_def split: option.splits)
  have n: "0 < n" "n < 2 ^ 53" "ps_port s = Fin (of_nat n)" "ps_method s = None" "ps_alterId s = None"
    "ps_password s = None" "ps_protocol s = Vless" and st: "stream_ok ok s"
    using s by (simp_all add: vless_ok_def link_ok_def)
  have ks: "distinct (map fst (vless_params s))"
    using stream_keys [of s] by (simp add: vless_params_def del: js_Cons)
  have okps: "\<forall>(k, v) \<in> set (vless_params s). ok k \<and> ne_text ok v"
    using s st by (auto simp: vless_params_def vless_ok_def stream_ok_def simp del: js_Cons)
  have "js ''__proto__'' \<notin> fst ` set (vless_params s)"
    using stream_keys(4) [of s] by (simp add: vless_params_def js_inject del: js_Cons)
  from splitAuthorityLink_text [OF f(3) f(7) n(2) path f(10) params_ok [OF okps this] params_distinct [OF ks]]
  have au: "splitAuthorityLink (vless_body enc n path s) = Some \<lparr>au_userinfo = enc u, au_host = h,
      au_port = Fin (of_nat n), au_query = map_of (params (vless_params s)), au_fragment = t\<rparr>"
    using f by (simp add: vless_body_def)
  have enc_q: "map_of (params (vless_params s)) (js ''encryption'') = Some e"
    unfolding map_of_params [OF ks] unfolding vless_params_def stream_lookup using f by simp
  have stream: "streamFromQuery (map_of (params (vless_params s))) d s = s" for d
    using streamFromQuery_params [OF st, of "[(js ''encryption'', text_field (ps_encryption s))]"] ks
    by (simp add: vless_params_def js_inject del: js_Cons)
  have "parseVless (vless_body enc n path s) raw = Some (streamFromQuery (map_of (params (vless_params s)))
      (js ''none'') ((server_of Vless (JStr t) (JStr h) (Fin (of_nat n)) raw)
        \<lparr>ps_id := Some (JStr u), ps_encryption := Some (JStr e)\<rparr>))"
    unfolding parseVless_def au option.case authority.simps enc_q
    using non_empty [OF f(3,2)] n f by (simp add: decodes)
  also have "\<dots> = Some (streamFromQuery (map_of (params (vless_params s))) (js ''none'') s)"
    by (rule arg_cong [where f = Some], rule streamFromQuery_base)
      (use n f raw in \<open>simp_all add: server_of_def\<close>)
  finally show ?thesis by (simp add: stream)
qed

lemma parseTrojan_body:
  assumes s: "trojan_ok ok n s" and path: "path_ok path" and raw: "ps_raw s = raw"
  shows "parseTrojan (trojan_body enc n path s) raw = Some s"
proof -
  obtain u h t where f: "ps_password s = Some u" "u \<noteq> []" "ok u"
    "ps_address s = JStr h" "host_ok h" "ps_tag s = JStr t" "t \<noteq> []" "ok t"
    using s by (cases "ps_password s")
      (auto simp: trojan_ok_def link_ok_def is_text_def ne_text_def split: option.splits)
  have n: "0 < n" "n < 2 ^ 53" "ps_port s = Fin (of_nat n)" "ps_method s = None" "ps_alterId s = None"
    "ps_id s = None" "ps_encryption s = None" "ps_protocol s = Trojan" and st: "stream_ok ok s"
    using s by (simp_all add: trojan_ok_def link_ok_def)
  have okps: "\<forall>(k, v) \<in> set (stream_params s). ok k \<and> ne_text ok v"
    using st by (auto simp: stream_ok_def simp del: js_Cons)
  from splitAuthorityLink_text [OF f(3) f(5) n(2) path f(8) params_ok [OF okps stream_keys(4)]
      params_distinct [OF stream_keys(1)]]
  have au: "splitAuthorityLink (trojan_body enc n path s) = Some \<lparr>au_userinfo = enc u, au_host = h,
      au_port = Fin (of_nat n), au_query = map_of (params (stream_params s)), au_fragment = t\<rparr>"
    using f by (simp add: trojan_body_def)
  have stream: "streamFromQuery (map_of (params (stream_params s))) d s = s" for d
    using streamFromQuery_params [OF st, of "[]"] stream_keys by (simp del: js_Cons)
  have "parseTrojan (trojan_body enc n path s) raw = Some (streamFromQuery (map_of (params (stream_params s)))
      (js ''tls'') ((server_of Trojan (JStr t) (JStr h) (Fin (of_nat n)) raw)
        \<lparr>ps_password := Some u\<rparr>))"
    unfolding parseTrojan_def au option.case authority.simps
    using non_empty [OF f(3,2)] n f by (simp add: decodes)
  also have "\<dots> = Some (streamFromQuery (map_of (params (stream_params s))) (js ''tls'') s)"
    by (rule arg_cong [where f = Some], rule streamFromQuery_base)
      (use n f raw in \<open>simp_all add: server_of_def\<close>)
  finally show ?thesis by (simp add: stream)
qed

end

subsection \<open>Scheme, body and white space together\<close>

definition link_text :: "jstring \<Rightarrow> jstring \<Rightarrow> jstring" where
  "link_text sch body = sch @ js ''://'' @ body"

definition spaced :: "jstring \<Rightarrow> jstring \<Rightarrow> jstring \<Rightarrow> jstring" where
  "spaced u t w = filter is_ws u @ t @ filter is_ws w"

lemma to_lower_scheme:
  assumes "to_lower sch = js s" "js s \<noteq> []" "ch (CHR '':'') \<notin> set (js s)" "\<forall>c \<in> set (js s). \<not> is_ws c"
  shows "sch \<noteq> []" "\<not> is_ws (hd sch)" "ch (CHR '':'') \<notin> set sch"
proof -
  have ws: "is_ws (to_lower_cu c)" if "is_ws c" for c
  proof -
    have "to_lower_cu c = c" using that by (auto simp: to_lower_cu_def is_ws_def word_le_nat_alt)
    with that show ?thesis by simp
  qed
  have m: "to_lower_cu c \<in> set (js s)" if "c \<in> set sch" for c
    using that by (simp flip: assms(1) add: to_lower_def)
  show "sch \<noteq> []" using assms(1,2) by (metis to_lower_simps(1))
  then show "\<not> is_ws (hd sch)" using ws m [of "hd sch"] assms(4) by auto
  show "ch (CHR '':'') \<notin> set sch" proof
    assume "ch (CHR '':'') \<in> set sch"
    from m [OF this] assms(3) show False by (simp add: to_lower_cu_def)
  qed
qed

lemma parseShareLink_text:
  assumes "to_lower sch = js s" "js s \<noteq> []" "ch (CHR '':'') \<notin> set (js s)" "\<forall>c \<in> set (js s). \<not> is_ws c"
    and "body \<noteq> []" "\<not> is_ws (last body)"
  shows "parseShareLink (spaced u (link_text sch body) w) =
    (case parse_scheme (js s) body (link_text sch body) of Inr r \<Rightarrow> r | Inl _ \<Rightarrow> None)"
proof -
  have "\<forall>c \<in> set (filter is_ws u). is_ws c" "\<forall>c \<in> set (filter is_ws w). is_ws c" by simp_all
  from parseShareLink_scheme [OF this to_lower_scheme [OF assms(1-4)] assms(5,6)]
  show ?thesis unfolding link_text_def spaced_def assms(1) .
qed

lemma authority_text_last: "ok t \<Longrightarrow> enc t \<noteq> [] \<Longrightarrow> link_safe (enc t) \<Longrightarrow>
  authority_text enc ui h n path kvs t \<noteq> [] \<and> \<not> is_ws (last (authority_text enc ui h n path kvs t))"
  by (simp add: authority_text_def link_safe_def)

context component_encoder
begin

lemma parse_vless_link:
  assumes "vless_ok ok n s" "path_ok path" "to_lower sch = js ''vless''"
    "ps_raw s = link_text sch (vless_body enc n path s)"
  shows "parseShareLink (spaced u (link_text sch (vless_body enc n path s)) w) = Some s"
proof -
  have t: "ok (json_text (ps_tag s))" "json_text (ps_tag s) \<noteq> []"
    using assms(1) by (simp_all add: vless_ok_def link_ok_def ne_text_def)
  have "vless_body enc n path s \<noteq> [] \<and> \<not> is_ws (last (vless_body enc n path s))"
    unfolding vless_body_def by (rule authority_text_last) (use t non_empty safe in auto)
  then have "parseShareLink (spaced u (link_text sch (vless_body enc n path s)) w) =
    (case parse_scheme (js ''vless'') (vless_body enc n path s) (link_text sch (vless_body enc n path s)) of
       Inr r \<Rightarrow> r | Inl _ \<Rightarrow> None)"
    by (intro parseShareLink_text [OF assms(3)]) (simp_all add: is_ws_def)
  then show ?thesis
    using parseVless_body [OF assms(1,2,4)] by (simp add: parse_scheme_def del: js_Cons)
qed

lemma parse_trojan_link:
  assumes "trojan_ok ok n s" "path_ok path" "to_lower sch = js ''trojan''"
    "ps_raw s = link_text sch (trojan_body enc n path s)"
  shows "parseShareLink (spaced u (link_text sch (trojan_body enc n path s)) w) = Some s"
proof -
  have t: "ok (json_text (ps_tag s))" "json_text (ps_tag s) \<noteq> []"
    using assms(1) by (simp_all add: trojan_ok_def link_ok_def ne_text_def)
  have "trojan_body enc n path s \<noteq> [] \<and> \<not> is_ws (last (trojan_body enc n path s))"
    unfolding trojan_body_def by (rule authority_text_last) (use t non_empty safe in auto)
  then have "parseShareLink (spaced u (link_text sch (trojan_body enc n path s)) w) =
    (case parse_scheme (js ''trojan'') (trojan_body enc n path s) (link_text sch (trojan_body enc n path s)) of
       Inr r \<Rightarrow> r | Inl _ \<Rightarrow> None)"
    by (intro parseShareLink_text [OF assms(3)]) (simp_all add: is_ws_def)
  then show ?thesis
    using parseTrojan_body [OF assms(1,2,4)] by (simp add: parse_scheme_def js_inject del: js_Cons)
qed

end

text \<open>C18: \<open>vless\<close> round trip: \<open>parseShareLink\<close> returns exactly the server a link was written
  from, field by field, IPv6 address, transport, TLS and REALITY parameters and non-ASCII name
  included, whatever the letter case of the scheme, the path after the port and the white space
  around the link.\<close>

theorem vless_roundtrip:
  "vless_ok wf16 n s \<Longrightarrow> path_ok path \<Longrightarrow> to_lower sch = js ''vless'' \<Longrightarrow>
   ps_raw s = link_text sch (vless_body encodeURIComponent n path s) \<Longrightarrow>
   parseShareLink (spaced u (link_text sch (vless_body encodeURIComponent n path s)) w) = Some s"
  by (rule uri.parse_vless_link)

definition sample_server :: "protocol \<Rightarrow> jstring \<Rightarrow> server" where
  "sample_server p raw = (server_of p (JStr (js ''A B'' @ [0xE9])) (JStr (js ''::1'')) (Fin (of_nat 443)) raw)
     \<lparr>ps_network := JStr (js ''ws''), ps_security := js ''tls'', ps_sni := Some (JStr (js ''a.b'')),
      ps_alpn := Some [js ''h2'', js ''h3''], ps_path := Some (JStr (js ''/p?x''))\<rparr>"

definition sample_vless :: "jstring \<Rightarrow> server" where
  "sample_vless raw = (sample_server Vless raw)
     \<lparr>ps_id := Some (JStr (js ''u@1'')), ps_encryption := Some (JStr (js ''none''))\<rparr>"

definition sample_vless_link :: jstring where
  "sample_vless_link = link_text (js ''VLESS'') (vless_body encodeURIComponent 443 (js ''/x'') (sample_vless []))"

theorem vless_roundtrip_witness:
  "parseShareLink (spaced (js '' '') sample_vless_link []) = Some (sample_vless sample_vless_link)"
proof -
  have l: "link_text (js ''VLESS'') (vless_body encodeURIComponent 443 (js ''/x'') (sample_vless r))
      = sample_vless_link" for r
    unfolding sample_vless_link_def
    by (rule arg_cong [where f = "link_text (js ''VLESS'')"]) (simp add: vless_body_def vless_params_def stream_params_def sample_vless_def sample_server_def server_of_def)
  have "vless_ok wf16 443 (sample_vless r)" for r
    by (simp add: vless_ok_def stream_ok_def stream_params_def sample_vless_def sample_server_def server_of_def
        link_ok_def host_ok_def link_safe_def delimiters_def is_ws_def ne_text_def is_text_def alpn_ok_def
        trim_def is_high_def is_low_def join_Cons)
  moreover have "path_ok (js ''/x'')" by (simp add: path_ok_def)
  moreover have "to_lower (js ''VLESS'') = js ''vless''" by (simp add: to_lower_cu_def)
  moreover have raw: "ps_raw (sample_vless r) = r" for r
    by (simp add: sample_vless_def sample_server_def server_of_def)
  ultimately have "parseShareLink (spaced (js '' '') (link_text (js ''VLESS'')
      (vless_body encodeURIComponent 443 (js ''/x'') (sample_vless sample_vless_link))) [])
    = Some (sample_vless sample_vless_link)"
    by (intro vless_roundtrip) (simp_all only: raw l)
  then show ?thesis by (simp only: l)
qed

text \<open>\<open>trojan\<close> round trip, with the same freedom of scheme, path and white space; the password
  comes back whatever characters it has.\<close>

theorem trojan_roundtrip:
  "trojan_ok wf16 n s \<Longrightarrow> path_ok path \<Longrightarrow> to_lower sch = js ''trojan'' \<Longrightarrow>
   ps_raw s = link_text sch (trojan_body encodeURIComponent n path s) \<Longrightarrow>
   parseShareLink (spaced u (link_text sch (trojan_body encodeURIComponent n path s)) w) = Some s"
  by (rule uri.parse_trojan_link)

definition sample_trojan :: "jstring \<Rightarrow> server" where
  "sample_trojan raw = (sample_server Trojan raw)\<lparr>ps_password := Some (js ''p@ss#:?&=1'')\<rparr>"

definition sample_trojan_link :: jstring where
  "sample_trojan_link = link_text (js ''trojan'') (trojan_body encodeURIComponent 443 [] (sample_trojan []))"

theorem trojan_roundtrip_witness:
  "parseShareLink (spaced [] sample_trojan_link (js '' '')) = Some (sample_trojan sample_trojan_link)"
proof -
  have l: "link_text (js ''trojan'') (trojan_body encodeURIComponent 443 [] (sample_trojan r))
      = sample_trojan_link" for r
    unfolding sample_trojan_link_def
    by (rule arg_cong [where f = "link_text (js ''trojan'')"]) (simp add: trojan_body_def stream_params_def
        sample_trojan_def sample_server_def server_of_def)
  have "trojan_ok wf16 443 (sample_trojan r)" for r
    by (simp add: trojan_ok_def stream_ok_def stream_params_def sample_trojan_def sample_server_def server_of_def
        link_ok_def host_ok_def link_safe_def delimiters_def is_ws_def ne_text_def is_text_def alpn_ok_def
        trim_def is_high_def is_low_def join_Cons)
  moreover have "path_ok []" by (simp add: path_ok_def)
  moreover have "to_lower (js ''trojan'') = js ''trojan''" by (simp add: to_lower_cu_def)
  moreover have raw: "ps_raw (sample_trojan r) = r" for r
    by (simp add: sample_trojan_def sample_server_def server_of_def)
  ultimately have "parseShareLink (spaced [] (link_text (js ''trojan'')
      (trojan_body encodeURIComponent 443 [] (sample_trojan sample_trojan_link))) (js '' ''))
    = Some (sample_trojan sample_trojan_link)"
    by (intro trojan_roundtrip) (simp_all only: raw l)
  then show ?thesis by (simp only: l)
qed

end
