(* ===== verification/LinkSound.thy ===== *)
theory LinkSound
  imports LinkText
begin

section \<open>What every parsed link satisfies\<close>

text \<open>
  The invariant of \<open>parseShareLink\<close> on arbitrary input: whatever text it is given, a server it
  returns has an address, a usable port, a name, the credentials of its protocol and the trimmed
  link itself, and reading that stored link again gives the same server.
\<close>

definition server_wf :: "server \<Rightarrow> bool" where
  "server_wf s \<longleftrightarrow> truthy (ps_address s) \<and> is_finite (ps_port s) \<and> ps_port s \<noteq> Fin 0
     \<and> truthy (ps_tag s) \<and> ps_alpn s \<noteq> Some []
     \<and> (case ps_protocol s of
          Vless \<Rightarrow> (\<exists>id. ps_id s = Some (JStr id) \<and> id \<noteq> []) \<and> ps_password s = None
        | Trojan \<Rightarrow> (\<exists>p. ps_password s = Some p \<and> p \<noteq> []) \<and> ps_id s = None
        | Vmess \<Rightarrow> ps_alterId s \<noteq> None \<and> ps_encryption s \<noteq> None
            \<and> ps_security s \<in> {js ''none'', js ''tls'', js ''reality''} \<and> ps_password s = None
        | Shadowsocks \<Rightarrow> ps_method s \<noteq> None \<and> ps_password s \<noteq> None \<and> ps_security s = js ''none'')"

lemma toPort_finite: "is_finite (toPort v)"
  by (auto simp: toPort_def toNumber_def Let_def split: option.splits json.splits)

lemma splitHostPort_finite: "is_finite (snd (splitHostPort s))"
  by (auto simp: splitHostPort_def Let_def toPort_finite split: option.splits prod.splits)

lemma utf8_units_ne: "utf8_units bs = Some us \<Longrightarrow> us \<noteq> []"
  by (induction bs rule: utf8_units.induct) (auto simp: Let_def split_pair_def split: if_splits)

lemma decodeURIComponent_ne: "s \<noteq> [] \<Longrightarrow> decodeURIComponent s = Inr t \<Longrightarrow> t \<noteq> []"
  by (cases s) (auto simp: bindE_eq_Inr split: if_splits option.splits prod.splits dest: utf8_units_ne)

lemma decodeComponentSafe_ne: "s \<noteq> [] \<Longrightarrow> decodeComponentSafe s \<noteq> []"
  by (auto simp: decodeComponentSafe_def dest: decodeURIComponent_ne split: sum.splits)

lemma splitAuthorityLink_SomeD:
  "splitAuthorityLink s = Some a \<Longrightarrow> au_host a \<noteq> [] \<and> is_finite (au_port a)"
  using splitHostPort_finite
  by (auto simp: splitAuthorityLink_def Let_def split: prod.splits if_splits) (metis snd_conv)+

lemma splitCsv_ne: "splitCsv v \<noteq> Some []"
  by (auto simp: splitCsv_def Let_def split: option.splits)

lemma fallbackTag_ne [simp]: "fallbackTag p h n \<noteq> []"
  by (simp add: fallbackTag_def)

lemma str_or_tag: "str_or (Some f) (fallbackTag p h n) \<noteq> []"
  by (cases "f = []") simp_all

lemma streamFromQuery_sel [simp]:
  "ps_protocol (streamFromQuery q d s) = ps_protocol s" "ps_tag (streamFromQuery q d s) = ps_tag s"
  "ps_address (streamFromQuery q d s) = ps_address s" "ps_port (streamFromQuery q d s) = ps_port s"
  "ps_id (streamFromQuery q d s) = ps_id s" "ps_password (streamFromQuery q d s) = ps_password s"
  "ps_raw (streamFromQuery q d s) = ps_raw s" "ps_alpn (streamFromQuery q d s) = splitCsv (q (js ''alpn''))"
  by (simp_all add: streamFromQuery_def Let_def)

lemma parseVless_wf:
  "parseVless a raw = Some s \<Longrightarrow> server_wf s \<and> ps_protocol s = Vless \<and> ps_raw s = raw"
  using splitAuthorityLink_SomeD [of a]
  by (auto simp: parseVless_def server_wf_def server_of_def splitCsv_ne str_or_tag decodeComponentSafe_ne Let_def
      split: option.splits if_splits)

lemma parseTrojan_wf:
  "parseTrojan a raw = Some s \<Longrightarrow> server_wf s \<and> ps_protocol s = Trojan \<and> ps_raw s = raw"
  using splitAuthorityLink_SomeD [of a]
  by (auto simp: parseTrojan_def server_wf_def server_of_def splitCsv_ne str_or_tag decodeComponentSafe_ne Let_def
      split: option.splits if_splits)

lemma ss_endpoint_finite: "ss_endpoint b = Some (m, p, h, n) \<Longrightarrow> is_finite n"
  using splitHostPort_finite
  by (auto simp: ss_endpoint_def split: if_splits option.splits prod.splits) (metis snd_conv)+

lemma parseShadowsocks_wf:
  "parseShadowsocks a raw = Some s \<Longrightarrow> server_wf s \<and> ps_protocol s = Shadowsocks \<and> ps_raw s = raw"
  using ss_endpoint_finite
  by (auto simp: parseShadowsocks_def server_wf_def server_of_def str_or_tag Let_def
      split: option.splits prod.splits if_splits)

lemma splitCsv_json_ne: "splitCsv_json v \<noteq> Inr (Some [])"
  by (auto simp: splitCsv_json_def splitCsv_ne split: option.splits json.splits)

lemma vmess_tag_truthy: "vmess_tag get a n = Inr t \<Longrightarrow> truthy t"
  by (auto simp: vmess_tag_def or_undef_def bindE_eq_Inr fallbackTag_def split: option.splits if_splits)

lemma vmess_server_wf:
  "vmess_server get raw = Inr (Some s) \<Longrightarrow> server_wf s \<and> ps_protocol s = Vmess \<and> ps_raw s = raw"
  using splitCsv_json_ne vmess_tag_truthy
  by (auto simp: vmess_server_def server_wf_def server_of_def toPort_finite Let_def bindE_eq_Inr simp del: js_Cons
      split: if_splits)

lemma parseVmess_wf:
  "parseVmess a raw = Inr (Some s) \<Longrightarrow> server_wf s \<and> ps_protocol s = Vmess \<and> ps_raw s = raw"
  using vmess_server_wf by (auto simp: parseVmess_def Let_def bindE_eq_Inr)

fun scheme_of :: "protocol \<Rightarrow> jstring" where
  "scheme_of Vless = js ''vless''"
| "scheme_of Vmess = js ''vmess''"
| "scheme_of Trojan = js ''trojan''"
| "scheme_of Shadowsocks = js ''ss''"

lemma parse_scheme_wf:
  "parse_scheme sch a raw = Inr (Some s) \<Longrightarrow> server_wf s \<and> sch = scheme_of (ps_protocol s) \<and> ps_raw s = raw"
  using parseVless_wf [of a raw s] parseTrojan_wf [of a raw s] parseVmess_wf [of a raw s]
    parseShadowsocks_wf [of a raw s]
  by (auto simp: parse_scheme_def simp del: js_Cons split: if_splits)

lemma parseShareLink_SomeD:
  assumes "parseShareLink uri = Some s"
  obtains i where "index_of (js ''://'') (trim uri) = Some i" "server_wf s"
    "to_lower (take i (trim uri)) = scheme_of (ps_protocol s)" "ps_raw s = trim uri"
proof -
  from assms obtain i where i: "index_of (js ''://'') (trim uri) = Some i"
    and "parse_scheme (to_lower (take i (trim uri))) (drop (i + 3) (trim uri)) (trim uri) = Inr (Some s)"
    by (auto simp: parseShareLink_def Let_def split: option.splits sum.splits)
  from parse_scheme_wf [OF this(2)] i show thesis by (intro that) auto
qed

text \<open>Evaluation of the parser on a literal.\<close>

lemma dbl_1: "dbl 1 = Fin 1"
  using dbl_nat [of 1] by simp

lemmas link_eval = parseShareLink_def parse_scheme_def parseTrojan_def splitAuthorityLink_def
  splitHostPort_def trim_def is_ws_def to_lower_cu_def cut_def cut_last_def toPort_def toNumber_def
  parseInt10_def Let_def trim_start_def is_digit_def split_sign_def with_sign_def digits_val_def
  digit_val_def dbl_1

lemma sample_trojan_parses: "parseShareLink (js '' trojan://p@h:1 '') \<noteq> None"
  by (simp add: link_eval)



text \<open>The stored \<open>raw\<close> link is a faithful copy: reading it again gives the same server.\<close>

theorem parseShareLink_raw:
  "parseShareLink uri = Some s \<Longrightarrow> parseShareLink (ps_raw s) = Some s"
proof -
  assume s: "parseShareLink uri = Some s"
  then have "ps_raw s = trim uri" by (rule parseShareLink_SomeD)
  moreover have "parseShareLink (trim uri) = parseShareLink uri" by (simp only: parseShareLink_def trim_trim)
  ultimately show ?thesis using s by simp
qed

theorem parseShareLink_raw_witness:
  "\<exists>s. parseShareLink (js '' trojan://p@h:1 '') = Some s \<and> parseShareLink (ps_raw s) = Some s"
  using sample_trojan_parses parseShareLink_raw by blast

text \<open>A port is any number: the parser does not check it against 1 to 65535.\<close>

lemma toPort_negative:
  assumes "n < 2 ^ 53"
  shows "toPort (Some (JStr (js ''-'' @ nat_digits n))) = Fin (- of_nat n)"
proof -
  have ws: "trim_start (js ''-'' @ nat_digits n) = js ''-'' @ nat_digits n"
    by (simp add: trim_start_def is_ws_def)
  have td: "takeWhile is_digit (nat_digits n) = nat_digits n"
    using nat_digits_digits by (simp add: takeWhile_eq_all_conv)
  have "dbl (of_int (- int n)) = Fin (of_int (- int n))" using assms by (intro dbl_int) simp
  then have "dbl (- of_nat n) = Fin (- of_nat n)" by simp
  then show ?thesis
    by (simp add: toPort_def toNumber_def parseInt10_def ws [simplified] split_sign_def td with_sign_def Let_def
        del: nat_digits.simps)
qed

end
