(* ===== verification/PayloadLinks.thy ===== *)
theory PayloadLinks
  imports LinkText
begin

section \<open>Links with an encoded payload: \<open>vmess\<close> and \<open>ss\<close>\<close>

text \<open>
  A \<open>vmess\<close> link is a JSON document in UTF-8 in base64: three codecs stacked.  The text
  \<open>JSON.stringify\<close> makes has no lone surrogate, so the layers fit.  An \<open>ss\<close> link has its
  credentials in base64 (SIP002), in plain text, or has everything in one base64 payload (legacy).
\<close>

subsection \<open>\<open>JSON.stringify\<close> makes well-formed text\<close>

lemma wf16_append: "wf16 a \<Longrightarrow> wf16 b \<Longrightarrow> wf16 (a @ b)"
proof (induction a rule: wf16.induct)
  case (2 c s)
  then show ?case by (cases s) (auto split: if_splits)
qed simp

lemma wf16_plain: "\<forall>c \<in> set s. \<not> is_high c \<and> \<not> is_low c \<Longrightarrow> wf16 s"
  by (induction s) auto

lemma low_not_high: "is_low c \<Longrightarrow> \<not> is_high c"
  by (auto simp: is_low_def is_high_def word_le_nat_alt)

lemma small_not_surrogate: "unat c < 0xD800 \<Longrightarrow> \<not> is_high c \<and> \<not> is_low c"
  by (auto simp: is_high_def is_low_def word_le_nat_alt)

lemma hex_cu_small: "d < 16 \<Longrightarrow> unat (hex_cu d) < 0xD800"
proof -
  have "\<forall>d \<in> set [0..<16]. unat (hex_cu d) < 0xD800" by (simp add: hex_cu_def upt_rec)
  then show "d < 16 \<Longrightarrow> unat (hex_cu d) < 0xD800" by simp
qed

lemma wf16_hex4: "wf16 (hex4 c)"
proof (rule wf16_plain, rule ballI)
  fix x assume "x \<in> set (hex4 c)"
  moreover have "unat c div 4096 < 16"
    using unsigned_less [of c, where ?'a = nat] by (simp add: less_mult_imp_div_less)
  ultimately show "\<not> is_high x \<and> \<not> is_low x"
    by (auto simp: hex4_def Let_def intro!: small_not_surrogate [THEN conjunct1]
        small_not_surrogate [THEN conjunct2] hex_cu_small)
qed

lemma wf16_quote_cu: "wf16 (quote_cu c)"
proof -
  have "wf16 (0x5C # ch (CHR ''u'') # hex4 c)"
    using wf16_hex4 [of c] by (simp add: is_high_def is_low_def)
  then show ?thesis by (auto simp: quote_cu_def is_high_def is_low_def)
qed

lemma wf16_quote: "wf16 (quote s)"
proof -
  have "wf16 (quote_body s)"
    by (induction s rule: quote_body.induct) (auto simp: low_not_high intro: wf16_append wf16_quote_cu)
  moreover have "wf16 [0x22]" by (simp add: is_high_def is_low_def)
  moreover have "quote s = [0x22] @ quote_body s @ [0x22]" by (simp add: quote_def)
  ultimately show ?thesis by (simp only: wf16_append)
qed

lemma wf16_join: "\<forall>t \<in> set ts. wf16 t \<Longrightarrow> wf16 (join (js '','') ts)"
proof (induction ts rule: induct_list012)
  case (3 x y zs)
  then show ?case
    using wf16_append [of x "js '','' @ join (js '','') (y # zs)"] wf16_append [of "js '',''" "join (js '','') (y # zs)"]
    by (simp add: is_high_def is_low_def)
qed auto

lemma is_digit_small: "is_digit c \<Longrightarrow> unat c < 0xD800"
  by (simp add: is_digit_def word_le_nat_alt)

lemma wf16_digits: "wf16 (nat_digits n)"
  using nat_digits_digits small_not_surrogate is_digit_small by (blast intro: wf16_plain)

lemma wf16_num: "safe_int x \<Longrightarrow> wf16 (num_to_string x)"
proof (erule safe_int_cases)
  fix n assume "num_to_string x = js ''-'' @ nat_digits n"
  moreover have "wf16 (js ''-'')" by (simp add: is_high_def is_low_def)
  ultimately show "wf16 (num_to_string x)" using wf16_append wf16_digits by metis
qed (simp add: wf16_digits)

lemma wf16_literals:
  "wf16 (js ''null'')" "wf16 (js ''true'')" "wf16 (js ''false'')" "wf16 (js ''['')" "wf16 (js '']'')"
  "wf16 (js ''{'')" "wf16 (js ''}'')" "wf16 (js '':'')"
  by (simp_all add: is_high_def is_low_def)

lemma wf16_stringify: "json_ok v \<Longrightarrow> wf16 (stringify v)"
proof (induction v rule: stringify.induct)
  case (5 vs)
  then have "wf16 (join (js '','') (map stringify vs))" by (intro wf16_join) auto
  then show ?case by (simp only: stringify.simps wf16_append wf16_literals)
next
  case (6 kvs)
  have "wf16 (quote (fst kv) @ js '':'' @ stringify (snd kv))" if "kv \<in> set kvs" for kv
    using 6 that by (intro wf16_append wf16_quote wf16_literals) auto
  then have "wf16 (join (js '','') (map (\<lambda>kv. quote (fst kv) @ js '':'' @ stringify (snd kv)) kvs))"
    by (intro wf16_join) auto
  then show ?case by (simp only: stringify.simps wf16_append wf16_literals)
qed (auto simp: wf16_literals wf16_num wf16_quote simp del: js_Cons)

text \<open>JSON inside UTF-8 inside base64.\<close>

interpretation vmess_payload: codec_stack stringify JSON_parse json_ok
  "\<lambda>s. b64_text url pad (utf8 s)" "\<lambda>t. Inr (base64ToString t)" wf16 for url pad
  by unfold_locales (simp_all add: b64.decodes_string wf16_stringify)

subsection \<open>\<open>vmess\<close> links\<close>

text \<open>The document a panel writes for a server; absent fields are empty strings.\<close>

definition or_empty :: "json option \<Rightarrow> json" where
  "or_empty v = coalesce v (JStr [])"

definition vmess_doc :: "server \<Rightarrow> json" where
  "vmess_doc s = JObj [(js ''v'', JStr (js ''2'')), (js ''ps'', ps_tag s), (js ''add'', ps_address s),
     (js ''port'', JNum (ps_port s)), (js ''id'', or_empty (ps_id s)),
     (js ''aid'', JNum (coalesce (ps_alterId s) (Fin 0))), (js ''scy'', or_empty (ps_encryption s)),
     (js ''net'', ps_network s), (js ''type'', or_empty (ps_headerType s)),
     (js ''host'', or_empty (ps_host s)),
     (js ''path'', or_empty (if ps_network s = JStr (js ''grpc'') then ps_serviceName s else ps_path s)),
     (js ''tls'', JStr (if ps_security s = js ''none'' then [] else ps_security s)),
     (js ''sni'', or_empty (ps_sni s)),
     (js ''alpn'', or_empty (map_option (\<lambda>a. JStr (join (js '','') a)) (ps_alpn s))),
     (js ''fp'', or_empty (ps_fingerprint s))]"

definition vmess_body :: "(u8 list \<Rightarrow> jstring) \<Rightarrow> server \<Rightarrow> jstring" where
  "vmess_body emit s = emit (utf8 (stringify (vmess_doc s)))"

definition ne_field :: "json option \<Rightarrow> bool" where
  "ne_field v \<longleftrightarrow> (case v of None \<Rightarrow> True | Some (JStr t) \<Rightarrow> t \<noteq> [] | Some _ \<Rightarrow> False)"

definition vmess_ok :: "server \<Rightarrow> bool" where
  "vmess_ok s \<longleftrightarrow> ps_protocol s = Vmess \<and> (\<forall>v \<in> {ps_tag s, ps_address s, ps_network s}. ne_field (Some v))
     \<and> (\<forall>v \<in> {ps_encryption s, ps_sni s, ps_fingerprint s, ps_path s, ps_serviceName s, ps_host s,
          ps_headerType s}. ne_field v)
     \<and> ps_encryption s \<noteq> None \<and> is_text (ps_id s) \<and> ps_id s \<noteq> None
     \<and> safe_int (ps_port s) \<and> ps_port s \<noteq> Fin 0
     \<and> ps_alterId s \<noteq> None \<and> safe_int (coalesce (ps_alterId s) NaN)
     \<and> ps_security s \<in> {js ''none'', js ''tls'', js ''reality''} \<and> alpn_ok (ps_alpn s)
     \<and> (if ps_network s = JStr (js ''grpc'') then ps_path s = None else ps_serviceName s = None)
     \<and> ps_password s = None \<and> ps_method s = None \<and> ps_flow s = None \<and> ps_publicKey s = None
     \<and> ps_shortId s = None \<and> ps_spiderX s = None"

lemma vmess_doc_ok:
  assumes "vmess_ok s"
  shows "json_ok (vmess_doc s)"
proof -
  have f: "json_ok (or_empty v)" if "ne_field v \<or> is_text v" for v
    using that by (auto simp: or_empty_def ne_field_def is_text_def coalesce_def split: option.splits json.splits)
  have g: "json_ok v" if "ne_field (Some v)" for v
    using that by (auto simp: ne_field_def split: json.splits)
  have a: "json_ok (or_empty (map_option (\<lambda>a. JStr (t a)) v))" for t :: "jstring list \<Rightarrow> jstring" and v
    by (cases v) (simp_all add: or_empty_def)
  have o: "json_ok (ps_tag s)" "json_ok (ps_address s)" "json_ok (ps_network s)"
    "json_ok (or_empty (ps_id s))" "json_ok (or_empty (ps_encryption s))" "json_ok (or_empty (ps_headerType s))"
    "json_ok (or_empty (ps_host s))" "json_ok (or_empty (ps_sni s))" "json_ok (or_empty (ps_fingerprint s))"
    "json_ok (or_empty (ps_path s))" "json_ok (or_empty (ps_serviceName s))"
    using assms by (simp_all add: vmess_ok_def f g)
  have n: "safe_int (ps_port s)" "safe_int (coalesce (ps_alterId s) (Fin 0))"
    using assms by (auto simp: vmess_ok_def)
  show ?thesis
    unfolding vmess_doc_def json_ok.simps
    using o n a [of "join (js '','')" "ps_alpn s"] by (simp add: js_inject del: js_Cons)
qed

lemma ne_field_or: "ne_field v \<Longrightarrow> or_undef (Some (or_empty v)) = v"
  by (auto simp: ne_field_def or_empty_def or_undef_def split: option.splits json.splits)

lemma vmess_doc_get:
  "get_prop (vmess_doc s) (js ''add'') = Inr (Some (ps_address s))"
  "get_prop (vmess_doc s) (js ''port'') = Inr (Some (JNum (ps_port s)))"
  "get_prop (vmess_doc s) (js ''id'') = Inr (Some (or_empty (ps_id s)))"
  "get_prop (vmess_doc s) (js ''aid'') = Inr (Some (JNum (coalesce (ps_alterId s) (Fin 0))))"
  "get_prop (vmess_doc s) (js ''scy'') = Inr (Some (or_empty (ps_encryption s)))"
  "get_prop (vmess_doc s) (js ''ps'') = Inr (Some (ps_tag s))"
  "get_prop (vmess_doc s) (js ''net'') = Inr (Some (ps_network s))"
  "get_prop (vmess_doc s) (js ''type'') = Inr (Some (or_empty (ps_headerType s)))"
  "get_prop (vmess_doc s) (js ''host'') = Inr (Some (or_empty (ps_host s)))"
  "get_prop (vmess_doc s) (js ''path'') = Inr (Some (or_empty
     (if ps_network s = JStr (js ''grpc'') then ps_serviceName s else ps_path s)))"
  "get_prop (vmess_doc s) (js ''tls'') = Inr (Some (JStr (if ps_security s = js ''none'' then [] else ps_security s)))"
  "get_prop (vmess_doc s) (js ''sni'') = Inr (Some (or_empty (ps_sni s)))"
  "get_prop (vmess_doc s) (js ''alpn'') = Inr (Some (or_empty (map_option (\<lambda>a. JStr (join (js '','') a)) (ps_alpn s))))"
  "get_prop (vmess_doc s) (js ''fp'') = Inr (Some (or_empty (ps_fingerprint s)))"
  by (simp_all add: vmess_doc_def js_inject del: js_Cons)

lemma splitCsv_json_alpn:
  assumes "alpn_ok a"
  shows "splitCsv_json (Some (or_empty (map_option (\<lambda>a. JStr (join (js '','') a)) a))) = Inr a"
proof (cases a)
  case None
  then show ?thesis by (simp add: splitCsv_json_def or_empty_def or_undef_def)
next
  case (Some ps)
  with assms have "join (js '','') ps \<noteq> []" by (cases ps) (auto simp: alpn_ok_def join_Cons)
  with Some splitCsv_join [OF assms] show ?thesis
    by (simp add: splitCsv_json_def or_empty_def or_undef_def)
qed

lemma js_Nil_eq: "[] = js s \<longleftrightarrow> s = []"
  by (simp add: js_def)

lemma vmess_server_doc:
  assumes ok: "vmess_ok s" and raw: "ps_raw s = raw"
  shows "vmess_server (\<lambda>k. projr (get_prop (vmess_doc s) (js k))) raw = Inr (Some s)"
proof -
  obtain tag addr net where t: "ps_tag s = JStr tag" "ps_address s = JStr addr" "ps_network s = JStr net"
    "tag \<noteq> []" "addr \<noteq> []" "net \<noteq> []"
    using ok by (cases "ps_tag s"; cases "ps_address s"; cases "ps_network s") (simp_all add: vmess_ok_def ne_field_def)
  obtain scy where e: "ps_encryption s = Some (JStr scy)" "scy \<noteq> []"
    using ok by (auto simp: vmess_ok_def ne_field_def split: json.splits)
  obtain i a where i: "ps_id s = Some i" "ps_alterId s = Some a" "is_finite a"
    using ok safe_int_finite by (auto simp: vmess_ok_def)
  have port: "toPort (Some (JNum (ps_port s))) = ps_port s" "ps_port s \<noteq> Fin 0"
    using ok safe_int_finite by (auto simp: vmess_ok_def toPort_def toNumber_def)
  note fields = ne_field_or [of "ps_sni s"] ne_field_or [of "ps_fingerprint s"] ne_field_or [of "ps_host s"]
    ne_field_or [of "ps_headerType s"] ne_field_or [of "ps_path s"] ne_field_or [of "ps_serviceName s"]
  have tag: "vmess_tag (\<lambda>k. projr (get_prop (vmess_doc s) (js k))) (JStr addr) (ps_port s) = Inr (JStr tag)"
    unfolding vmess_tag_def vmess_doc_get t using t(4) by (simp add: or_undef_def)
  have sec: "ps_security s = js ''none'' \<or> ps_security s = js ''tls'' \<or> ps_security s = js ''reality''"
    using ok by (simp add: vmess_ok_def)
  have grpc: "ps_path s = None" if "net = js ''grpc''" using ok t(3) that by (simp add: vmess_ok_def)
  have other: "ps_serviceName s = None" if "net \<noteq> js ''grpc''" using ok t(3) that by (simp add: vmess_ok_def)
  have rest: "ps_protocol s = Vmess" "alpn_ok (ps_alpn s)" "ps_password s = None" "ps_method s = None"
    "ps_flow s = None" "ps_publicKey s = None" "ps_shortId s = None" "ps_spiderX s = None"
    "or_undef (Some (or_empty (ps_sni s))) = ps_sni s" "or_undef (Some (or_empty (ps_host s))) = ps_host s"
    "or_undef (Some (or_empty (ps_fingerprint s))) = ps_fingerprint s"
    "or_undef (Some (or_empty (ps_headerType s))) = ps_headerType s"
    "or_undef (Some (or_empty (ps_path s))) = ps_path s"
    "or_undef (Some (or_empty (ps_serviceName s))) = ps_serviceName s"
    using ok by (simp_all add: vmess_ok_def ne_field_or)
  have tls: "(if js_or (Some (JStr (if ps_security s = js ''none'' then [] else ps_security s))) (JStr []) =
      JStr (js ''reality'') then js ''reality'' else if js_or (Some (JStr (if ps_security s = js ''none'' then []
      else ps_security s))) (JStr []) = JStr (js ''tls'') then js ''tls'' else js ''none'') = ps_security s"
    using sec by (elim disjE) (simp_all add: js_or_def js_inject js_Nil_eq del: js_Cons)
  have vals: "nullish (Some (JStr addr)) (JStr []) = JStr addr" "truthy (JStr addr)"
    "js_or (Some (JStr net)) (JStr (js ''tcp'')) = JStr net"
    "js_or (Some (or_empty (ps_encryption s))) (JStr (js ''auto'')) = JStr scy"
    "or_empty (ps_id s) = i" "toNumber (Some (JNum (coalesce (ps_alterId s) (Fin 0)))) (Fin 0) = a"
    using t e i by (simp_all add: nullish_def js_or_def or_empty_def toNumber_def)
  have "vmess_server (\<lambda>k. projr (get_prop (vmess_doc s) (js k))) raw = Inr (Some
     ((server_of Vmess (JStr tag) (JStr addr) (ps_port s) raw)\<lparr>ps_id := Some i, ps_alterId := Some a,
        ps_encryption := Some (JStr scy), ps_network := JStr net, ps_security := ps_security s,
        ps_sni := ps_sni s, ps_fingerprint := ps_fingerprint s, ps_alpn := ps_alpn s,
        ps_path := (if net = js ''grpc'' then None else ps_path s),
        ps_serviceName := (if net = js ''grpc'' then ps_serviceName s else None),
        ps_host := ps_host s, ps_headerType := ps_headerType s\<rparr>))"
    unfolding vmess_server_def Let_def vmess_doc_get sum.sel t(2,3) vals port(1) tag tls rest
      splitCsv_json_alpn [OF rest(2)] bindE.simps
    using port(2) vals(2) rest by simp
  also have "\<dots> = Inr (Some s)"
    using t e i rest grpc other raw
    by (cases "net = js ''grpc''"; cases s) (simp_all add: server_of_def)
  finally show ?thesis .
qed

lemma emit_not_hash: "base64_emitter emit \<Longrightarrow> ch (CHR ''#'') \<notin> set (emit bs)"
  using base64_emitter.emit_free [of emit "ch (CHR ''#'')" bs] by auto

context base64_emitter
begin

lemma parseVmess_body:
  assumes ok: "vmess_ok s" and raw: "ps_raw s = raw" and f: "f = [] \<or> hd f = ch (CHR ''#'')"
  shows "parseVmess (vmess_body emit s @ f) raw = Inr (Some s)"
proof -
  have free: "ch (CHR ''#'') \<notin> set (vmess_body emit s)"
    unfolding vmess_body_def using emit_free by fastforce
  then have payload: "fst (cut (ch (CHR ''#'')) (vmess_body emit s @ f)) = vmess_body emit s"
    using f by (cases f) auto
  have "base64ToString (vmess_body emit s) = stringify (vmess_doc s)"
    unfolding vmess_body_def by (rule decodes_string) (rule wf16_stringify [OF vmess_doc_ok [OF ok]])
  then show ?thesis
    unfolding parseVmess_def payload Let_def
    by (simp add: stringify_parse [OF vmess_doc_ok [OF ok]] vmess_doc_get vmess_server_doc [OF ok raw] del: js_Cons)
qed

lemma parse_vmess_link:
  assumes "vmess_ok s" "to_lower sch = js ''vmess''" "f = [] \<or> hd f = ch (CHR ''#'') \<and> \<not> is_ws (last f)"
    "ps_raw s = link_text sch (vmess_body emit s @ f)"
  shows "parseShareLink (spaced u (link_text sch (vmess_body emit s @ f)) w) = Some s"
proof -
  have b: "vmess_body emit s \<noteq> []"
  proof
    assume "vmess_body emit s = []"
    then have "base64ToString [] = stringify (vmess_doc s)"
      using decodes_string [OF wf16_stringify [OF vmess_doc_ok [OF assms(1)]]] by (simp add: vmess_body_def)
    moreover have "base64ToString [] = []" by (simp add: base64ToString_def base64ToBytes_def b64_clean_def replace_cu_def)
    ultimately show False by (simp add: vmess_doc_def)
  qed
  then have "\<not> is_ws (last (vmess_body emit s))"
    using emits last_in_set unfolding vmess_body_def by metis
  with b assms(3) have "vmess_body emit s @ f \<noteq> [] \<and> \<not> is_ws (last (vmess_body emit s @ f))"
    by (cases "f = []") simp_all
  then have "parseShareLink (spaced u (link_text sch (vmess_body emit s @ f)) w) =
    (case parse_scheme (js ''vmess'') (vmess_body emit s @ f) (link_text sch (vmess_body emit s @ f)) of
       Inr r \<Rightarrow> r | Inl _ \<Rightarrow> None)"
    by (intro parseShareLink_text [OF assms(2)]) (simp_all add: is_ws_def)
  moreover have "parseVmess (vmess_body emit s @ f) (link_text sch (vmess_body emit s @ f)) = Inr (Some s)"
    by (rule parseVmess_body [OF assms(1,4)]) (use assms(3) in auto)
  ultimately show ?thesis by (simp add: parse_scheme_def js_inject del: js_Cons)
qed

end

text \<open>C29: \<open>vmess\<close> round trip: \<open>parseShareLink\<close> returns exactly the server whose JSON document a link
  carries, with either base64 alphabet, any padding and any fragment after it.\<close>

theorem vmess_roundtrip:
  "vmess_ok s \<Longrightarrow> to_lower sch = js ''vmess'' \<Longrightarrow> f = [] \<or> hd f = ch (CHR ''#'') \<and> \<not> is_ws (last f) \<Longrightarrow>
   ps_raw s = link_text sch (vmess_body (b64_text url pad) s @ f) \<Longrightarrow>
   parseShareLink (spaced u (link_text sch (vmess_body (b64_text url pad) s @ f)) w) = Some s"
  by (rule b64.parse_vmess_link)

definition sample_vmess :: "jstring \<Rightarrow> server" where
  "sample_vmess raw = (sample_server Vmess raw)\<lparr>ps_id := Some (JStr (js ''u'')), ps_alterId := Some (Fin 0),
     ps_encryption := Some (JStr (js ''auto''))\<rparr>"

definition sample_vmess_link :: jstring where
  "sample_vmess_link = link_text (js ''vmess'') (vmess_body (b64_text True 1) (sample_vmess []) @ js ''#x'')"

theorem vmess_roundtrip_witness:
  "parseShareLink (spaced (js '' '') sample_vmess_link []) = Some (sample_vmess sample_vmess_link)"
proof -
  have l: "link_text (js ''vmess'') (vmess_body (b64_text True 1) (sample_vmess r) @ js ''#x'')
      = sample_vmess_link" for r
    unfolding sample_vmess_link_def vmess_body_def
    by (rule arg_cong [where f = "\<lambda>t. link_text (js ''vmess'') (b64_text True 1 (utf8 (stringify t)) @ js ''#x'')"])
      (simp add: vmess_doc_def sample_vmess_def sample_server_def server_of_def del: js_Cons)
  have "vmess_ok (sample_vmess r)" for r
    by (simp add: vmess_ok_def sample_vmess_def sample_server_def server_of_def ne_field_def is_text_def
        alpn_ok_def trim_def is_ws_def safe_int_def)
  moreover have "to_lower (js ''vmess'') = js ''vmess''" by (simp add: to_lower_cu_def)
  moreover have "js ''#x'' = [] \<or> hd (js ''#x'') = ch (CHR ''#'') \<and> \<not> is_ws (last (js ''#x''))"
    by (simp add: is_ws_def)
  moreover have raw: "ps_raw (sample_vmess r) = r" for r
    by (simp add: sample_vmess_def sample_server_def server_of_def)
  ultimately have "parseShareLink (spaced (js '' '') (link_text (js ''vmess'')
      (vmess_body (b64_text True 1) (sample_vmess sample_vmess_link) @ js ''#x'')) [])
    = Some (sample_vmess sample_vmess_link)"
    by (intro vmess_roundtrip) (simp_all only: raw l)
  then show ?thesis by (simp only: l)
qed

subsection \<open>\<open>ss\<close> links\<close>

text \<open>A Shadowsocks server as its link gives it, and the three forms of the link.\<close>

definition ss_server :: "jstring \<Rightarrow> jstring \<Rightarrow> jstring \<Rightarrow> nat \<Rightarrow> jstring \<Rightarrow> jstring \<Rightarrow> server" where
  "ss_server m p h n tag raw = (server_of Shadowsocks (JStr tag) (JStr h) (Fin (of_nat n)) raw)
     \<lparr>ps_method := Some m, ps_password := Some p\<rparr>"

definition creds_text :: "jstring \<Rightarrow> jstring \<Rightarrow> jstring" where
  "creds_text m p = m @ js '':'' @ p"

definition creds_ok :: "jstring \<Rightarrow> jstring \<Rightarrow> bool" where
  "creds_ok m p \<longleftrightarrow> m \<noteq> [] \<and> ch (CHR '':'') \<notin> set m \<and> wf16 m \<and> wf16 p"

definition ss_body :: "jstring \<Rightarrow> jstring \<Rightarrow> nat \<Rightarrow> jstring \<Rightarrow> jstring \<Rightarrow> jstring" where
  "ss_body userinfo h n plugin tag = userinfo @ js ''@'' @ hostport_text h n @ plugin @ js ''#'' @ encodeURIComponent tag"

definition ss_legacy_body :: "(u8 list \<Rightarrow> jstring) \<Rightarrow> jstring \<Rightarrow> jstring \<Rightarrow> jstring \<Rightarrow> nat \<Rightarrow> jstring \<Rightarrow> jstring" where
  "ss_legacy_body emit m p h n tag = emit (utf8 (creds_text m p @ js ''@'' @ hostport_text h n))
     @ js ''#'' @ encodeURIComponent tag"

definition plugin_ok :: "jstring \<Rightarrow> bool" where
  "plugin_ok q \<longleftrightarrow> (q = [] \<or> hd q = ch (CHR ''?'')) \<and> ch (CHR ''#'') \<notin> set q"

lemma splitFirst_simps [simp]:
  "c \<notin> set a \<Longrightarrow> splitFirst (a @ c # b) c = Some (a, b)"
  "c \<notin> set a \<Longrightarrow> splitFirst a c = None"
  using index_of_single_None [of c a] by (simp_all add: splitFirst_def index_of_single_first)

lemma wf16_creds: "wf16 m \<Longrightarrow> wf16 p \<Longrightarrow> wf16 (creds_text m p)"
  unfolding creds_text_def by (intro wf16_append wf16_literals)

lemma splitFirst_creds: "creds_ok m p \<Longrightarrow> splitFirst (creds_text m p) 0x3A = Some (m, p)"
  by (simp add: creds_text_def creds_ok_def)

text \<open>What remains of the link once the credentials are known.\<close>

lemma parse_ss_body:
  assumes ui: "\<forall>c \<in> set (js ''#?''). c \<notin> set ui"
    and creds: "decodeUserinfoCreds ui = Some (m, p)"
    and h: "host_ok h" "0 < n" "n < 2 ^ 53" and t: "plugin_ok q" "wf16 tag" "tag \<noteq> []"
  shows "parseShadowsocks (ss_body ui h n q tag) raw = Some (ss_server m p h n tag raw)"
proof -
  have hp: "ch (CHR ''#'') \<notin> set (hostport_text h n)" "ch (CHR ''?'') \<notin> set (hostport_text h n)"
    "ch (CHR ''@'') \<notin> set (hostport_text h n)"
    by (rule link_safe_free [OF hostport_text_safe [OF h(1)]], simp add: delimiters_def)+
  have "ch (CHR ''#'') \<notin> set (ui @ js ''@'' @ hostport_text h n @ q)"
    using ui hp t(1) by (simp add: plugin_ok_def)
  from cut_simps(1) [OF this] have c1: "cut (ch (CHR ''#'')) (ss_body ui h n q tag)
      = (ui @ js ''@'' @ hostport_text h n @ q, Some (encodeURIComponent tag))"
    by (simp add: ss_body_def)
  have u: "ch (CHR ''?'') \<notin> set (ui @ js ''@'' @ hostport_text h n)" using ui hp by simp
  have c2: "fst (cut (ch (CHR ''?'')) (ui @ js ''@'' @ hostport_text h n @ q)) = ui @ js ''@'' @ hostport_text h n"
    using cut_simps(1) [OF u, of "tl q"] cut_simps(2) [OF u] t(1) by (cases q) (auto simp: plugin_ok_def)
  have c3: "cut_last (ch (CHR ''@'')) (ui @ js ''@'' @ hostport_text h n) = (Some ui, hostport_text h n)"
    using hp(3) by simp
  have "ss_endpoint (ui @ js ''@'' @ hostport_text h n) = Some (m, p, h, Fin (of_nat n))"
    using splitHostPort_text [OF h(1,3)] c3 creds by (simp add: ss_endpoint_def)
  then show ?thesis
    unfolding parseShadowsocks_def c1 Let_def prod.case c2
    using h t by (simp add: uri.decodes host_ok_def ss_server_def)
qed

lemma ss_body_last: "tag \<noteq> [] \<Longrightarrow> wf16 tag \<Longrightarrow>
  x @ js ''#'' @ encodeURIComponent tag \<noteq> [] \<and> \<not> is_ws (last (x @ js ''#'' @ encodeURIComponent tag))"
  using uri.non_empty [of tag] uri.enc_no_ws [of tag "last (encodeURIComponent tag)"] by simp

lemma parse_ss_link:
  assumes "parseShadowsocks (x @ js ''#'' @ encodeURIComponent tag) (link_text sch (x @ js ''#'' @ encodeURIComponent tag)) = Some s"
    and "to_lower sch = js ''ss''" "tag \<noteq> []" "wf16 tag"
  shows "parseShareLink (spaced u (link_text sch (x @ js ''#'' @ encodeURIComponent tag)) w) = Some s"
proof -
  let ?b = "x @ js ''#'' @ encodeURIComponent tag"
  have "parseShareLink (spaced u (link_text sch ?b) w) =
      (case parse_scheme (js ''ss'') ?b (link_text sch ?b) of Inr r \<Rightarrow> r | Inl _ \<Rightarrow> None)"
    using ss_body_last [OF assms(3,4), of x] by (intro parseShareLink_text [OF assms(2)]) (simp_all add: is_ws_def)
  then show ?thesis using assms(1) by (simp add: parse_scheme_def js_inject del: js_Cons)
qed

lemma ss_body_split: "ss_body ui h n q tag = (ui @ js ''@'' @ hostport_text h n @ q) @ js ''#'' @ encodeURIComponent tag"
  by (simp add: ss_body_def)

lemma decode_creds_base64:
  "creds_ok m p \<Longrightarrow> base64ToString ui = creds_text m p \<Longrightarrow> decodeUserinfoCreds ui = Some (m, p)"
  by (simp add: decodeUserinfoCreds_def tryBase64_def splitFirst_creds List.map_filter_simps)
    (simp add: creds_ok_def)

lemma decode_creds_plain:
  assumes "creds_ok m p" "decodeComponentSafe ui = creds_text m p"
    and "case splitFirst (base64ToString ui) (ch (CHR '':'')) of None \<Rightarrow> True | Some (a, _) \<Rightarrow> a = []"
  shows "decodeUserinfoCreds ui = Some (m, p)"
  using assms
  by (auto simp: decodeUserinfoCreds_def tryBase64_def splitFirst_creds List.map_filter_simps creds_ok_def
      split: option.splits)

lemma parse_ss_legacy:
  assumes c: "creds_ok m p" "wf16 h" and h: "host_ok h" "0 < n" "n < 2 ^ 53" and t: "wf16 tag" "tag \<noteq> []"
  shows "parseShadowsocks (ss_legacy_body (b64_text url pad) m p h n tag) raw = Some (ss_server m p h n tag raw)"
proof -
  let ?e = "b64_text url pad (utf8 (creds_text m p @ js ''@'' @ hostport_text h n))"
  have free: "ch (CHR ''#'') \<notin> set ?e" "ch (CHR ''?'') \<notin> set ?e" "ch (CHR ''@'') \<notin> set ?e"
    using b64.emit_free by fastforce+
  have c1: "cut (ch (CHR ''#'')) (ss_legacy_body (b64_text url pad) m p h n tag) = (?e, Some (encodeURIComponent tag))"
    using free by (simp add: ss_legacy_body_def)
  have at: "ch (CHR ''@'') \<notin> set (hostport_text h n)"
    by (rule link_safe_free [OF hostport_text_safe [OF h(1)]]) (simp add: delimiters_def)
  have "wf16 (hostport_text h n)"
    unfolding hostport_text_def host_text_def using c(2)
    by (auto intro!: wf16_append wf16_digits wf16_literals simp del: js_Cons)
  moreover have "wf16 (js ''@'')" by (simp add: is_high_def is_low_def)
  ultimately have "base64ToString ?e = creds_text m p @ js ''@'' @ hostport_text h n"
    using c(1) by (intro b64.decodes_string wf16_append wf16_creds) (simp_all add: creds_ok_def del: js_Cons)
  then have "ss_endpoint ?e = Some (m, p, h, Fin (of_nat n))"
    using free(3) at splitHostPort_text [OF h(1,3)]
    by (simp add: ss_endpoint_def splitFirst_creds [OF c(1)])
  then show ?thesis
    unfolding parseShadowsocks_def c1 Let_def prod.case
    using h t free by (simp add: uri.decodes host_ok_def ss_server_def)
qed

text \<open>C30: SIP002 round trip: method, password and endpoint of an \<open>ss\<close> link with base64
  credentials come back exactly, a \<open>?plugin\<close> part is skipped.\<close>

theorem ss_sip002_roundtrip:
  assumes "creds_ok m p" "host_ok h" "0 < n" "n < 2 ^ 53" "plugin_ok q" "wf16 tag" "tag \<noteq> []"
    and "to_lower sch = js ''ss''" "ui = b64_text url pad (utf8 (creds_text m p))"
  shows "parseShareLink (spaced u (link_text sch (ss_body ui h n q tag)) w)
    = Some (ss_server m p h n tag (link_text sch (ss_body ui h n q tag)))"
proof -
  have "base64ToString ui = creds_text m p"
    unfolding assms(9) by (rule b64.decodes_string) (use assms(1) in \<open>simp add: wf16_creds creds_ok_def\<close>)
  then have creds: "decodeUserinfoCreds ui = Some (m, p)" by (rule decode_creds_base64 [OF assms(1)])
  have "\<forall>c \<in> set (js ''#?''). c \<notin> set ui" using b64.emit_free unfolding assms(9) by fastforce
  from parse_ss_body [OF this creds assms(2-7)] show ?thesis
    unfolding ss_body_split by (rule parse_ss_link [OF _ assms(8,7,6)])
qed

theorem ss_sip002_roundtrip_witness:
  "parseShareLink (spaced [] (link_text (js ''SS'') (ss_body (b64_text False 1 (utf8 (creds_text (js ''aes'') (js ''p@:'')))) (js ''h'') 8388 (js ''?plugin=x'') (js ''n''))) [])
   = Some (ss_server (js ''aes'') (js ''p@:'') (js ''h'') 8388 (js ''n'') (link_text (js ''SS'') (ss_body (b64_text False 1 (utf8 (creds_text (js ''aes'') (js ''p@:'')))) (js ''h'') 8388 (js ''?plugin=x'') (js ''n''))))"
  by (rule ss_sip002_roundtrip [OF _ _ _ _ _ _ _ _ refl])
    (simp_all add: creds_ok_def is_high_def is_low_def host_ok_def link_safe_def delimiters_def is_ws_def
      plugin_ok_def to_lower_cu_def)

text \<open>Legacy round trip: the all-in-one base64 form comes back exactly, a password that holds
  colons or at-signs included.\<close>

theorem ss_legacy_roundtrip:
  assumes "creds_ok m p" "wf16 h" "host_ok h" "0 < n" "n < 2 ^ 53" "wf16 tag" "tag \<noteq> []" "to_lower sch = js ''ss''"
  shows "parseShareLink (spaced u (link_text sch (ss_legacy_body (b64_text url pad) m p h n tag)) w)
    = Some (ss_server m p h n tag (link_text sch (ss_legacy_body (b64_text url pad) m p h n tag)))"
  using parse_ss_legacy [OF assms(1-7)] unfolding ss_legacy_body_def
  by (rule parse_ss_link [OF _ assms(8,7,6)])

theorem ss_legacy_roundtrip_witness:
  "parseShareLink (spaced [] (link_text (js ''ss'') (ss_legacy_body (b64_text False 2) (js ''aes'') (js ''p@:'') (js ''::1'') 8388 (js ''n''))) (js '' ''))
   = Some (ss_server (js ''aes'') (js ''p@:'') (js ''::1'') 8388 (js ''n'') (link_text (js ''ss'') (ss_legacy_body (b64_text False 2) (js ''aes'') (js ''p@:'') (js ''::1'') 8388 (js ''n''))))"
  by (rule ss_legacy_roundtrip)
    (simp_all add: creds_ok_def is_high_def is_low_def host_ok_def link_safe_def delimiters_def is_ws_def
      to_lower_cu_def)

text \<open>Credentials in plain text, percent-encoded: the form SIP022 prescribes.  The parser tries
  base64 first, so the form is only read when that attempt yields no colon.\<close>

definition plain_creds :: "jstring \<Rightarrow> jstring \<Rightarrow> jstring" where
  "plain_creds m p = pct_encode (\<lambda>c. unreserved c \<or> c = 0x3A) (creds_text m p)"

definition base64_reads_no_creds :: "jstring \<Rightarrow> bool" where
  "base64_reads_no_creds ui \<longleftrightarrow> (case splitFirst (base64ToString ui) (ch (CHR '':'')) of
     None \<Rightarrow> True | Some (a, _) \<Rightarrow> a = [])"

lemma colon_keeps: "keeps (\<lambda>c. unreserved c \<or> c = 0x3A)"
  using unreserved_keeps(1) by (auto simp: keeps_def percent_def is_high_def is_low_def)

lemma colon_safe: "unreserved c \<or> c = 0x3A \<Longrightarrow> c \<notin> delimiters \<and> \<not> is_ws c"
  using unreserved_keeps(2) [of c] by (auto simp: delimiters_def is_ws_def)

text \<open>Plain credentials round trip: where the base64 attempt finds no credentials, a link with
  percent-encoded \<open>method:password\<close> comes back exactly.\<close>

theorem ss_plain_roundtrip:
  assumes "creds_ok m p" "host_ok h" "0 < n" "n < 2 ^ 53" "plugin_ok q" "wf16 tag" "tag \<noteq> []"
    and "to_lower sch = js ''ss''" "base64_reads_no_creds (plain_creds m p)"
  shows "parseShareLink (spaced u (link_text sch (ss_body (plain_creds m p) h n q tag)) w)
    = Some (ss_server m p h n tag (link_text sch (ss_body (plain_creds m p) h n q tag)))"
proof -
  have "decodeComponentSafe (plain_creds m p) = creds_text m p"
    unfolding plain_creds_def
    by (rule decodeComponentSafe_encode [OF colon_keeps]) (use assms(1) in \<open>simp add: wf16_creds creds_ok_def\<close>)
  then have creds: "decodeUserinfoCreds (plain_creds m p) = Some (m, p)"
    using assms(9) unfolding base64_reads_no_creds_def by (intro decode_creds_plain [OF assms(1)])
  have "link_safe (plain_creds m p)" unfolding plain_creds_def by (rule pct_encode_safe) (rule colon_safe)
  then have "\<forall>c \<in> set (js ''#?''). c \<notin> set (plain_creds m p)"
    by (auto simp: link_safe_def delimiters_def)
  from parse_ss_body [OF this creds assms(2-7)] show ?thesis
    unfolding ss_body_split by (rule parse_ss_link [OF _ assms(8,7,6)])
qed

lemma plain_creds_sample: "plain_creds (js ''none'') (js ''p1'') = js ''none:p1''"
  by (simp add: plain_creds_def creds_text_def unreserved_def is_digit_def)

theorem ss_plain_roundtrip_witness:
  "parseShareLink (spaced [] (link_text (js ''ss'') (ss_body (plain_creds (js ''none'') (js ''p1'')) (js ''h'') 1 [] (js ''n''))) [])
   = Some (ss_server (js ''none'') (js ''p1'') (js ''h'') 1 (js ''n'') (link_text (js ''ss'') (ss_body (plain_creds (js ''none'') (js ''p1'')) (js ''h'') 1 [] (js ''n''))))"
proof (rule ss_plain_roundtrip)
  have "base64ToBytes (js ''none:p1'') = [158, 137, 222, 167]"
    by (simp add: base64ToBytes_loop b64_clean_def replace_cu_def is_ws_def b64_values_def B64_LOOKUP_def
        List.map_filter_simps B64_ALPHABET_def)
  then show "base64_reads_no_creds (plain_creds (js ''none'') (js ''p1''))"
    unfolding plain_creds_sample
    by (simp add: base64_reads_no_creds_def base64ToString_def byte_at_def join4_def split_pair_def Let_def
        splitFirst_def)
qed (simp_all add: creds_ok_def is_high_def is_low_def host_ok_def link_safe_def delimiters_def is_ws_def
      plugin_ok_def to_lower_cu_def)

text \<open>Without that condition the form is misread: the base64 reading of \<open>aes-128-gcm:pajo\<close>
  contains a colon, so the parser takes garbage for the method.\<close>

lemma ss_plain_misread_bytes:
  "base64ToBytes (js ''aes-128-gcm:pajo'') = [105, 235, 62, 215, 111, 62, 129, 201, 169, 106, 58]"
  by (simp add: base64ToBytes_loop b64_clean_def replace_cu_def is_ws_def b64_values_def B64_LOOKUP_def
      List.map_filter_simps B64_ALPHABET_def)

lemma ss_plain_misread:
  "decodeUserinfoCreds (js ''aes-128-gcm:pajo'') \<noteq> Some (js ''aes-128-gcm'', js ''pajo'')"
  by (simp add: decodeUserinfoCreds_def tryBase64_def base64ToString_def ss_plain_misread_bytes [simplified]
      byte_at_def join2_def join3_def join4_def split_pair_def Let_def splitFirst_def List.map_filter_simps)

end
