(* ===== verification/Subscription.thy ===== *)
theory Subscription
  imports LinkSound PayloadLinks
begin

section \<open>Subscription payloads and the quota header (\<open>src/subscription/parse.ts\<close>)\<close>

text \<open>
  \<open>parseSubscription\<close> and \<open>parseSubscriptionUserInfo\<close>.  A payload is one link per line, as text or
  wrapped in base64; the header is a list of \<open>key=value\<close> parts.
\<close>

subsection \<open>The code\<close>

definition parseSubscription :: "jstring \<Rightarrow> server list" where
  "parseSubscription payload =
     (let text = (if looksLikeBase64 payload then base64ToString payload else payload)
      in List.map_filter parseShareLink
           (filter (\<lambda>line. 0 < length line) (map trim (split_lines text))))"

record subscription_info =
  si_upload :: "jsnum option"
  si_download :: "jsnum option"
  si_total :: "jsnum option"
  si_expire :: "jsnum option"

definition no_info :: subscription_info where
  "no_info = \<lparr>si_upload = None, si_download = None, si_total = None, si_expire = None\<rparr>"

definition put_info :: "jstring \<Rightarrow> jsnum \<Rightarrow> subscription_info \<Rightarrow> subscription_info option" where
  "put_info key value info =
     (if key = js ''upload'' then Some (info\<lparr>si_upload := Some value\<rparr>)
      else if key = js ''download'' then Some (info\<lparr>si_download := Some value\<rparr>)
      else if key = js ''total'' then Some (info\<lparr>si_total := Some value\<rparr>)
      else if key = js ''expire'' then Some (info\<lparr>si_expire := Some value\<rparr>)
      else None)"

text \<open>\<open>value < 0\<close> on a finite number.\<close>

fun negative :: "jsnum \<Rightarrow> bool" where
  "negative (Fin q) = (q < 0)"
| "negative NegInf = True"
| "negative _ = False"

text \<open>One iteration of the loop; each \<open>continue\<close> returns the state unchanged.\<close>

definition info_part :: "subscription_info \<times> bool \<Rightarrow> jstring \<Rightarrow> subscription_info \<times> bool" where
  "info_part st part = (case index_of (js ''='') part of
     None \<Rightarrow> st
   | Some eqIdx \<Rightarrow>
       let key = to_lower (trim (take eqIdx part)); rawValue = trim (drop (eqIdx + 1) part) in
       if rawValue = [] then st
       else let value = js_Number rawValue in
         if \<not> is_finite value \<or> negative value then st
         else (case put_info key value (fst st) of Some info \<Rightarrow> (info, True) | None \<Rightarrow> st))"

definition parseSubscriptionUserInfo :: "jstring option \<Rightarrow> subscription_info option" where
  "parseSubscriptionUserInfo header = (case str_or_undef header of
     None \<Rightarrow> None
   | Some h \<Rightarrow> (let (info, found) = foldl info_part (no_info, False) (split_on (ch (CHR '';'')) h)
       in if found then Some info else None))"

subsection \<open>A payload is its lines\<close>

lemma parseShareLink_trim [simp]: "parseShareLink (trim l) = parseShareLink l"
  by (simp only: parseShareLink_def trim_trim)

lemma parseShareLink_Nil [simp]: "parseShareLink [] = None"
  by (simp add: parseShareLink_def)

lemma parse_lines:
  "List.map_filter parseShareLink (filter (\<lambda>line. line \<noteq> []) (map trim ls)) = List.map_filter parseShareLink ls"
proof (induction ls)
  case (Cons l ls)
  have "parseShareLink l = None" if "trim l = []" using parseShareLink_trim [of l] that by simp
  with Cons show ?case by (simp add: List.map_filter_simps split: option.splits)
qed (simp add: List.map_filter_simps)

fun payload_text :: "(jstring \<times> bool) list \<Rightarrow> jstring \<Rightarrow> jstring" where
  "payload_text [] l = l"
| "payload_text ((t, crlf) # ls) l = t @ (if crlf then [CR, LF] else [LF]) @ payload_text ls l"

definition one_line :: "jstring \<Rightarrow> bool" where
  "one_line t \<longleftrightarrow> LF \<notin> set t \<and> CR \<notin> set t"

lemma split_lines_payload:
  "\<forall>t \<in> set (map fst ls @ [l]). one_line t \<Longrightarrow> split_lines (payload_text ls l) = map fst ls @ [l]"
proof (induction ls)
  case (Cons x ls)
  obtain t crlf where x: "x = (t, crlf)" by fastforce
  with Cons have "split_lines (payload_text ls l) = map fst ls @ [l]" "LF \<notin> set t" "CR \<notin> set t"
    by (simp_all add: one_line_def)
  then show ?case
    by (cases crlf) (simp_all add: x split_lines_LF split_lines_CRLF)
qed (simp add: split_lines_line one_line_def)

lemma trim_keeps: "c \<in> set s \<Longrightarrow> \<not> is_ws c \<Longrightarrow> c \<in> set (trim s)"
proof -
  have d: "c \<in> set (dropWhile is_ws u)" if "c \<in> set u" "\<not> is_ws c" for u
    using that by (induction u) auto
  assume "c \<in> set s" "\<not> is_ws c"
  then show ?thesis unfolding trim_def by (simp add: d)
qed

lemma colon_not_base64: "0x3A \<in> set s \<Longrightarrow> \<not> looksLikeBase64 s"
proof -
  assume "0x3A \<in> set s"
  then have "0x3A \<in> set (trim s)" by (rule trim_keeps) (simp add: is_ws_def)
  moreover have "\<not> base64_class 0x3A" using base64_class_sep_free [of "0x3A"] by auto
  ultimately show ?thesis by (auto simp: looksLikeBase64_def Let_def)
qed

lemma includes_set: "js_includes p s \<Longrightarrow> set p \<subseteq> set s"
proof -
  assume "js_includes p s"
  then obtain i where "index_of p s = Some i" by (auto simp: js_includes_def)
  from index_of_SomeD [OF this] obtain t where "s = take i s @ p @ t" ..
  then have "set s = set (take i s) \<union> set p \<union> set t" by (metis Un_assoc set_append)
  then show ?thesis by auto
qed

lemma payload_lines: "t \<in> set (map fst ls @ [l]) \<Longrightarrow> set t \<subseteq> set (payload_text ls l)"
proof (induction ls)
  case (Cons x ls)
  then show ?case by (cases x) auto
qed simp

lemma parsed_has_colon: "parseShareLink l = Some s \<Longrightarrow> 0x3A \<in> set l"
proof -
  assume "parseShareLink l = Some s"
  then obtain i where "index_of (js ''://'') (trim l) = Some i" by (rule parseShareLink_SomeD)
  then have "js_includes (js ''://'') (trim l)" by (simp add: js_includes_def)
  from includes_set [OF this] have "0x3A \<in> set (trim l)" by simp
  then show ?thesis using set_trim by auto
qed

lemma parseSubscription_plain:
  assumes "\<forall>t \<in> set (map fst ls @ [l]). one_line t" "\<exists>t \<in> set (map fst ls @ [l]). parseShareLink t \<noteq> None"
  shows "parseSubscription (payload_text ls l) = List.map_filter parseShareLink (map fst ls @ [l])"
proof -
  obtain t s where t: "t \<in> set (map fst ls @ [l])" "parseShareLink t = Some s" using assms(2) by blast
  have sub: "set t \<subseteq> set (payload_text ls l)" using t(1) by (rule payload_lines)
  have "0x3A \<in> set (payload_text ls l)" using parsed_has_colon [OF t(2)] sub by blast
  then have b: "\<not> looksLikeBase64 (payload_text ls l)" by (rule colon_not_base64)
  have f: "(\<lambda>line :: jstring. 0 < length line) = (\<lambda>line. line \<noteq> [])" by auto
  show ?thesis
    unfolding parseSubscription_def f if_not_P [OF b] Let_def split_lines_payload [OF assms(1)] parse_lines ..
qed

context base64_emitter
begin

lemma emit_looksLikeBase64: "emit bs \<noteq> [] \<Longrightarrow> looksLikeBase64 (emit bs)"
proof -
  have "0x3A \<notin> set (emit bs)" using emit_free [of "0x3A" bs] by auto
  then have "\<not> js_includes (js ''://'') (emit bs)"
    using includes_set [of "js ''://''" "emit bs"] by auto
  moreover assume "emit bs \<noteq> []"
  ultimately show ?thesis using emits by (auto simp: looksLikeBase64_def emit_trim)
qed

lemma parseSubscription_emit:
  assumes "wf16 text" "text \<noteq> []"
  shows "parseSubscription (emit (utf8 text)) = List.map_filter parseShareLink (split_lines text)"
proof -
  have "emit (utf8 text) \<noteq> []"
  proof
    assume "emit (utf8 text) = []"
    then have "base64ToString [] = text" using decodes_string [OF assms(1)] by simp
    with assms(2) show False
      by (simp add: base64ToString_def base64ToBytes_def b64_clean_def replace_cu_def)
  qed
  then show ?thesis
    using emit_looksLikeBase64 decodes_string [OF assms(1)] parse_lines
    by (simp add: parseSubscription_def)
qed

end

lemma parseSubscription_wrapped:
  assumes "wf16 (payload_text ls l)" "\<forall>t \<in> set (map fst ls @ [l]). one_line t"
    "\<exists>t \<in> set (map fst ls @ [l]). parseShareLink t \<noteq> None"
  shows "parseSubscription (b64_text url pad (utf8 (payload_text ls l))) = List.map_filter parseShareLink (map fst ls @ [l])"
proof -
  obtain t s where "t \<in> set (map fst ls @ [l])" "parseShareLink t = Some s" using assms(3) by blast
  then have "0x3A \<in> set (payload_text ls l)" using parsed_has_colon payload_lines by blast
  then have "payload_text ls l \<noteq> []" by auto
  then show ?thesis
    using b64.parseSubscription_emit [OF assms(1)] split_lines_payload [OF assms(2)] by simp
qed

text \<open>C17: a subscription is its lines: the links of a payload, separated by LF or CRLF in any mix,
  are parsed in order and lines that are no link are dropped, as soon as one line is a link.\<close>

theorem parseSubscription_lines:
  assumes "\<forall>t \<in> set (map fst ls @ [l]). one_line t" "\<exists>t \<in> set (map fst ls @ [l]). parseShareLink t \<noteq> None"
  shows "parseSubscription (payload_text ls l) = List.map_filter parseShareLink (map fst ls @ [l])"
  by (rule parseSubscription_plain [OF assms])

theorem parseSubscription_lines_witness:
  "length (parseSubscription (payload_text [(js ''trojan://p@h:1'', True), (js ''junk'', False)] (js ''trojan://p@h:1''))) = 2"
proof -
  let ?ls = "[(js ''trojan://p@h:1'', True), (js ''junk'', False)]" and ?l = "js ''trojan://p@h:1''"
  have "trim (js '' trojan://p@h:1 '') = ?l" by (simp add: trim_def is_ws_def)
  then have p: "parseShareLink ?l \<noteq> None" using sample_trojan_parses by (metis parseShareLink_trim)
  have "parseShareLink (js ''junk'') = None" by (simp add: link_eval)
  moreover have "parseSubscription (payload_text ?ls ?l) = List.map_filter parseShareLink (map fst ?ls @ [?l])"
    by (rule parseSubscription_lines) (use p in \<open>simp_all add: one_line_def LF_def CR_def\<close>)
  ultimately show ?thesis using p by (auto simp: List.map_filter_simps simp del: js_Cons)
qed

text \<open>Wrapping the payload in base64, with either alphabet and any padding, changes nothing.\<close>

theorem parseSubscription_base64:
  assumes "wf16 (payload_text ls l)" "\<forall>t \<in> set (map fst ls @ [l]). one_line t"
    "\<exists>t \<in> set (map fst ls @ [l]). parseShareLink t \<noteq> None"
  shows "parseSubscription (b64_text url pad (utf8 (payload_text ls l))) = parseSubscription (payload_text ls l)"
  using parseSubscription_wrapped [OF assms] parseSubscription_plain [OF assms(2,3)] by simp

theorem parseSubscription_base64_witness:
  "parseSubscription (b64_text True 1 (utf8 (payload_text [(js ''trojan://p@h:1'', True)] (js ''x''))))
   = parseSubscription (payload_text [(js ''trojan://p@h:1'', True)] (js ''x''))"
proof (rule parseSubscription_base64)
  have "trim (js '' trojan://p@h:1 '') = js ''trojan://p@h:1''" by (simp add: trim_def is_ws_def)
  then show "\<exists>t \<in> set (map fst [(js ''trojan://p@h:1'', True)] @ [js ''x'']). parseShareLink t \<noteq> None"
    using sample_trojan_parses by (intro bexI [of _ "js ''trojan://p@h:1''"]) (metis parseShareLink_trim, simp)
qed (simp_all add: one_line_def LF_def CR_def is_high_def is_low_def)

subsection \<open>The quota header\<close>

text \<open>The specification: the parts that are \<open>known key = finite non-negative number\<close>, the last one
  of a key deciding.\<close>

definition known_key :: "jstring \<Rightarrow> bool" where
  "known_key k \<longleftrightarrow> k \<in> {js ''upload'', js ''download'', js ''total'', js ''expire''}"

definition info_entry :: "jstring \<Rightarrow> (jstring \<times> jsnum) option" where
  "info_entry part = (case splitFirst part (ch (CHR ''='')) of
     None \<Rightarrow> None
   | Some (k, v) \<Rightarrow> (let key = to_lower (trim k); value = js_Number (trim v) in
       if known_key key \<and> trim v \<noteq> [] \<and> is_finite value \<and> \<not> negative value then Some (key, value) else None))"

definition info_of :: "(jstring \<rightharpoonup> jsnum) \<Rightarrow> subscription_info" where
  "info_of m = \<lparr>si_upload = m (js ''upload''), si_download = m (js ''download''),
     si_total = m (js ''total''), si_expire = m (js ''expire'')\<rparr>"

definition user_info_spec :: "jstring \<Rightarrow> subscription_info option" where
  "user_info_spec h = (let es = List.map_filter info_entry (split_on (ch (CHR '';'')) h)
     in if es = [] then None else Some (info_of (map_of (rev es))))"

lemma put_info_info_of:
  "put_info k v (info_of m) = (if known_key k then Some (info_of (m(k \<mapsto> v))) else None)"
  by (simp add: put_info_def known_key_def info_of_def js_inject del: js_Cons)

lemma info_part_entry:
  "info_part (info_of m, b) part = (case info_entry part of None \<Rightarrow> (info_of m, b)
     | Some (k, v) \<Rightarrow> (info_of (m(k \<mapsto> v)), True))"
  by (simp add: info_part_def info_entry_def splitFirst_def Let_def put_info_info_of split: option.splits)

lemma foldl_info_part:
  "foldl info_part (info_of m, b) ps = (let es = List.map_filter info_entry ps
     in (info_of (m ++ map_of (rev es)), b \<or> es \<noteq> []))"
proof (induction ps arbitrary: m b)
  case (Cons p ps)
  show ?case
  proof (cases "info_entry p")
    case None
    with Cons show ?thesis by (simp add: info_part_entry List.map_filter_simps)
  next
    case (Some kv)
    obtain k v where kv: "kv = (k, v)" by fastforce
    have "m(k \<mapsto> v) ++ map_of (rev es) = m ++ map_of (rev es @ [(k, v)])" for es
      by (simp add: map_add_def fun_eq_iff split: option.splits)
    with Cons Some kv show ?thesis by (simp add: info_part_entry List.map_filter_simps Let_def)
  qed
qed (simp add: List.map_filter_simps Let_def)

lemma no_info_info_of: "no_info = info_of Map.empty"
  by (simp add: no_info_def info_of_def)

lemma userinfo_spec: "h \<noteq> [] \<Longrightarrow> parseSubscriptionUserInfo (Some h) = user_info_spec h"
  by (simp add: parseSubscriptionUserInfo_def no_info_info_of foldl_info_part user_info_spec_def Let_def)

lemma split_on_Nil_info: "user_info_spec [] = None"
  by (simp add: user_info_spec_def info_entry_def splitFirst_def List.map_filter_simps)

text \<open>C31: the header parser is its specification: the value of each field is the last
  well-formed part of that key, whatever the letter case and white space; unknown keys, empty,
  non-numeric, infinite and negative values never reach the result, and the result is \<open>null\<close>
  exactly when no part is well formed.\<close>

theorem parseSubscriptionUserInfo_spec:
  "parseSubscriptionUserInfo header = (case header of None \<Rightarrow> None | Some h \<Rightarrow> user_info_spec h)"
proof (cases header)
  case (Some h)
  then show ?thesis
    by (cases "h = []") (simp_all add: userinfo_spec split_on_Nil_info parseSubscriptionUserInfo_def [of "Some []"])
qed (simp add: parseSubscriptionUserInfo_def)

text \<open>A header as servers write it.\<close>

definition info_fields :: "subscription_info \<Rightarrow> (jstring \<times> jsnum option) list" where
  "info_fields i = [(js ''upload'', si_upload i), (js ''download'', si_download i), (js ''total'', si_total i),
     (js ''expire'', si_expire i)]"

definition info_text :: "subscription_info \<Rightarrow> jstring" where
  "info_text i = join (js ''; '') (List.map_filter
     (\<lambda>(k, v). map_option (\<lambda>x. k @ js ''='' @ num_to_string x) v) (info_fields i))"

definition count_ok :: "jsnum option \<Rightarrow> bool" where
  "count_ok v \<longleftrightarrow> (case v of None \<Rightarrow> True | Some x \<Rightarrow> safe_int x \<and> \<not> negative x)"

lemma count_nat: "safe_int x \<Longrightarrow> \<not> negative x \<Longrightarrow> \<exists>n. x = Fin (of_nat n) \<and> n < 2 ^ 53 \<and> num_to_string x = nat_digits n"
  by (erule safe_int_cases) auto

lemma trim_digits: "trim (nat_digits n) = nat_digits n"
  using nat_digits_digits [of n] is_digit_not_ws
  by (intro trim_id) (metis hd_in_set last_in_set nat_digits_ne)

lemma info_entry_text:
  assumes "known_key k" "safe_int x" "\<not> negative x" "set sp \<subseteq> {0x20}"
  shows "info_entry (sp @ k @ js ''='' @ num_to_string x) = Some (k, x)"
proof -
  obtain n where n: "x = Fin (of_nat n)" "n < 2 ^ 53" "num_to_string x = nat_digits n"
    using count_nat [OF assms(2,3)] by blast
  have k: "ch (CHR ''='') \<notin> set k" "to_lower k = k" "k \<noteq> []" "\<not> is_ws (hd k)" "\<not> is_ws (last k)"
    using assms(1) by (auto simp: known_key_def to_lower_cu_def is_ws_def)
  have "ch (CHR ''='') \<notin> set (sp @ k)" using k(1) assms(4) by auto
  from splitFirst_simps(1) [OF this, of "nat_digits n"]
  have s: "splitFirst (sp @ k @ js ''='' @ num_to_string x) (ch (CHR ''='')) = Some (sp @ k, nat_digits n)"
    by (simp add: n(3))
  have "trim (sp @ k) = k"
    using trim_around [of sp "[]" k] k assms(4) by (auto simp: is_ws_def)
  then show ?thesis
    using assms(1,3) n k(2) js_Number_nat [OF n(2)]
    unfolding info_entry_def s by (simp add: trim_digits del: nat_digits.simps)
qed

definition info_pairs :: "subscription_info \<Rightarrow> (jstring \<times> jsnum) list" where
  "info_pairs i = List.map_filter (\<lambda>(k, v). map_option (Pair k) v) (info_fields i)"

lemma info_text_pairs: "info_text i = join (js ''; '') (map (\<lambda>(k, x). k @ js ''='' @ num_to_string x) (info_pairs i))"
  by (simp add: info_text_def info_pairs_def info_fields_def List.map_filter_simps split: option.splits)

lemma info_of_pairs: "info_of (map_of (info_pairs i)) = i"
  by (cases i) (auto simp: info_of_def info_pairs_def info_fields_def List.map_filter_simps js_inject simp del: js_Cons
      split: option.splits)

lemma info_pairs_distinct: "distinct (map fst (info_pairs i))"
  by (auto simp: info_pairs_def info_fields_def List.map_filter_simps js_inject simp del: js_Cons
      split: option.splits)

lemma split_join_space:
  "ts \<noteq> [] \<Longrightarrow> \<forall>t \<in> set ts. ch (CHR '';'') \<notin> set t \<Longrightarrow>
   split_on (ch (CHR '';'')) (sp @ join (js ''; '') ts) = (sp @ hd ts) # map (\<lambda>t. js '' '' @ t) (tl ts)"
  if "ch (CHR '';'') \<notin> set sp" for sp
  using that
proof (induction ts arbitrary: sp rule: induct_list012)
  case (2 t)
  then show ?case by (simp add: split_on_sep_free)
next
  case (3 t u ts)
  have "split_on (ch (CHR '';'')) (js '' '' @ join (js ''; '') (u # ts)) = (js '' '' @ u) # map (\<lambda>t. js '' '' @ t) ts"
    using "3.IH"(2) [of "js '' ''"] "3.prems" by simp
  moreover have "ch (CHR '';'') \<notin> set (sp @ t)" using 3 by simp
  ultimately show ?case using split_on_append_sep [of "ch (CHR '';'')" "sp @ t"] by simp
qed simp

lemma info_entries:
  assumes "\<forall>(k, x) \<in> set ps. known_key k \<and> safe_int x \<and> \<not> negative x" "set sp \<subseteq> {0x20}" "set sp' \<subseteq> {0x20}"
  shows "List.map_filter info_entry (case map (\<lambda>(k, x). k @ js ''='' @ num_to_string x) ps of [] \<Rightarrow> []
     | t # ts \<Rightarrow> (sp @ t) # map (\<lambda>t. sp' @ t) ts) = ps"
proof -
  have e: "List.map_filter info_entry (map (\<lambda>t. sp' @ t) (map (\<lambda>(k, x). k @ js ''='' @ num_to_string x) ps)) = ps"
    if "\<forall>(k, x) \<in> set ps. known_key k \<and> safe_int x \<and> \<not> negative x" for ps
    using that info_entry_text [OF _ _ _ assms(3)]
    by (induction ps) (auto simp: List.map_filter_simps simp del: js_Cons)
  show ?thesis
    using assms(1) info_entry_text [OF _ _ _ assms(2)] e
    by (cases ps) (auto simp: List.map_filter_simps simp del: js_Cons)
qed

lemma info_text_pairs_ok:
  assumes "\<forall>v \<in> {si_upload i, si_download i, si_total i, si_expire i}. count_ok v"
  shows "\<forall>(k, x) \<in> set (info_pairs i). known_key k \<and> safe_int x \<and> \<not> negative x"
  using assms
  by (auto simp: info_pairs_def info_fields_def List.map_filter_simps known_key_def count_ok_def simp del: js_Cons
      split: option.splits)

lemma info_text_roundtrip:
  assumes "\<forall>v \<in> {si_upload i, si_download i, si_total i, si_expire i}. count_ok v" "i \<noteq> no_info"
  shows "parseSubscriptionUserInfo (Some (info_text i)) = Some i"
proof -
  let ?ts = "map (\<lambda>(k, x). k @ js ''='' @ num_to_string x) (info_pairs i)"
  note ok = info_text_pairs_ok [OF assms(1)]
  have ne: "info_pairs i \<noteq> []" using assms(2) info_of_pairs [of i] by (auto simp: no_info_info_of)
  have semi: "ch (CHR '';'') \<notin> set t" if "t \<in> set ?ts" for t
  proof -
    from that obtain k x where t: "t = k @ js ''='' @ num_to_string x" "(k, x) \<in> set (info_pairs i)" by auto
    with ok have "known_key k" "safe_int x" "\<not> negative x" by auto
    with count_nat obtain n where "num_to_string x = nat_digits n" by blast
    with t \<open>known_key k\<close> digits_avoid [of "ch (CHR '';'')" n] show ?thesis
      by (auto simp: known_key_def is_digit_def)
  qed
  have "split_on (ch (CHR '';'')) (info_text i) = hd ?ts # map (\<lambda>t. js '' '' @ t) (tl ?ts)"
  proof -
    have "split_on (ch (CHR '';'')) ([] @ join (js ''; '') ?ts) = ([] @ hd ?ts) # map (\<lambda>t. js '' '' @ t) (tl ?ts)"
      by (rule split_join_space) (use ne semi in auto)
    then show ?thesis unfolding info_text_pairs by (simp only: append_Nil)
  qed
  also have "\<dots> = (case ?ts of [] \<Rightarrow> [] | t # ts \<Rightarrow> ([] @ t) # map (\<lambda>t. js '' '' @ t) ts)"
    using ne by (cases ?ts) auto
  finally have es: "List.map_filter info_entry (split_on (ch (CHR '';'')) (info_text i)) = info_pairs i"
    using info_entries [OF ok, of "[]" "js '' ''"] by simp
  have "info_text i \<noteq> []"
  proof
    assume "info_text i = []"
    with es ne show False by (simp add: info_entry_def splitFirst_def List.map_filter_simps)
  qed
  then show ?thesis
    using es ne map_of_rev_distinct [OF info_pairs_distinct [of i]]
    by (simp add: userinfo_spec user_info_spec_def info_of_pairs)
qed

text \<open>A header written from quota numbers gives exactly these numbers: every non-negative
  integer a double holds exactly, any subset of the four fields.\<close>

theorem userinfo_roundtrip:
  "\<forall>v \<in> {si_upload i, si_download i, si_total i, si_expire i}. count_ok v \<Longrightarrow> i \<noteq> no_info \<Longrightarrow>
   parseSubscriptionUserInfo (Some (info_text i)) = Some i"
  by (rule info_text_roundtrip)

theorem userinfo_roundtrip_witness:
  "parseSubscriptionUserInfo (Some (info_text \<lparr>si_upload = Some (Fin 455727941), si_download = None,
     si_total = Some (Fin 1073741824000), si_expire = Some (Fin 0)\<rparr>))
   = Some \<lparr>si_upload = Some (Fin 455727941), si_download = None,
     si_total = Some (Fin 1073741824000), si_expire = Some (Fin 0)\<rparr>"
  by (rule userinfo_roundtrip) (simp_all add: count_ok_def safe_int_def no_info_def)

end
