(* ===== verification/XrayErrors.thy ===== *)
theory XrayErrors
  imports JsString
begin

section \<open>Error codes (\<open>src/errors.ts\<close>)\<close>

text \<open>
  \<open>XrayError\<close> and \<open>toXrayError\<close>, which turns anything thrown into one.  A thrown value is an
  \<open>XrayError\<close>, another \<open>Error\<close> with its message, or any other value with its conversion to text.
\<close>

datatype error_code = OLCRTC_INVALID_CONFIG | OLCRTC_START_FAILED | OLCRTC_NOT_READY
  | ENGINE_START_FAILED | PERMISSION_DENIED | SUBSCRIPTION_TIMEOUT | SUBSCRIPTION_HTTP_ERROR
  | STATS_UNAVAILABLE | UNKNOWN

definition KNOWN_CODES :: "(jstring \<times> error_code) list" where
  "KNOWN_CODES = [(js ''OLCRTC_INVALID_CONFIG'', OLCRTC_INVALID_CONFIG),
     (js ''OLCRTC_START_FAILED'', OLCRTC_START_FAILED), (js ''OLCRTC_NOT_READY'', OLCRTC_NOT_READY),
     (js ''ENGINE_START_FAILED'', ENGINE_START_FAILED), (js ''PERMISSION_DENIED'', PERMISSION_DENIED),
     (js ''SUBSCRIPTION_TIMEOUT'', SUBSCRIPTION_TIMEOUT),
     (js ''SUBSCRIPTION_HTTP_ERROR'', SUBSCRIPTION_HTTP_ERROR),
     (js ''STATS_UNAVAILABLE'', STATS_UNAVAILABLE), (js ''UNKNOWN'', UNKNOWN)]"

definition RETRYABLE :: "error_code set" where
  "RETRYABLE = {OLCRTC_START_FAILED, OLCRTC_NOT_READY, SUBSCRIPTION_TIMEOUT, STATS_UNAVAILABLE}"

record xray_error =
  xe_code :: error_code
  xe_message :: jstring
  xe_retryable :: bool

definition XrayError :: "error_code \<Rightarrow> jstring \<Rightarrow> xray_error" where
  "XrayError code message = \<lparr>xe_code = code, xe_message = message, xe_retryable = code \<in> RETRYABLE\<rparr>"

datatype thrown = ThrownXray xray_error | ThrownError jstring | ThrownOther jstring

definition toXrayError :: "thrown \<Rightarrow> error_code \<Rightarrow> xray_error" where
  "toXrayError e fallback = (case e of
     ThrownXray x \<Rightarrow> x
   | _ \<Rightarrow>
     (let msg = (case e of ThrownError m \<Rightarrow> m | ThrownOther m \<Rightarrow> m | ThrownXray x \<Rightarrow> xe_message x) in
      case index_of (js ''|'') msg of
        None \<Rightarrow> XrayError fallback msg
      | Some sep \<Rightarrow>
          if 0 < sep then
            (case map_of KNOWN_CODES (take sep msg) of
               Some code \<Rightarrow> XrayError code (drop (sep + 1) msg)
             | None \<Rightarrow> XrayError fallback msg)
          else XrayError fallback msg))"

text \<open>The text of a code, as the native sides write it.\<close>

definition code_text :: "error_code \<Rightarrow> jstring" where
  "code_text code = (case code of OLCRTC_INVALID_CONFIG \<Rightarrow> js ''OLCRTC_INVALID_CONFIG''
     | OLCRTC_START_FAILED \<Rightarrow> js ''OLCRTC_START_FAILED'' | OLCRTC_NOT_READY \<Rightarrow> js ''OLCRTC_NOT_READY''
     | ENGINE_START_FAILED \<Rightarrow> js ''ENGINE_START_FAILED'' | PERMISSION_DENIED \<Rightarrow> js ''PERMISSION_DENIED''
     | SUBSCRIPTION_TIMEOUT \<Rightarrow> js ''SUBSCRIPTION_TIMEOUT''
     | SUBSCRIPTION_HTTP_ERROR \<Rightarrow> js ''SUBSCRIPTION_HTTP_ERROR''
     | STATS_UNAVAILABLE \<Rightarrow> js ''STATS_UNAVAILABLE'' | UNKNOWN \<Rightarrow> js ''UNKNOWN'')"

lemma code_text_known: "map_of KNOWN_CODES (code_text code) = Some code"
  by (cases code) (simp_all add: code_text_def KNOWN_CODES_def js_inject del: js_Cons)

lemma code_text_shape: "ch (CHR ''|'') \<notin> set (code_text code)" "code_text code \<noteq> []"
  by (cases code; simp add: code_text_def)+

lemma known_code_text: "map_of KNOWN_CODES t = Some code \<Longrightarrow> t = code_text code"
  by (auto simp: KNOWN_CODES_def code_text_def simp del: js_Cons split: if_splits)

definition thrown_text :: "thrown \<Rightarrow> jstring" where
  "thrown_text e = (case e of ThrownXray x \<Rightarrow> xe_message x | ThrownError m \<Rightarrow> m | ThrownOther m \<Rightarrow> m)"

definition error_wf :: "xray_error \<Rightarrow> bool" where
  "error_wf x \<longleftrightarrow> xe_retryable x = (xe_code x \<in> RETRYABLE)"

lemma XrayError_wf [simp]: "error_wf (XrayError c m)" "xe_code (XrayError c m) = c" "xe_message (XrayError c m) = m"
  by (simp_all add: error_wf_def XrayError_def)

text \<open>The specification: a known code before the first bar is taken off the message; any other
  message is kept whole under the fallback code.\<close>

lemma toXrayError_prefixed:
  "toXrayError (ThrownError (code_text c @ js ''|'' @ m)) fb = XrayError c m"
  "toXrayError (ThrownOther (code_text c @ js ''|'' @ m)) fb = XrayError c m"
proof -
  have "index_of (js ''|'') (code_text c @ js ''|'' @ m) = Some (length (code_text c))"
    using index_of_single_first [OF code_text_shape(1), of c m] by simp
  then show "toXrayError (ThrownError (code_text c @ js ''|'' @ m)) fb = XrayError c m"
    "toXrayError (ThrownOther (code_text c @ js ''|'' @ m)) fb = XrayError c m"
    using code_text_shape(2) [of c] code_text_known [of c] by (simp_all add: toXrayError_def Let_def)
qed

lemma toXrayError_other:
  assumes "\<forall>x. e \<noteq> ThrownXray x" "\<forall>c m. thrown_text e \<noteq> code_text c @ js ''|'' @ m"
  shows "toXrayError e fb = XrayError fb (thrown_text e)"
proof -
  have k: "map_of KNOWN_CODES (take i t) = None" if "index_of (js ''|'') t = Some i" "t = thrown_text e" for i t
  proof (rule ccontr)
    assume "map_of KNOWN_CODES (take i t) \<noteq> None"
    then obtain c where "take i t = code_text c" using known_code_text by blast
    moreover have "t = take i t @ js ''|'' @ drop (Suc i) t"
      using index_of_single_SomeD [of "ch (CHR ''|'')" t i] that(1) by simp
    ultimately show False using assms(2) that(2) by metis
  qed
  show ?thesis
    using assms(1) k by (cases e) (auto simp: toXrayError_def thrown_text_def Let_def split: option.splits)
qed

text \<open>C33: an error that crosses the bridge comes back as it was: the native \<open>CODE|message\<close> text of any
  code and any message, bars in the message included, gives exactly that code and message.\<close>

theorem toXrayError_roundtrip:
  "toXrayError (ThrownError (code_text c @ js ''|'' @ m)) fb = XrayError c m
   \<and> toXrayError (ThrownXray (toXrayError (ThrownError (code_text c @ js ''|'' @ m)) fb)) fb' = XrayError c m"
  by (simp add: toXrayError_prefixed del: js_Cons) (simp add: toXrayError_def)

text \<open>Every other thrown value keeps its whole message and gets the fallback code of the caller; so
  the code of an error is never invented from a message that only looks like one.\<close>

theorem toXrayError_fallback:
  "\<forall>x. e \<noteq> ThrownXray x \<Longrightarrow> \<forall>c m. thrown_text e \<noteq> code_text c @ js ''|'' @ m \<Longrightarrow>
   toXrayError e fb = XrayError fb (thrown_text e)"
  by (rule toXrayError_other)

theorem toXrayError_fallback_witness:
  "toXrayError (ThrownError (js ''FOO|bar'')) ENGINE_START_FAILED = XrayError ENGINE_START_FAILED (js ''FOO|bar'')"
proof -
  have "js ''FOO|bar'' \<noteq> code_text c @ js ''|'' @ m" for c m
    by (cases c) (simp_all add: code_text_def)
  then show ?thesis
    using toXrayError_fallback [of "ThrownError (js ''FOO|bar'')"] by (simp add: thrown_text_def)
qed

text \<open>The \<open>retryable\<close> flag of an error is decided by its code alone, whatever was thrown: transient
  engine, subscription and stats failures and no other.\<close>

theorem toXrayError_retryable:
  "(\<And>x. e = ThrownXray x \<Longrightarrow> error_wf x) \<Longrightarrow>
   xe_retryable (toXrayError e fb) \<longleftrightarrow> xe_code (toXrayError e fb) \<in>
     {OLCRTC_START_FAILED, OLCRTC_NOT_READY, SUBSCRIPTION_TIMEOUT, STATS_UNAVAILABLE}"
  by (cases e) (auto simp: toXrayError_def Let_def error_wf_def XrayError_def RETRYABLE_def split: option.splits)

theorem toXrayError_retryable_witness:
  "xe_retryable (toXrayError (ThrownError (js ''x'')) STATS_UNAVAILABLE)
   \<longleftrightarrow> xe_code (toXrayError (ThrownError (js ''x'')) STATS_UNAVAILABLE) \<in>
     {OLCRTC_START_FAILED, OLCRTC_NOT_READY, SUBSCRIPTION_TIMEOUT, STATS_UNAVAILABLE}"
  by (rule toXrayError_retryable) simp

end
