(* ===== verification/SubscriptionFetch.thy ===== *)
theory SubscriptionFetch
  imports Subscription XrayErrors "HOL-Library.AList"
begin

section \<open>Fetching a subscription (\<open>src/client.ts\<close>)\<close>

text \<open>
  \<open>fetchSubscription\<close>, \<open>fromSubscription\<close> and \<open>fromSubscriptionWithInfo\<close>.  What the platform's \<open>fetch\<close>
  does is an argument: when and how it settles by itself, in milliseconds after the call.  Its
  documented behaviour is used: it rejects with an \<open>AbortError\<close> when the signal it was given aborts.  A promise that
  never settles is \<open>None\<close>.
\<close>

text \<open>A caught value, with its \<open>name\<close> being \<open>AbortError\<close> or not.\<close>

record failure =
  f_thrown :: thrown
  f_abort :: bool

text \<open>\<open>text()\<close> gives the body, fails while reading it, or never settles.\<close>

record response =
  r_status :: nat
  r_userinfo :: "jstring option"
  r_text :: "(thrown + jstring) option"

datatype settled = Responds response | Fails failure

record network =
  settles_at :: "(rat \<times> settled) option"

record request_init =
  i_headers :: "(jstring \<times> jstring) list"
  i_signal :: bool

definition SUBSCRIPTION_TIMEOUT_MS :: nat where
  "SUBSCRIPTION_TIMEOUT_MS = 15000"

text \<open>The headers of the request; a caller's header of the same name replaces the default.\<close>

definition request_headers :: "request_init option \<Rightarrow> (jstring \<times> jstring) list" where
  "request_headers init = fold (\<lambda>(k, v). AList.update k v) (case init of None \<Rightarrow> [] | Some i \<Rightarrow> i_headers i)
     [(js ''User-Agent'', js ''react-native-nitro-xray-core''), (js ''Accept'', js ''*/*'')]"

text \<open>\<open>{ signal: controller.signal, ...init }\<close>: a signal of the caller replaces the one of the timer.
  The other signal is taken never to abort.\<close>

definition abort_error :: failure where
  "abort_error = \<lparr>f_thrown = ThrownError (js ''Aborted''), f_abort = True\<rparr>"

definition fetch_settles :: "request_init option \<Rightarrow> network \<Rightarrow> settled option" where
  "fetch_settles init net =
     (if (case init of Some i \<Rightarrow> i_signal i | None \<Rightarrow> False) then map_option snd (settles_at net)
      else case settles_at net of
        Some (t, r) \<Rightarrow> if t < of_nat SUBSCRIPTION_TIMEOUT_MS then Some r else Some (Fails abort_error)
      | None \<Rightarrow> Some (Fails abort_error))"

definition http_error :: "nat \<Rightarrow> thrown" where
  "http_error status = ThrownXray (XrayError SUBSCRIPTION_HTTP_ERROR
     (js ''Subscription fetch failed: HTTP '' @ nat_digits status))"

definition timeout_error :: thrown where
  "timeout_error = ThrownXray (XrayError SUBSCRIPTION_TIMEOUT
     (js ''Subscription fetch timed out after '' @ nat_digits SUBSCRIPTION_TIMEOUT_MS @ js ''ms''))"

definition response_ok :: "response \<Rightarrow> bool" where
  "response_ok r \<longleftrightarrow> 200 \<le> r_status r \<and> r_status r < 300"

text \<open>The error thrown for a bad status is caught by the same \<open>catch\<close>; its name is \<open>XrayError\<close>.\<close>

definition on_failure :: "failure \<Rightarrow> thrown" where
  "on_failure f = (if (\<exists>m. f_thrown f = ThrownError m) \<and> f_abort f then timeout_error else f_thrown f)"

definition fetchSubscription :: "request_init option \<Rightarrow> network \<Rightarrow> (thrown + response) option" where
  "fetchSubscription init net = (case fetch_settles init net of
     None \<Rightarrow> None
   | Some (Responds response) \<Rightarrow> Some (if response_ok response then Inr response
       else Inl (on_failure \<lparr>f_thrown = http_error (r_status response), f_abort = False\<rparr>))
   | Some (Fails e) \<Rightarrow> Some (Inl (on_failure e)))"

text \<open>The awaited body; the timer is already cleared.\<close>

definition with_text :: "(thrown + response) option \<Rightarrow> (response \<Rightarrow> jstring \<Rightarrow> 'a) \<Rightarrow> (thrown + 'a) option" where
  "with_text p f = (case p of None \<Rightarrow> None
     | Some (Inl e) \<Rightarrow> Some (Inl e)
     | Some (Inr response) \<Rightarrow> (case r_text response of None \<Rightarrow> None
         | Some (Inl e) \<Rightarrow> Some (Inl e) | Some (Inr t) \<Rightarrow> Some (Inr (f response t))))"

definition fromSubscription :: "request_init option \<Rightarrow> network \<Rightarrow> (thrown + server list) option" where
  "fromSubscription init net = with_text (fetchSubscription init net) (\<lambda>_ t. parseSubscription t)"

definition fromSubscriptionWithInfo ::
  "request_init option \<Rightarrow> network \<Rightarrow> (thrown + (server list \<times> subscription_info option)) option" where
  "fromSubscriptionWithInfo init net = with_text (fetchSubscription init net)
     (\<lambda>response t. (parseSubscription t, parseSubscriptionUserInfo (r_userinfo response)))"

subsection \<open>The outcome of a fetch\<close>

definition own_signal :: "request_init option \<Rightarrow> bool" where
  "own_signal init \<longleftrightarrow> (case init of Some i \<Rightarrow> i_signal i | None \<Rightarrow> False)"

text \<open>The answer that came in time, if any.\<close>

definition in_time :: "network \<Rightarrow> settled option" where
  "in_time net = (case settles_at net of Some (t, r) \<Rightarrow> if t < 15000 then Some r else None | None \<Rightarrow> None)"

lemma fetch_settles_in_time:
  "\<not> own_signal init \<Longrightarrow> fetch_settles init net = Some (coalesce (in_time net) (Fails abort_error))"
  unfolding fetch_settles_def own_signal_def in_time_def SUBSCRIPTION_TIMEOUT_MS_def by (auto split: option.splits)



text \<open>
  C16: a subscription that is delivered comes out whole: for a 2xx answer in time whose body is a list of
  links, wrapped in base64 or not, the caller gets the servers of all its links in order and the quota
  of the header.
\<close>

theorem fromSubscription_delivers:
  assumes "\<not> own_signal init" "settles_at net = Some (t, Responds response)" "t < 15000"
    and "r_status response \<in> {200..299}" "r_text response = Some (Inr body)"
    and "body = payload_text ls l \<or> body = b64_text url pad (utf8 (payload_text ls l)) \<and> wf16 (payload_text ls l)"
    and "\<forall>t \<in> set (map fst ls @ [l]). one_line t" "\<exists>t \<in> set (map fst ls @ [l]). parseShareLink t \<noteq> None"
  shows "fromSubscriptionWithInfo init net = Some (Inr (List.map_filter parseShareLink (map fst ls @ [l]),
      parseSubscriptionUserInfo (r_userinfo response)))
    \<and> fromSubscription init net = Some (Inr (List.map_filter parseShareLink (map fst ls @ [l])))"
proof -
  have p: "parseSubscription body = List.map_filter parseShareLink (map fst ls @ [l])"
    using assms(6) parseSubscription_plain [OF assms(7,8)] parseSubscription_wrapped [OF _ assms(7,8)] by auto
  have "in_time net = Some (Responds response)" using assms(2,3) by (simp add: in_time_def)
  then have "fetchSubscription init net = Some (Inr response)"
    using assms(4) by (simp add: fetchSubscription_def fetch_settles_in_time [OF assms(1)] response_ok_def)
  with p assms(5) show ?thesis
    by (simp add: fromSubscription_def fromSubscriptionWithInfo_def with_text_def)
qed

lemma fromSubscription_delivers_witness:
  "\<exists>s. fromSubscription None \<lparr>settles_at = Some (80, Responds \<lparr>r_status = 200, r_userinfo = None,
       r_text = Some (Inr (payload_text [(js ''trojan://p@h:1'', True)] (js ''trojan://p@h:1'')))\<rparr>)\<rparr>
     = Some (Inr [s, s])"
proof -
  let ?l = "js ''trojan://p@h:1''"
  have "trim (js '' trojan://p@h:1 '') = ?l" by (simp add: trim_def is_ws_def)
  then obtain s where s: "parseShareLink ?l = Some s" using sample_trojan_parses by (metis parseShareLink_trim not_None_eq)
  have "one_line ?l" by (simp add: one_line_def LF_def CR_def)
  with s show ?thesis
    using fromSubscription_delivers [of None "\<lparr>settles_at = Some (80, Responds \<lparr>r_status = 200, r_userinfo = None,
       r_text = Some (Inr (payload_text [(?l, True)] ?l))\<rparr>)\<rparr>" 80 "\<lparr>r_status = 200, r_userinfo = None,
       r_text = Some (Inr (payload_text [(?l, True)] ?l))\<rparr>" "payload_text [(?l, True)] ?l" "[(?l, True)]" ?l False 0]
    by (simp add: own_signal_def List.map_filter_simps del: js_Cons)
qed

text \<open>What the time box does not cover: a signal of the caller takes its place, and the body is read
  after the timer is cleared, so a host that stalls after the headers holds the caller forever.\<close>

lemma own_signal_unbounded:
  "fetchSubscription (Some \<lparr>i_headers = [], i_signal = True\<rparr>) \<lparr>settles_at = None\<rparr> = None"
  by (simp add: fetchSubscription_def fetch_settles_def)

lemma stalled_body_unbounded:
  "r_status r = 200 \<Longrightarrow> r_text r = None \<Longrightarrow> fromSubscription None \<lparr>settles_at = Some (1, Responds r)\<rparr> = None"
  by (simp add: fromSubscription_def with_text_def fetchSubscription_def fetch_settles_def response_ok_def
      SUBSCRIPTION_TIMEOUT_MS_def)

end
