(* ===== verification/ConfigBuild.thy ===== *)
theory ConfigBuild
  imports ServerTypes
begin

section \<open>Building the Xray configuration (\<open>src/config/build.ts\<close>)\<close>

text \<open>
  \<open>buildXrayConfig\<close>, \<open>buildOlcrtcTunnelConfig\<close> and their helpers.  The configuration is the JSON
  document handed to the engine, so it is a \<open>json\<close> value here, objects with their keys in the order
  of the source.  \<open>omitUndefined\<close> works on a list of keys with optional values.
\<close>

definition obj :: "(string \<times> json) list \<Rightarrow> json" where
  "obj kvs = JObj (map (\<lambda>(k, v). (js k, v)) kvs)"

definition str :: "string \<Rightarrow> json" where
  "str s = JStr (js s)"

definition num :: "nat \<Rightarrow> json" where
  "num n = JNum (Fin (of_nat n))"

definition omitUndefined :: "(string \<times> json option) list \<Rightarrow> json" where
  "omitUndefined kvs = obj (List.map_filter (\<lambda>(k, v). map_option (Pair k) v) kvs)"

record olcrtc_chain =
  oc_socksPort :: jsnum
  oc_socksHost :: "jstring option"
  oc_tag :: "jstring option"

record common_options =
  bo_proxyTag :: "jstring option"
  bo_dns :: "jstring list option"
  bo_tunName :: "jstring option"
  bo_mtu :: "jsnum option"
  bo_logLevel :: "jstring option"
  bo_enableStats :: "bool option"

record build_options = common_options +
  bo_olcrtc :: "olcrtc_chain option"

record tunnel_options = common_options +
  to_socksPort :: jsnum
  to_socksHost :: "jstring option"

definition PRIVATE_RANGES :: "json list" where
  "PRIVATE_RANGES = map str [''127.0.0.1/32'', ''10.0.0.0/8'', ''172.16.0.0/12'', ''192.168.0.0/16'',
     ''169.254.0.0/16'', ''fc00::/7'', ''fe80::/10'']"

subsection \<open>Protocol settings\<close>

definition xrayProtocol :: "protocol \<Rightarrow> jstring" where
  "xrayProtocol p = (case p of Vless \<Rightarrow> js ''vless'' | Vmess \<Rightarrow> js ''vmess'' | Trojan \<Rightarrow> js ''trojan''
     | Shadowsocks \<Rightarrow> js ''shadowsocks'')"

definition vnext :: "server \<Rightarrow> json \<Rightarrow> json" where
  "vnext server user = obj [(''vnext'', JArr [obj [(''address'', ps_address server),
     (''port'', JNum (ps_port server)), (''users'', JArr [user])]])]"

definition buildSettings :: "server \<Rightarrow> json" where
  "buildSettings server = (case ps_protocol server of
     Vless \<Rightarrow> vnext server (omitUndefined [(''id'', ps_id server),
       (''encryption'', Some (nullish (ps_encryption server) (str ''none''))),
       (''flow'', map_option JStr (ps_flow server))])
   | Vmess \<Rightarrow> vnext server (omitUndefined [(''id'', ps_id server),
       (''alterId'', Some (JNum (coalesce (ps_alterId server) (Fin 0)))),
       (''security'', Some (nullish (ps_encryption server) (str ''auto'')))])
   | Trojan \<Rightarrow> obj [(''servers'', JArr [omitUndefined [(''address'', Some (ps_address server)),
       (''port'', Some (JNum (ps_port server))), (''password'', map_option JStr (ps_password server)),
       (''flow'', map_option JStr (ps_flow server))]])]
   | Shadowsocks \<Rightarrow> obj [(''servers'', JArr [omitUndefined [(''address'', Some (ps_address server)),
       (''port'', Some (JNum (ps_port server))), (''method'', map_option JStr (ps_method server)),
       (''password'', map_option JStr (ps_password server))]])])"

subsection \<open>Transport and security\<close>

definition if_host :: "server \<Rightarrow> (json \<Rightarrow> json) \<Rightarrow> json option" where
  "if_host server f = (case ps_host server of Some h \<Rightarrow> if truthy h then Some (f h) else None | None \<Rightarrow> None)"

definition buildTransportSettings :: "server \<Rightarrow> (string \<times> json) option" where
  "buildTransportSettings server =
     (let network = ps_network server; path = Some (nullish (ps_path server) (str ''/'')) in
      if network = str ''ws'' then Some (''wsSettings'', omitUndefined [(''path'', path),
        (''headers'', if_host server (\<lambda>h. obj [(''Host'', h)]))])
      else if network = str ''httpupgrade'' then Some (''httpupgradeSettings'',
        omitUndefined [(''path'', path), (''host'', ps_host server)])
      else if network = str ''xhttp'' then Some (''xhttpSettings'',
        omitUndefined [(''path'', path), (''host'', ps_host server)])
      else if network = str ''grpc'' then Some (''grpcSettings'',
        omitUndefined [(''serviceName'', Some (nullish (ps_serviceName server) (JStr [])))])
      else if network = str ''h2'' then Some (''httpSettings'', omitUndefined [(''path'', path),
        (''host'', if_host server (\<lambda>h. JArr [h]))])
      else if network = str ''kcp'' then Some (''kcpSettings'',
        obj [(''header'', obj [(''type'', nullish (ps_headerType server) (str ''none''))])])
      else if network = str ''tcp'' \<and> ps_headerType server = Some (str ''http'') then Some (''tcpSettings'',
        obj [(''header'', omitUndefined [(''type'', Some (str ''http'')),
          (''request'', if_host server (\<lambda>h. obj [(''headers'', obj [(''Host'', JArr [h])])]))])])
      else None)"

definition sockopt :: "jstring option \<Rightarrow> (string \<times> json) list" where
  "sockopt dialerProxyTag = (case str_or_undef dialerProxyTag of None \<Rightarrow> []
     | Some t \<Rightarrow> [(''sockopt'', obj [(''dialerProxy'', JStr t)])])"

definition buildStreamSettings :: "server \<Rightarrow> jstring option \<Rightarrow> json" where
  "buildStreamSettings server dialerProxyTag = obj (
     [(''network'', ps_network server), (''security'', JStr (ps_security server))]
     @ sockopt dialerProxyTag
     @ (if ps_security server = js ''tls'' then [(''tlsSettings'', omitUndefined [
           (''serverName'', ps_sni server), (''fingerprint'', ps_fingerprint server),
           (''alpn'', map_option (\<lambda>a. JArr (map JStr a)) (ps_alpn server))])]
        else if ps_security server = js ''reality'' then [(''realitySettings'', omitUndefined [
           (''show'', Some (JBool False)), (''serverName'', ps_sni server),
           (''fingerprint'', ps_fingerprint server), (''publicKey'', map_option JStr (ps_publicKey server)),
           (''shortId'', map_option JStr (ps_shortId server)),
           (''spiderX'', map_option JStr (ps_spiderX server))])]
        else [])
     @ (case buildTransportSettings server of None \<Rightarrow> [] | Some kv \<Rightarrow> [kv]))"

subsection \<open>Outbounds and the whole document\<close>

definition buildOutbound :: "server \<Rightarrow> jstring \<Rightarrow> jstring option \<Rightarrow> json" where
  "buildOutbound server tag dialerProxyTag = obj [(''tag'', JStr tag),
     (''protocol'', JStr (xrayProtocol (ps_protocol server))), (''settings'', buildSettings server),
     (''streamSettings'', buildStreamSettings server dialerProxyTag)]"

definition socks_outbound :: "jstring \<Rightarrow> jstring option \<Rightarrow> jsnum \<Rightarrow> json" where
  "socks_outbound tag host port = obj [(''tag'', JStr tag), (''protocol'', str ''socks''),
     (''settings'', obj [(''servers'', JArr [obj [
        (''address'', JStr (coalesce host (js ''127.0.0.1''))), (''port'', JNum port)]])])]"

definition buildOlcrtcOutbound :: "olcrtc_chain \<Rightarrow> jstring \<Rightarrow> json" where
  "buildOlcrtcOutbound olcrtc tag = socks_outbound tag (oc_socksHost olcrtc) (oc_socksPort olcrtc)"

definition plain_outbounds :: "json list" where
  "plain_outbounds = [obj [(''protocol'', str ''freedom''), (''tag'', str ''direct'')],
     obj [(''protocol'', str ''blackhole''), (''tag'', str ''block'')],
     obj [(''protocol'', str ''dns''), (''tag'', str ''dns-out'')]]"

text \<open>The part of the document the two builders have in common, word for word.\<close>

definition config_of :: "'a common_options_scheme \<Rightarrow> jstring \<Rightarrow> json list \<Rightarrow> json" where
  "config_of options proxyTag outbounds = obj (
     [(''log'', obj [(''loglevel'', JStr (coalesce (bo_logLevel options) (js ''warning'')))]),
      (''inbounds'', JArr [obj [(''tag'', str ''tun-in''), (''protocol'', str ''tun''), (''port'', num 0),
         (''settings'', obj [(''name'', JStr (coalesce (bo_tunName options) (js ''tun0''))),
            (''mtu'', JNum (coalesce (bo_mtu options) (Fin 1500)))]),
         (''sniffing'', obj [(''enabled'', JBool True),
            (''destOverride'', JArr [str ''http'', str ''tls'', str ''quic''])])]]),
      (''outbounds'', JArr outbounds),
      (''dns'', obj [(''servers'', JArr (map JStr (coalesce (bo_dns options) [js ''1.1.1.1'', js ''localhost''])))]),
      (''routing'', obj [(''domainStrategy'', str ''IPIfNonMatch''), (''rules'', JArr [
         obj [(''type'', str ''field''), (''port'', num 53), (''outboundTag'', str ''dns-out'')],
         obj [(''type'', str ''field''), (''ip'', JArr PRIVATE_RANGES), (''outboundTag'', str ''direct'')],
         obj [(''type'', str ''field''), (''inboundTag'', JArr [str ''tun-in'']), (''outboundTag'', JStr proxyTag)]])])]
     @ (if coalesce (bo_enableStats options) True then
        [(''stats'', obj []),
         (''policy'', obj [
           (''levels'', obj [(''0'', obj [(''statsUserUplink'', JBool True), (''statsUserDownlink'', JBool True)])]),
           (''system'', obj [(''statsInboundUplink'', JBool True), (''statsInboundDownlink'', JBool True),
              (''statsOutboundUplink'', JBool True), (''statsOutboundDownlink'', JBool True)])])]
        else []))"

definition buildXrayConfig :: "server \<Rightarrow> build_options \<Rightarrow> json" where
  "buildXrayConfig server options =
     (let proxyTag = coalesce (bo_proxyTag options) (js ''proxy'');
          olcrtcTag = map_option (\<lambda>c. coalesce (oc_tag c) (js ''olcrtc-out'')) (bo_olcrtc options);
          outbounds = [buildOutbound server proxyTag olcrtcTag] @ plain_outbounds
            @ (case (bo_olcrtc options, str_or_undef olcrtcTag) of
                 (Some olcrtc, Some tag) \<Rightarrow> [buildOlcrtcOutbound olcrtc tag] | _ \<Rightarrow> [])
      in config_of options proxyTag outbounds)"

definition buildOlcrtcTunnelConfig :: "tunnel_options \<Rightarrow> json" where
  "buildOlcrtcTunnelConfig options =
     (let proxyTag = coalesce (bo_proxyTag options) (js ''proxy'')
      in config_of options proxyTag
           ([socks_outbound proxyTag (to_socksHost options) (to_socksPort options)] @ plain_outbounds))"

subsection \<open>Reading a document\<close>

text \<open>What the engine looks up: the first outbound of a tag, the targets of the rules.\<close>

fun field :: "string \<Rightarrow> json \<Rightarrow> json option" where
  "field k (JObj kvs) = map_of kvs (js k)"
| "field k _ = None"

fun items :: "json option \<Rightarrow> json list" where
  "items (Some (JArr vs)) = vs"
| "items _ = []"

definition path_at :: "string list \<Rightarrow> json \<Rightarrow> json option" where
  "path_at ks v = foldl (\<lambda>v k. Option.bind v (field k)) (Some v) ks"

definition outbounds_of :: "json \<Rightarrow> json list" where
  "outbounds_of config = items (field ''outbounds'' config)"

definition outbound_tagged :: "json \<Rightarrow> json \<Rightarrow> json option" where
  "outbound_tagged config tag = find (\<lambda>ob. field ''tag'' ob = Some tag) (outbounds_of config)"

definition rule_targets :: "json \<Rightarrow> json list" where
  "rule_targets config = List.map_filter (field ''outboundTag'') (items (path_at [''routing'', ''rules''] config))"

definition dialers :: "json \<Rightarrow> json list" where
  "dialers config = List.map_filter (path_at [''streamSettings'', ''sockopt'', ''dialerProxy'']) (outbounds_of config)"

lemma field_obj [simp]: "field k (obj kvs) = map_of kvs k"
  by (induction kvs) (auto simp: obj_def js_inject simp del: js_Cons)

lemma map_of_omit: "distinct (map fst kvs) \<Longrightarrow>
  map_of (List.map_filter (\<lambda>(k, v). map_option (Pair k) v) kvs) k = (case map_of kvs k of None \<Rightarrow> None | Some v \<Rightarrow> v)"
proof (induction kvs)
  case (Cons p kvs)
  obtain k' v where p: "p = (k', v)" by fastforce
  have "map_of kvs k' = None" using Cons.prems by (simp add: p map_of_eq_None_iff)
  with Cons p show ?case by (cases v) (auto simp: List.map_filter_simps)
qed (simp add: List.map_filter_simps)

lemma field_omit [simp]: "distinct (map fst kvs) \<Longrightarrow>
  field k (omitUndefined kvs) = (case map_of kvs k of None \<Rightarrow> None | Some v \<Rightarrow> v)"
  by (simp add: omitUndefined_def map_of_omit)

lemma path_at_simps [simp]:
  "path_at [] v = Some v" "path_at [k] v = field k v"
  "path_at (k # k' # ks) v = Option.bind (field k v) (path_at (k' # ks))"
proof -
  have none: "foldl (\<lambda>v k. Option.bind v (field k)) None ks = None" for ks by (induction ks) auto
  show "path_at [] v = Some v" "path_at [k] v = field k v" by (simp_all add: path_at_def)
  show "path_at (k # k' # ks) v = Option.bind (field k v) (path_at (k' # ks))"
    by (cases "field k v") (simp_all add: path_at_def none)
qed

end
