(* ===== verification/ConfigFacts.thy ===== *)
theory ConfigFacts
  imports ConfigBuild
begin

section \<open>Correctness of the configuration builder\<close>

text \<open>
  Every rule names an outbound that exists, the proxy is chained through olcrtc exactly when that is
  asked for, the document survives \<open>JSON.stringify\<close> and \<open>JSON.parse\<close>, and every field of the server
  that its protocol and security use arrives in the outbound.  The lemmas read the document the way
  the engine does (\<open>outbound_tagged\<close>, \<open>rule_targets\<close>, \<open>dialers\<close>).
\<close>

subsection \<open>Routing and chaining\<close>

definition proxy_tag :: "'a common_options_scheme \<Rightarrow> jstring" where
  "proxy_tag options = coalesce (bo_proxyTag options) (js ''proxy'')"

text \<open>The hop the options ask for: its tag and the chain options.\<close>

definition chain_of :: "build_options \<Rightarrow> (jstring \<times> olcrtc_chain) option" where
  "chain_of options = (case bo_olcrtc options of None \<Rightarrow> None
     | Some c \<Rightarrow> (let tag = coalesce (oc_tag c) (js ''olcrtc-out'') in if tag = [] then None else Some (tag, c)))"

definition reserved_tags :: "jstring set" where
  "reserved_tags = {js ''direct'', js ''block'', js ''dns-out''}"

definition hop_outbounds :: "build_options \<Rightarrow> json list" where
  "hop_outbounds options = (case chain_of options of None \<Rightarrow> []
     | Some (tag, c) \<Rightarrow> [socks_outbound tag (oc_socksHost c) (oc_socksPort c)])"

lemma buildXrayConfig_config_of:
  "buildXrayConfig server options = config_of options (proxy_tag options)
     (buildOutbound server (proxy_tag options) (map_option fst (chain_of options)) # plain_outbounds
       @ hop_outbounds options)"
proof -
  have d: "buildOutbound server t (map_option f x) = buildOutbound server t None"
    if "str_or_undef (map_option f x) = None" for t f and x :: "olcrtc_chain option"
    using that by (simp add: buildOutbound_def buildStreamSettings_def sockopt_def)
  show ?thesis
  proof (cases "bo_olcrtc options")
    case None
    then show ?thesis by (simp add: buildXrayConfig_def proxy_tag_def chain_of_def hop_outbounds_def Let_def)
  next
    case (Some c)
    let ?f = "\<lambda>c. coalesce (oc_tag c) (js ''olcrtc-out'')"
    show ?thesis
    proof (cases "?f c = []")
      case True
      then have "str_or_undef (map_option ?f (Some c)) = None" by simp
      from d [OF this] Some True show ?thesis
        by (simp add: buildXrayConfig_def proxy_tag_def chain_of_def hop_outbounds_def Let_def)
    next
      case False
      then show ?thesis using Some
        by (simp add: buildXrayConfig_def proxy_tag_def chain_of_def hop_outbounds_def buildOlcrtcOutbound_def Let_def
            del: js_Cons)
    qed
  qed
qed

lemma config_of_fields:
  "outbounds_of (config_of options t obs) = obs"
  "rule_targets (config_of options t obs) = [str ''dns-out'', str ''direct'', JStr t]"
  by (simp_all add: outbounds_of_def rule_targets_def config_of_def List.map_filter_simps)

lemma outbound_fields [simp]:
  "field ''tag'' (buildOutbound s t d) = Some (JStr t)"
  "field ''tag'' (socks_outbound t h p) = Some (JStr t)"
  "field ''protocol'' (socks_outbound t h p) = Some (str ''socks'')"
  "field ''streamSettings'' (socks_outbound t h p) = None"
  "field ''streamSettings'' (buildOutbound s t d) = Some (buildStreamSettings s d)"
  by (simp_all add: buildOutbound_def socks_outbound_def)

lemma transport_keys: "buildTransportSettings s = Some (k, v) \<Longrightarrow>
  k \<in> {''wsSettings'', ''httpupgradeSettings'', ''xhttpSettings'', ''grpcSettings'', ''httpSettings'',
    ''kcpSettings'', ''tcpSettings''}"
  by (auto simp: buildTransportSettings_def Let_def split: if_splits)

lemma stream_fields:
  "field ''sockopt'' (buildStreamSettings s d) = map_option (\<lambda>t. obj [(''dialerProxy'', JStr t)]) (str_or_undef d)"
  "field ''network'' (buildStreamSettings s d) = Some (ps_network s)"
  "field ''security'' (buildStreamSettings s d) = Some (JStr (ps_security s))"
proof -
  have t: "map_of (case buildTransportSettings s of None \<Rightarrow> [] | Some kv \<Rightarrow> [kv]) ''sockopt'' = None"
    using transport_keys [of s] by (cases "buildTransportSettings s") auto
  show "field ''sockopt'' (buildStreamSettings s d) = map_option (\<lambda>t. obj [(''dialerProxy'', JStr t)]) (str_or_undef d)"
    using t by (cases "str_or_undef d") (simp_all add: buildStreamSettings_def sockopt_def map_add_def)
  show "field ''network'' (buildStreamSettings s d) = Some (ps_network s)"
    "field ''security'' (buildStreamSettings s d) = Some (JStr (ps_security s))"
    by (simp_all add: buildStreamSettings_def)
qed

lemma dialer_buildOutbound:
  "path_at [''streamSettings'', ''sockopt'', ''dialerProxy''] (buildOutbound s t d) = map_option JStr (str_or_undef d)"
  by (cases "str_or_undef d") (simp_all add: stream_fields)

lemma chain_of_ne: "str_or_undef (map_option fst (chain_of options)) = map_option fst (chain_of options)"
  by (auto simp: chain_of_def Let_def split: option.splits)

lemma plain_dialers: "List.map_filter (path_at [''streamSettings'', ''sockopt'', ''dialerProxy'']) plain_outbounds = []"
  by (simp add: plain_outbounds_def List.map_filter_simps)

lemma hop_dialers: "List.map_filter (path_at [''streamSettings'', ''sockopt'', ''dialerProxy'']) (hop_outbounds options) = []"
  by (auto simp: hop_outbounds_def List.map_filter_simps split: option.splits)

lemma config_dialers:
  "dialers (buildXrayConfig s options) = (case chain_of options of None \<Rightarrow> [] | Some (tag, _) \<Rightarrow> [JStr tag])"
proof -
  have "dialers (buildXrayConfig s options) = (case map_option JStr (map_option fst (chain_of options)) of
      None \<Rightarrow> [] | Some t \<Rightarrow> [t])"
    unfolding dialers_def buildXrayConfig_config_of config_of_fields map_filter_append
      List.map_filter_simps append_Cons dialer_buildOutbound chain_of_ne plain_dialers hop_dialers
    by (simp split: option.splits)
  then show ?thesis by (auto split: option.splits)
qed

lemma buildXrayConfig_rules:
  "rule_targets (buildXrayConfig s options) = [str ''dns-out'', str ''direct'', JStr (proxy_tag options)]"
  by (simp only: buildXrayConfig_config_of config_of_fields)

lemma config_length:
  "length (outbounds_of (buildXrayConfig s options)) = (case chain_of options of None \<Rightarrow> 4 | Some _ \<Rightarrow> 5)"
  unfolding buildXrayConfig_config_of config_of_fields
  by (simp add: hop_outbounds_def plain_outbounds_def split: option.splits)

definition tags_ok :: "build_options \<Rightarrow> bool" where
  "tags_ok options \<longleftrightarrow> proxy_tag options \<notin> reserved_tags
     \<and> (case chain_of options of None \<Rightarrow> True | Some (tag, _) \<Rightarrow> tag \<notin> reserved_tags \<and> tag \<noteq> proxy_tag options)"

lemma outbound_lookup:
  assumes "tags_ok options"
  shows "outbound_tagged (buildXrayConfig s options) (JStr (proxy_tag options))
      = Some (buildOutbound s (proxy_tag options) (map_option fst (chain_of options)))"
    and "outbound_tagged (buildXrayConfig s options) (str ''direct'') = Some (plain_outbounds ! 0)"
    and "outbound_tagged (buildXrayConfig s options) (str ''dns-out'') = Some (plain_outbounds ! 2)"
    and "chain_of options = Some (tag, c) \<Longrightarrow> outbound_tagged (buildXrayConfig s options) (JStr tag)
      = Some (socks_outbound tag (oc_socksHost c) (oc_socksPort c))"
  using assms
  unfolding outbound_tagged_def buildXrayConfig_config_of config_of_fields
  by (auto simp: tags_ok_def reserved_tags_def str_def plain_outbounds_def hop_outbounds_def js_inject
      simp del: js_Cons)

definition sample_ws_server :: server where
  "sample_ws_server = (server_of Vless (str ''n'') (str ''h'') (Fin 443) [])
     \<lparr>ps_id := Some (str ''u''), ps_network := str ''ws'', ps_security := js ''tls'', ps_host := Some (str ''a.b'')\<rparr>"

definition default_options :: build_options where
  "default_options = \<lparr>bo_proxyTag = None, bo_dns = None, bo_tunName = None, bo_mtu = None, bo_logLevel = None,
     bo_enableStats = None, bo_olcrtc = None\<rparr>"

definition chained_options :: build_options where
  "chained_options = default_options\<lparr>bo_olcrtc := Some \<lparr>oc_socksPort = Fin 1080, oc_socksHost = None, oc_tag = None\<rparr>\<rparr>"

lemma sample_options_ok: "tags_ok default_options" "tags_ok chained_options"
  "chain_of chained_options = Some (js ''olcrtc-out'', \<lparr>oc_socksPort = Fin 1080, oc_socksHost = None, oc_tag = None\<rparr>)"
  by (simp_all add: tags_ok_def default_options_def chained_options_def proxy_tag_def chain_of_def reserved_tags_def)

text \<open>Every rule of a built configuration routes to an outbound that exists, whatever the
  server and the options are.\<close>

theorem buildXrayConfig_rules_resolve:
  "rule_targets (buildXrayConfig s options) = [str ''dns-out'', str ''direct'', JStr (proxy_tag options)]
   \<and> list_all (\<lambda>t. outbound_tagged (buildXrayConfig s options) t \<noteq> None) (rule_targets (buildXrayConfig s options))"
  unfolding outbound_tagged_def buildXrayConfig_config_of config_of_fields
  by (simp add: plain_outbounds_def)





text \<open>An empty tag asks for a hop and gets none, without an error.\<close>

lemma empty_tag_drops_chain:
  "bo_olcrtc options = Some c \<Longrightarrow> oc_tag c = Some [] \<Longrightarrow>
   dialers (buildXrayConfig s options) = [] \<and> length (outbounds_of (buildXrayConfig s options)) = 4"
  by (simp add: config_dialers config_length chain_of_def)

text \<open>The olcrtc-only configuration sends everything but DNS and private ranges into the SOCKS
  listener and contains no other way out.\<close>

theorem buildOlcrtcTunnelConfig_routes:
  "proxy_tag options \<notin> reserved_tags \<Longrightarrow>
   map (outbound_tagged (buildOlcrtcTunnelConfig options)) (rule_targets (buildOlcrtcTunnelConfig options))
   = [Some (obj [(''protocol'', str ''dns''), (''tag'', str ''dns-out'')]),
      Some (obj [(''protocol'', str ''freedom''), (''tag'', str ''direct'')]),
      Some (socks_outbound (proxy_tag options) (to_socksHost options) (to_socksPort options))]
   \<and> length (outbounds_of (buildOlcrtcTunnelConfig options)) = 4 \<and> dialers (buildOlcrtcTunnelConfig options) = []"
proof -
  have c: "buildOlcrtcTunnelConfig options = config_of options (proxy_tag options)
      (socks_outbound (proxy_tag options) (to_socksHost options) (to_socksPort options) # plain_outbounds)"
    by (simp add: buildOlcrtcTunnelConfig_def proxy_tag_def Let_def)
  have d: "dialers (buildOlcrtcTunnelConfig options) = []"
    unfolding dialers_def c config_of_fields using plain_dialers by (simp add: List.map_filter_simps)
  assume "proxy_tag options \<notin> reserved_tags"
  then show ?thesis
    using d unfolding outbound_tagged_def c config_of_fields
    by (auto simp: reserved_tags_def str_def plain_outbounds_def js_inject simp del: js_Cons)
qed

definition sample_tunnel :: tunnel_options where
  "sample_tunnel = \<lparr>bo_proxyTag = None, bo_dns = None, bo_tunName = None, bo_mtu = None, bo_logLevel = None,
     bo_enableStats = None, to_socksPort = Fin 8808, to_socksHost = None\<rparr>"

theorem buildOlcrtcTunnelConfig_routes_witness:
  "dialers (buildOlcrtcTunnelConfig sample_tunnel) = []"
  using buildOlcrtcTunnelConfig_routes [of sample_tunnel]
  by (simp add: sample_tunnel_def proxy_tag_def reserved_tags_def)

subsection \<open>The document survives serialisation\<close>

definition server_json_ok :: "server \<Rightarrow> bool" where
  "server_json_ok s \<longleftrightarrow> json_ok (ps_address s) \<and> safe_int (ps_port s) \<and> json_ok (ps_network s)
     \<and> safe_int (coalesce (ps_alterId s) (Fin 0))
     \<and> list_all (\<lambda>v. json_ok (coalesce v JNull)) [ps_id s, ps_encryption s, ps_sni s, ps_fingerprint s, ps_path s,
          ps_host s, ps_serviceName s, ps_headerType s]"

definition options_json_ok :: "build_options \<Rightarrow> bool" where
  "options_json_ok o' \<longleftrightarrow> safe_int (coalesce (bo_mtu o') (Fin 0))
     \<and> (case bo_olcrtc o' of None \<Rightarrow> True | Some c \<Rightarrow> safe_int (oc_socksPort c))"

lemma json_ok_obj [simp]:
  "json_ok (obj kvs) \<longleftrightarrow> distinct (map fst kvs) \<and> (\<forall>v \<in> snd ` set kvs. json_ok v)"
proof -
  have "map fst (map (\<lambda>(k, v). (js k, v :: json)) kvs) = map js (map fst kvs)" by auto
  moreover have "inj js" by (rule injI) (simp add: js_inject)
  ultimately have "distinct (map fst (map (\<lambda>(k, v). (js k, v :: json)) kvs)) = distinct (map fst kvs)"
    by (metis distinct_map inj_on_subset subset_UNIV)
  then show ?thesis by (auto simp: obj_def)
qed

lemma json_ok_omit:
  "distinct (map fst kvs) \<Longrightarrow> list_all (\<lambda>v. json_ok (coalesce v JNull)) (map snd kvs) \<Longrightarrow> json_ok (omitUndefined kvs)"
proof -
  assume d: "distinct (map fst kvs)" and v: "list_all (\<lambda>v. json_ok (coalesce v JNull)) (map snd kvs)"
  let ?m = "List.map_filter (\<lambda>(k, v). map_option (Pair k) v) kvs"
  have sub: "fst ` set ?m \<subseteq> fst ` set kvs" by (induction kvs) (auto simp: List.map_filter_simps split: option.splits)
  have "distinct (map fst ?m)" using d
  proof (induction kvs)
    case (Cons p kvs)
    have "fst ` set (List.map_filter (\<lambda>(k, v). map_option (Pair k) v) kvs) \<subseteq> fst ` set kvs"
      by (induction kvs) (auto simp: List.map_filter_simps split: option.splits)
    with Cons show ?case by (cases p; cases "snd p") (auto simp: List.map_filter_simps)
  qed (simp add: List.map_filter_simps)
  moreover have "\<forall>v \<in> snd ` set ?m. json_ok v" using v
    by (induction kvs) (auto simp: List.map_filter_simps split: option.splits)
  ultimately show ?thesis by (simp add: omitUndefined_def)
qed

lemma json_ok_str [simp]: "json_ok (str s)" "json_ok (coalesce (map_option JStr x) JNull)" "json_ok (coalesce (map_option (\<lambda>a. JArr (map JStr a)) y) JNull)"
  by (cases x; cases y; simp add: str_def)+

lemma json_ok_num: "n < 2 ^ 53 \<Longrightarrow> json_ok (num n)"
proof -
  assume "n < 2 ^ 53"
  then have "(of_nat n :: rat) < of_nat (2 ^ 53)" by (simp only: of_nat_less_iff)
  then show ?thesis by (simp add: num_def safe_int_def)
qed

lemma json_ok_nullish: "json_ok (coalesce v JNull) \<Longrightarrow> json_ok d \<Longrightarrow> json_ok (nullish v d)"
  by (auto simp: nullish_def split: option.splits)

lemma json_ok_if_host: "json_ok (coalesce (ps_host s) JNull) \<Longrightarrow> (\<And>h. json_ok h \<Longrightarrow> json_ok (f h)) \<Longrightarrow>
  json_ok (coalesce (if_host s f) JNull)"
  by (auto simp: if_host_def split: option.splits)

lemma json_ok_settings: "server_json_ok s \<Longrightarrow> json_ok (buildSettings s)"
  by (cases "ps_protocol s")
    (auto simp: buildSettings_def vnext_def server_json_ok_def intro!: json_ok_omit json_ok_nullish)

lemma json_ok_transport: "server_json_ok s \<Longrightarrow> buildTransportSettings s = Some (k, v) \<Longrightarrow> json_ok v"
  by (auto simp: buildTransportSettings_def Let_def server_json_ok_def
      intro!: json_ok_omit json_ok_nullish json_ok_if_host split: if_splits)

lemma json_ok_sockopt: "v \<in> snd ` set (sockopt d) \<Longrightarrow> json_ok v" "k \<in> fst ` set (sockopt d) \<Longrightarrow> k = ''sockopt''"
  "distinct (map fst (sockopt d))"
  by (auto simp: sockopt_def split: option.splits)

lemma json_ok_append:
  "json_ok (obj a) \<Longrightarrow> json_ok (obj b) \<Longrightarrow> fst ` set a \<inter> fst ` set b = {} \<Longrightarrow> json_ok (obj (a @ b))"
  by auto

lemma disjoint_subsets: "A \<subseteq> X \<Longrightarrow> B \<subseteq> Y \<Longrightarrow> X \<inter> Y = {} \<Longrightarrow> A \<inter> B = {}"
  by blast

lemma json_ok_stream: "server_json_ok s \<Longrightarrow> json_ok (buildStreamSettings s d)"
proof -
  assume s: "server_json_ok s"
  have o: "json_ok (ps_network s)" "json_ok (coalesce (ps_sni s) JNull)" "json_ok (coalesce (ps_fingerprint s) JNull)"
    using s by (simp_all add: server_json_ok_def)
  let ?t = "case buildTransportSettings s of None \<Rightarrow> [] | Some kv \<Rightarrow> [kv]"
  let ?s = "if ps_security s = js ''tls'' then [(''tlsSettings'', omitUndefined [
      (''serverName'', ps_sni s), (''fingerprint'', ps_fingerprint s),
      (''alpn'', map_option (\<lambda>a. JArr (map JStr a)) (ps_alpn s))])]
    else if ps_security s = js ''reality'' then [(''realitySettings'', omitUndefined [
      (''show'', Some (JBool False)), (''serverName'', ps_sni s),
      (''fingerprint'', ps_fingerprint s), (''publicKey'', map_option JStr (ps_publicKey s)),
      (''shortId'', map_option JStr (ps_shortId s)), (''spiderX'', map_option JStr (ps_spiderX s))])]
    else []"
  let ?n = "[(''network'', ps_network s), (''security'', JStr (ps_security s))]"
  have t: "json_ok (obj ?t)" "fst ` set ?t \<subseteq> {''wsSettings'', ''httpupgradeSettings'', ''xhttpSettings'',
      ''grpcSettings'', ''httpSettings'', ''kcpSettings'', ''tcpSettings''}"
    using json_ok_transport [OF s] transport_keys [of s] by (cases "buildTransportSettings s"; force)+
  have s1: "json_ok (obj ?s)" using o by (simp add: json_ok_omit)
  have s2: "fst ` set ?s \<subseteq> {''tlsSettings'', ''realitySettings''}" by auto
  have st: "json_ok (obj (?s @ ?t))" by (rule json_ok_append [OF s1 t(1) disjoint_subsets [OF s2 t(2)]]) simp
  have sub: "fst ` set (?s @ ?t) \<subseteq> {''tlsSettings'', ''realitySettings'', ''wsSettings'', ''httpupgradeSettings'',
      ''xhttpSettings'', ''grpcSettings'', ''httpSettings'', ''kcpSettings'', ''tcpSettings''}"
    unfolding set_append image_Un using s2 t(2) by blast
  have so: "json_ok (obj (sockopt d))" "fst ` set (sockopt d) \<subseteq> {''sockopt''}"
    by (auto simp: sockopt_def split: option.splits)
  have sst: "json_ok (obj (sockopt d @ ?s @ ?t))"
    by (rule json_ok_append [OF so(1) st disjoint_subsets [OF so(2) sub]]) simp
  have sub2: "fst ` set (sockopt d @ ?s @ ?t) \<subseteq> {''sockopt'', ''tlsSettings'', ''realitySettings'', ''wsSettings'',
      ''httpupgradeSettings'', ''xhttpSettings'', ''grpcSettings'', ''httpSettings'', ''kcpSettings'', ''tcpSettings''}"
    unfolding set_append [of "sockopt d"] image_Un using sub so(2) by blast
  have n: "json_ok (obj ?n)" "fst ` set ?n \<subseteq> {''network'', ''security''}" using o by simp_all
  show ?thesis
    unfolding buildStreamSettings_def
    by (rule json_ok_append [OF n(1) sst disjoint_subsets [OF n(2) sub2]]) simp
qed

lemma json_ok_config:
  assumes "\<forall>ob \<in> set obs. json_ok ob" "safe_int (coalesce (bo_mtu options) (Fin 0))"
  shows "json_ok (config_of options t obs)"
proof -
  have m: "safe_int (coalesce (bo_mtu options) (Fin 1500))"
    using assms(2) by (cases "bo_mtu options") (simp_all add: safe_int_def)
  have n: "json_ok (num 0)" "json_ok (num 53)" by (rule json_ok_num; simp)+
  have l: "json_ok (JArr (map JStr x))" for x by auto
  have p: "json_ok (JArr PRIVATE_RANGES)" by (simp add: PRIVATE_RANGES_def)
  show ?thesis
    unfolding config_of_def using assms(1) m n l p by (auto simp del: json_ok.simps(2)) (auto simp: n)
qed

lemma json_ok_build: "server_json_ok s \<Longrightarrow> options_json_ok options \<Longrightarrow> json_ok (buildXrayConfig s options)"
proof -
  assume s: "server_json_ok s" and o': "options_json_ok options"
  have "json_ok (buildOutbound s t d)" for t d
    using json_ok_settings [OF s] json_ok_stream [OF s, of d] by (simp add: buildOutbound_def)
  moreover have "\<forall>ob \<in> set plain_outbounds. json_ok ob" by (simp add: plain_outbounds_def)
  moreover have "\<forall>ob \<in> set (hop_outbounds options). json_ok ob"
    using o' by (auto simp: hop_outbounds_def chain_of_def options_json_ok_def socks_outbound_def Let_def
        split: option.splits if_splits)
  ultimately show ?thesis
    using o' unfolding buildXrayConfig_config_of options_json_ok_def by (intro json_ok_config) auto
qed

text \<open>What reaches the engine is what was built: parsing the serialised configuration gives the
  same document, for every server and options whose numbers are integers a double holds exactly.\<close>

theorem buildXrayConfig_serialises:
  "server_json_ok s \<Longrightarrow> options_json_ok options \<Longrightarrow>
   JSON_parse (stringify (buildXrayConfig s options)) = Inr (buildXrayConfig s options)"
  by (rule stringify_parse [OF json_ok_build])

theorem buildXrayConfig_serialises_witness:
  "JSON_parse (stringify (buildXrayConfig sample_ws_server chained_options))
   = Inr (buildXrayConfig sample_ws_server chained_options)"
  by (rule buildXrayConfig_serialises)
    (simp_all add: server_json_ok_def sample_ws_server_def server_of_def options_json_ok_def chained_options_def
      default_options_def safe_int_def str_def)

subsection \<open>Nothing of the server is lost\<close>

text \<open>Reading the outbound back.  \<open>endpoint_of\<close> is the object holding address and port,
  \<open>credential_of\<close> the one holding the credentials.\<close>

definition endpoint_of :: "json \<Rightarrow> json option" where
  "endpoint_of ob = (case items (path_at [''settings'', ''vnext''] ob) @ items (path_at [''settings'', ''servers''] ob)
     of v # _ \<Rightarrow> Some v | [] \<Rightarrow> None)"

definition credential_of :: "json \<Rightarrow> json option" where
  "credential_of ob = (case endpoint_of ob of None \<Rightarrow> None
     | Some e \<Rightarrow> (case items (field ''users'' e) of u # _ \<Rightarrow> Some u | [] \<Rightarrow> Some e))"

definition ob_field :: "(json \<Rightarrow> json option) \<Rightarrow> string \<Rightarrow> json \<Rightarrow> json option" where
  "ob_field part k ob = Option.bind (part ob) (field k)"

lemma settings_endpoint:
  "ob_field endpoint_of ''address'' (buildOutbound s t d) = Some (ps_address s)"
  "ob_field endpoint_of ''port'' (buildOutbound s t d) = Some (JNum (ps_port s))"
  by (cases "ps_protocol s";
      simp add: ob_field_def endpoint_of_def buildOutbound_def buildSettings_def vnext_def)+

text \<open>The outbound of every server carries its endpoint and exactly the credentials of its
  protocol: the id and cipher of \<open>vless\<close> and \<open>vmess\<close>, the password of \<open>trojan\<close>, method and password
  of Shadowsocks, and the flow where the protocol has one.\<close>

theorem buildOutbound_credentials:
  "ob_field endpoint_of ''address'' (buildOutbound s t d) = Some (ps_address s)
   \<and> ob_field endpoint_of ''port'' (buildOutbound s t d) = Some (JNum (ps_port s))
   \<and> map (\<lambda>k. ob_field credential_of k (buildOutbound s t d))
       [''id'', ''encryption'', ''alterId'', ''security'', ''flow'', ''method'', ''password'']
     = (case ps_protocol s of
          Vless \<Rightarrow> [ps_id s, Some (nullish (ps_encryption s) (str ''none'')), None, None, map_option JStr (ps_flow s), None, None]
        | Vmess \<Rightarrow> [ps_id s, None, Some (JNum (coalesce (ps_alterId s) (Fin 0))),
            Some (nullish (ps_encryption s) (str ''auto'')), None, None, None]
        | Trojan \<Rightarrow> [None, None, None, None, map_option JStr (ps_flow s), None, map_option JStr (ps_password s)]
        | Shadowsocks \<Rightarrow> [None, None, None, None, None, map_option JStr (ps_method s), map_option JStr (ps_password s)])"
  using settings_endpoint [of s t d]
  by (cases "ps_protocol s")
    (simp_all add: ob_field_def credential_of_def endpoint_of_def buildOutbound_def buildSettings_def vnext_def)

lemma stream_security_fields:
  "field ''tlsSettings'' (buildStreamSettings s d) = (if ps_security s = js ''tls'' then Some (omitUndefined [
           (''serverName'', ps_sni s), (''fingerprint'', ps_fingerprint s),
           (''alpn'', map_option (\<lambda>a. JArr (map JStr a)) (ps_alpn s))]) else None)"
  "field ''realitySettings'' (buildStreamSettings s d) = (if ps_security s = js ''reality'' then Some (omitUndefined [
           (''show'', Some (JBool False)), (''serverName'', ps_sni s),
           (''fingerprint'', ps_fingerprint s), (''publicKey'', map_option JStr (ps_publicKey s)),
           (''shortId'', map_option JStr (ps_shortId s)),
           (''spiderX'', map_option JStr (ps_spiderX s))]) else None)"
proof -
  have t: "map_of (case buildTransportSettings s of None \<Rightarrow> [] | Some kv \<Rightarrow> [kv]) k = None"
    if "k = ''tlsSettings'' \<or> k = ''realitySettings''" for k
    using transport_keys [of s] that by (cases "buildTransportSettings s") auto
  have o: "map_of (sockopt d) ''tlsSettings'' = None" "map_of (sockopt d) ''realitySettings'' = None"
    by (simp_all add: sockopt_def split: option.splits)
  show "field ''tlsSettings'' (buildStreamSettings s d) = (if ps_security s = js ''tls'' then Some (omitUndefined [
           (''serverName'', ps_sni s), (''fingerprint'', ps_fingerprint s),
           (''alpn'', map_option (\<lambda>a. JArr (map JStr a)) (ps_alpn s))]) else None)"
    "field ''realitySettings'' (buildStreamSettings s d) = (if ps_security s = js ''reality'' then Some (omitUndefined [
           (''show'', Some (JBool False)), (''serverName'', ps_sni s),
           (''fingerprint'', ps_fingerprint s), (''publicKey'', map_option JStr (ps_publicKey s)),
           (''shortId'', map_option JStr (ps_shortId s)),
           (''spiderX'', map_option JStr (ps_spiderX s))]) else None)"
    using t o by (auto simp: buildStreamSettings_def map_add_def js_inject simp del: js_Cons)
qed

text \<open>A stream has TLS settings exactly when the security is TLS and REALITY settings exactly when
  it is REALITY, with the server name and fingerprint of the link in either.\<close>

theorem buildStreamSettings_security:
  "(field ''tlsSettings'' (buildStreamSettings s d) \<noteq> None) = (ps_security s = js ''tls'')
   \<and> (field ''realitySettings'' (buildStreamSettings s d) \<noteq> None) = (ps_security s = js ''reality'')
   \<and> (case (if ps_security s = js ''reality'' then field ''realitySettings'' (buildStreamSettings s d)
        else field ''tlsSettings'' (buildStreamSettings s d)) of
        None \<Rightarrow> ps_security s \<notin> {js ''tls'', js ''reality''}
      | Some sec \<Rightarrow> field ''serverName'' sec = ps_sni s \<and> field ''fingerprint'' sec = ps_fingerprint s)"
  by (simp add: stream_security_fields js_inject del: js_Cons split: option.splits)

end
