(* ===== verification/TrafficSession.thy ===== *)
theory TrafficSession
  imports Prelude
begin

section \<open>Session-continuous traffic totals (\<open>src/stats/session.ts\<close>)\<close>

text \<open>
  The class \<open>TrafficSession\<close>: five private fields and four methods.  Counters are integers here; a
  double holds a byte count exactly up to \<open>2^53\<close>, eight petabytes.  The interface
  \<open>session_meter\<close> is what a display needs of such a meter: nothing but a reset lets a total shrink.
\<close>

subsection \<open>The code\<close>

record traffic_stats =
  uplink :: int
  downlink :: int

record traffic_session =
  baselineUp :: int
  baselineDown :: int
  lastRawUp :: int
  lastRawDown :: int
  suspended :: bool

definition new_session :: traffic_session where
  "new_session = \<lparr>baselineUp = 0, baselineDown = 0, lastRawUp = 0, lastRawDown = 0, suspended = False\<rparr>"

definition update :: "traffic_stats \<Rightarrow> traffic_session \<Rightarrow> traffic_stats \<times> traffic_session" where
  "update raw s =
     (if suspended s then
        (\<lparr>uplink = baselineUp s + lastRawUp s, downlink = baselineDown s + lastRawDown s\<rparr>, s)
      else
        let s = (if uplink raw < lastRawUp s \<or> downlink raw < lastRawDown s
               then s\<lparr>baselineUp := baselineUp s + lastRawUp s, baselineDown := baselineDown s + lastRawDown s\<rparr>
               else s);
            s = s\<lparr>lastRawUp := uplink raw, lastRawDown := downlink raw\<rparr>
        in (\<lparr>uplink = baselineUp s + uplink raw, downlink = baselineDown s + downlink raw\<rparr>, s))"

definition suspend :: "traffic_session \<Rightarrow> traffic_session" where
  "suspend s = s\<lparr>suspended := True\<rparr>"

definition commitRestart :: "traffic_session \<Rightarrow> traffic_session" where
  "commitRestart s = s\<lparr>baselineUp := baselineUp s + lastRawUp s, baselineDown := baselineDown s + lastRawDown s,
     lastRawUp := 0, lastRawDown := 0, suspended := False\<rparr>"

definition reset_session :: "traffic_session \<Rightarrow> traffic_session" where
  "reset_session s = s\<lparr>baselineUp := 0, baselineDown := 0, lastRawUp := 0, lastRawDown := 0, suspended := False\<rparr>"

text \<open>What \<open>update\<close> last returned, or would return while frozen.\<close>

definition shown :: "traffic_session \<Rightarrow> int \<times> int" where
  "shown s = (baselineUp s + lastRawUp s, baselineDown s + lastRawDown s)"

subsection \<open>The interface of a meter\<close>

definition le2 :: "int \<times> int \<Rightarrow> int \<times> int \<Rightarrow> bool" where
  "le2 a b \<longleftrightarrow> fst a \<le> fst b \<and> snd a \<le> snd b"

definition nonneg2 :: "int \<times> int \<Rightarrow> bool" where
  "nonneg2 a \<longleftrightarrow> le2 (0, 0) a"

lemma le2_trans: "le2 a b \<Longrightarrow> le2 b c \<Longrightarrow> le2 a c"
  by (simp add: le2_def)

lemma le2_refl [simp]: "le2 a a"
  by (simp add: le2_def)

datatype meter_event = Sample "int \<times> int" | Suspend | Commit

definition event_ok :: "meter_event \<Rightarrow> bool" where
  "event_ok e \<longleftrightarrow> (case e of Sample x \<Rightarrow> nonneg2 x | _ \<Rightarrow> True)"

locale session_meter =
  fixes total :: "'s \<Rightarrow> int \<times> int" and handle :: "meter_event \<Rightarrow> 's \<Rightarrow> 's" and good :: "'s \<Rightarrow> bool"
  assumes good_step: "good s \<Longrightarrow> event_ok e \<Longrightarrow> good (handle e s)"
    and total_step: "good s \<Longrightarrow> event_ok e \<Longrightarrow> le2 (total s) (total (handle e s))"
begin

lemma good_run: "good s \<Longrightarrow> \<forall>e \<in> set es. event_ok e \<Longrightarrow> good (fold handle es s)"
  by (induction es arbitrary: s) (auto simp: good_step)

lemma total_run: "good s \<Longrightarrow> \<forall>e \<in> set es. event_ok e \<Longrightarrow> le2 (total s) (total (fold handle es s))"
proof (induction es arbitrary: s)
  case (Cons e es)
  then have "le2 (total (handle e s)) (total (fold handle es (handle e s)))" by (auto simp: good_step)
  moreover have "le2 (total s) (total (handle e s))" using Cons.prems by (auto simp: total_step)
  ultimately show ?case by (auto intro: le2_trans)
qed simp

text \<open>Totals only grow from any moment of a session to any later one.\<close>

lemma total_mono:
  assumes "good s" "\<forall>e \<in> set (es @ fs). event_ok e"
  shows "le2 (total (fold handle es s)) (total (fold handle (es @ fs) s))"
  using total_run [OF good_run [OF assms(1), of es], of fs] assms(2) by simp

end

subsection \<open>\<open>TrafficSession\<close> is a meter\<close>

fun session_event :: "meter_event \<Rightarrow> traffic_session \<Rightarrow> traffic_session" where
  "session_event (Sample (u, d)) s = snd (update \<lparr>uplink = u, downlink = d\<rparr> s)"
| "session_event Suspend s = suspend s"
| "session_event Commit s = commitRestart s"

definition session_good :: "traffic_session \<Rightarrow> bool" where
  "session_good s \<longleftrightarrow> 0 \<le> lastRawUp s \<and> 0 \<le> lastRawDown s"

interpretation meter: session_meter shown session_event session_good
proof
  fix s e
  assume s: "session_good s" and x: "event_ok e"
  show "session_good (session_event e s)"
  proof (cases e)
    case (Sample x)
    with x s show ?thesis
      by (cases x) (auto simp: event_ok_def session_good_def update_def nonneg2_def le2_def Let_def)
  qed (use s in \<open>simp_all add: session_good_def suspend_def commitRestart_def\<close>)
  show "le2 (shown s) (shown (session_event e s))"
  proof (cases e)
    case (Sample x)
    with x s show ?thesis
      by (cases x) (auto simp: event_ok_def session_good_def update_def nonneg2_def le2_def shown_def Let_def)
  qed (simp_all add: le2_def shown_def suspend_def commitRestart_def)
qed

lemma update_returns_shown:
  "(uplink (fst (update raw s)), downlink (fst (update raw s))) = shown (snd (update raw s))"
  by (simp add: update_def shown_def Let_def)

subsection \<open>The totals are exact\<close>

text \<open>A generation is the life of one engine instance: its samples never decrease.\<close>

fun rising :: "int \<times> int \<Rightarrow> (int \<times> int) list \<Rightarrow> bool" where
  "rising a [] = True"
| "rising a (x # xs) = (le2 a x \<and> rising x xs)"

definition final :: "(int \<times> int) list \<Rightarrow> int \<times> int" where
  "final xs = (if xs = [] then (0, 0) else last xs)"

definition add2 :: "int \<times> int \<Rightarrow> int \<times> int \<Rightarrow> int \<times> int" where
  "add2 a b = (fst a + fst b, snd a + snd b)"

definition sum2 :: "(int \<times> int) list \<Rightarrow> int \<times> int" where
  "sum2 xs = fold add2 xs (0, 0)"

definition counting :: "int \<times> int \<Rightarrow> int \<times> int \<Rightarrow> traffic_session" where
  "counting b l = \<lparr>baselineUp = fst b, baselineDown = snd b, lastRawUp = fst l, lastRawDown = snd l,
     suspended = False\<rparr>"

lemma counting_rising:
  "rising l xs \<Longrightarrow> fold session_event (map Sample xs) (counting b l) = counting b (if xs = [] then l else last xs)"
proof (induction xs arbitrary: l)
  case (Cons x xs)
  then have "session_event (Sample x) (counting b l) = counting b x"
    by (cases x) (simp add: counting_def update_def le2_def)
  with Cons show ?case by simp
qed simp

text \<open>An announced restart: \<open>connecting\<close>, ambiguous samples of any value, \<open>connected\<close>.\<close>

definition restart :: "(int \<times> int) list \<Rightarrow> meter_event list" where
  "restart junk = Suspend # map Sample junk @ [Commit]"

lemma suspended_samples:
  "suspended s \<Longrightarrow> fold session_event (map Sample xs) s = s"
proof (induction xs)
  case (Cons x xs)
  then show ?case by (cases x) (simp add: update_def)
qed simp

lemma counting_restart: "fold session_event (restart junk) (counting b l) = counting (add2 b l) (0, 0)"
  by (simp add: restart_def suspended_samples suspend_def commitRestart_def counting_def add2_def)

fun announced :: "((int \<times> int) list \<times> (int \<times> int) list) list \<Rightarrow> meter_event list" where
  "announced [] = []"
| "announced ((xs, junk) # gs) = map Sample xs @ restart junk @ announced gs"

lemma sum2_Cons: "fold add2 (x # xs) a = add2 (add2 a x) (sum2 xs)"
proof -
  have "fold add2 xs b = add2 b (sum2 xs)" for b
  proof (induction xs arbitrary: b)
    case (Cons y ys)
    have "fold add2 ys (add2 y b) = add2 (add2 y b) (sum2 ys)" by (rule Cons)
    moreover have "sum2 (y # ys) = add2 (add2 y (0, 0)) (sum2 ys)" using Cons [of "add2 y (0, 0)"] by (simp add: sum2_def)
    moreover have "add2 (add2 y b) c = add2 b (add2 (add2 y (0, 0)) c)" for c by (simp add: add2_def)
    ultimately show ?case by simp
  qed (simp add: sum2_def add2_def)
  from this [of "add2 x a"] show ?thesis by (simp add: add2_def)
qed

lemma announced_counting:
  "\<forall>(xs, junk) \<in> set gs. rising (0, 0) xs \<Longrightarrow>
   fold session_event (announced gs) (counting b (0, 0)) = counting (add2 b (sum2 (map (final \<circ> fst) gs))) (0, 0)"
proof (induction gs arbitrary: b)
  case (Cons g gs)
  obtain xs junk where g: "g = (xs, junk)" by fastforce
  have "sum2 (final xs # ys) = add2 (final xs) (sum2 ys)" for ys
    using sum2_Cons [of "final xs" ys "(0, 0)"] by (simp add: sum2_def add2_def)
  then have "add2 (add2 b (final xs)) (sum2 ys) = add2 b (sum2 (final xs # ys))" for ys
    by (simp add: add2_def)
  with Cons show ?case by (simp add: g counting_rising counting_restart final_def)
qed (simp add: sum2_def add2_def)

text \<open>An unannounced restart is detected when the first sample of the next generation is below the
  last one in either counter, as the zeros of the restart gap are.\<close>

definition below :: "int \<times> int \<Rightarrow> int \<times> int \<Rightarrow> bool" where
  "below x l \<longleftrightarrow> fst x < fst l \<or> snd x < snd l"

fun detected :: "int \<times> int \<Rightarrow> (int \<times> int) list list \<Rightarrow> bool" where
  "detected l [] = True"
| "detected l (xs # gs) = (xs \<noteq> [] \<and> below (hd xs) l \<and> rising (hd xs) (tl xs) \<and> detected (last xs) gs)"

lemma counting_below: "below x l \<Longrightarrow> session_event (Sample x) (counting b l) = counting (add2 b l) x"
  by (cases x) (auto simp: counting_def update_def below_def add2_def)

lemma sum2_add: "sum2 (x # xs) = add2 x (sum2 xs)"
  using sum2_Cons [of x xs "(0, 0)"] by (simp add: sum2_def add2_def)

lemma add2_assoc: "add2 (add2 a b) c = add2 a (add2 b c)"
  by (simp add: add2_def)

lemma shown_counting: "shown (counting b l) = add2 b l"
  by (simp add: shown_def counting_def add2_def)

lemma detected_counting:
  "detected l gs \<Longrightarrow> shown (fold session_event (map Sample (concat gs)) (counting b l)) = add2 b (sum2 (l # map last gs))"
proof (induction gs arbitrary: b l)
  case Nil
  then show ?case by (simp add: shown_counting sum2_def add2_def)
next
  case (Cons xs gs)
  then obtain x xs' where xs: "xs = x # xs'" "below x l" "rising x xs'" by (cases xs) auto
  have "fold session_event (map Sample xs) (counting b l) = counting (add2 b l) (last xs)"
    using counting_rising [OF xs(3)] by (simp add: xs(1) counting_below [OF xs(2)])
  with Cons show ?case by (simp add: sum2_add add2_assoc)
qed

lemma new_session_counting: "new_session = counting (0, 0) (0, 0)"
  by (simp add: new_session_def counting_def)

text \<open>Within a session the totals shown to the user never shrink, whatever the order of samples,
  restart announcements and confirmations, for both directions.\<close>

theorem session_totals_monotone:
  "\<forall>e \<in> set (es @ fs). event_ok e \<Longrightarrow>
   le2 (shown (fold session_event es new_session)) (shown (fold session_event (es @ fs) new_session))"
  by (rule meter.total_mono) (simp_all add: session_good_def new_session_def)

theorem session_totals_monotone_witness:
  "le2 (shown (fold session_event [Sample (5, 50)] new_session))
     (shown (fold session_event ([Sample (5, 50)] @ [Sample (0, 0), Suspend, Sample (2, 3), Commit]) new_session))"
  by (rule session_totals_monotone) (simp add: event_ok_def nonneg2_def le2_def)

text \<open>C23: announced restarts lose and invent nothing: after any number of engine generations, each
  ended by a \<open>connecting\<close> and \<open>connected\<close> pair with ambiguous samples in between, and a running one,
  the total is the sum of the last counters of all generations.\<close>

theorem session_totals_exact:
  "\<forall>(ys, junk) \<in> set gs. rising (0, 0) ys \<Longrightarrow> rising (0, 0) xs \<Longrightarrow>
   shown (fold session_event (announced gs @ map Sample xs) new_session)
     = add2 (sum2 (map (\<lambda>(ys, _). final ys) gs)) (final xs)"
proof -
  assume a: "\<forall>(ys, junk) \<in> set gs. rising (0, 0) ys" and xs: "rising (0, 0) xs"
  have m: "map (\<lambda>(ys, _). final ys) gs = map (final \<circ> fst) gs" by auto
  have "add2 (0, 0) b = b" for b by (simp add: add2_def)
  then have "fold session_event (announced gs @ map Sample xs) new_session
      = counting (sum2 (map (final \<circ> fst) gs)) (final xs)"
    using announced_counting [OF a, of "(0, 0)"] counting_rising [OF xs]
    by (simp add: new_session_counting final_def)
  then show ?thesis unfolding m by (simp only: shown_counting)
qed

theorem session_totals_exact_witness:
  "shown (fold session_event (announced [([(1, 2), (5, 50)], [(0, 0), (7, 7)])] @ map Sample [(6, 60)]) new_session)
   = (11, 110)"
  using session_totals_exact [of "[([(1, 2), (5, 50)], [(0, 0), (7, 7)])]" "[(6, 60)]"]
  by (simp add: le2_def sum2_def add2_def final_def)

text \<open>Without announcements a restart that the counters betray is accounted for exactly too.\<close>

theorem session_totals_detected:
  "rising (0, 0) xs \<Longrightarrow> detected (final xs) gs \<Longrightarrow>
   shown (fold session_event (map Sample (xs @ concat gs)) new_session) = sum2 (final xs # map last gs)"
proof -
  assume xs: "rising (0, 0) xs" and gs: "detected (final xs) gs"
  have "fold session_event (map Sample xs) new_session = counting (0, 0) (final xs)"
    unfolding new_session_counting using counting_rising [OF xs] by (simp add: final_def)
  then have "shown (fold session_event (map Sample (xs @ concat gs)) new_session)
      = add2 (0, 0) (sum2 (final xs # map last gs))"
    by (simp add: detected_counting [OF gs])
  then show ?thesis by (simp add: add2_def)
qed

theorem session_totals_detected_witness:
  "shown (fold session_event (map Sample ([(5, 50)] @ concat [[(0, 0), (3, 4)]])) new_session) = (8, 54)"
  using session_totals_detected [of "[(5, 50)]" "[[(0, 0), (3, 4)]]"]
  by (simp add: le2_def final_def below_def sum2_def add2_def)

text \<open>A reset starts the session over.\<close>

lemma session_reset:
  "reset_session (fold session_event es s) = new_session"
  by (simp add: reset_session_def new_session_def)

text \<open>The counters of one engine are banked as often as a restart is confirmed: a confirmation
  without a restart counts the same bytes twice.\<close>

lemma commit_without_restart_doubles:
  "shown (fold session_event [Sample (5, 50), Commit, Sample (6, 60)] new_session) = (11, 110)"
  by (simp add: new_session_def update_def commitRestart_def shown_def)

end
