(* ===== verification/NativeEvents.thy ===== *)
theory NativeEvents
  imports Prelude
begin

section \<open>The state-event multiplexer (\<open>src/native.ts\<close>)\<close>

text \<open>
  The native side holds one callback slot; \<open>addStateListener\<close> multiplexes it over a \<open>Set\<close> of
  listeners.  A JavaScript set keeps insertion order, and iterating it is live: a listener deleted
  before its turn is skipped, one added during the iteration is still visited.  The set is a list of
  slots, a deleted entry leaves \<open>None\<close>.  What a listener does to the set when called, and whether
  it throws, is a parameter.
\<close>

datatype 'l set_op = AddListener 'l | Unsubscribe 'l

record 'l reaction =
  r_ops :: "'l set_op list"
  r_throws :: bool

record 'l native_state =
  slots :: "'l option list"
  nativeListenerRegistered :: bool
  onStateChange_calls :: nat

definition initial_native :: "'l native_state" where
  "initial_native = \<lparr>slots = [], nativeListenerRegistered = False, onStateChange_calls = 0\<rparr>"

definition ensureNativeListener :: "'l native_state \<Rightarrow> 'l native_state" where
  "ensureNativeListener s = (if nativeListenerRegistered s then s
     else s\<lparr>onStateChange_calls := onStateChange_calls s + 1, nativeListenerRegistered := True\<rparr>)"

definition set_add :: "'l \<Rightarrow> 'l option list \<Rightarrow> 'l option list" where
  "set_add l xs = (if Some l \<in> set xs then xs else xs @ [Some l])"

definition set_delete :: "'l \<Rightarrow> 'l option list \<Rightarrow> 'l option list" where
  "set_delete l xs = map (\<lambda>x. if x = Some l then None else x) xs"

definition addStateListener :: "'l \<Rightarrow> 'l native_state \<Rightarrow> 'l native_state" where
  "addStateListener l s = (let s = ensureNativeListener s in s\<lparr>slots := set_add l (slots s)\<rparr>)"

definition unsubscribe :: "'l \<Rightarrow> 'l native_state \<Rightarrow> 'l native_state" where
  "unsubscribe l s = s\<lparr>slots := set_delete l (slots s)\<rparr>"

fun do_op :: "'l set_op \<Rightarrow> 'l option list \<Rightarrow> 'l option list" where
  "do_op (AddListener l) xs = set_add l xs"
| "do_op (Unsubscribe l) xs = set_delete l xs"

text \<open>The loop of the native callback, from slot \<open>i\<close>: the listeners called, the set after it, and
  whether it ran to its end.  Listeners that keep adding listeners can keep it running, hence fuel.\<close>

fun dispatch :: "nat \<Rightarrow> ('l \<Rightarrow> 'l reaction) \<Rightarrow> nat \<Rightarrow> 'l option list \<Rightarrow> ('l list \<times> 'l option list \<times> bool) option" where
  "dispatch 0 react i xs = None"
| "dispatch (Suc fuel) react i xs =
     (if length xs \<le> i then Some ([], xs, True)
      else case xs ! i of
        None \<Rightarrow> dispatch fuel react (i + 1) xs
      | Some l \<Rightarrow>
          (let xs' = fold do_op (r_ops (react l)) xs in
           if r_throws (react l) then Some ([l], xs', False)
           else map_option (\<lambda>(ls, r). (l # ls, r)) (dispatch fuel react (i + 1) xs')))"

definition on_native_event :: "nat \<Rightarrow> ('l \<Rightarrow> 'l reaction) \<Rightarrow> 'l native_state \<Rightarrow> ('l list \<times> 'l native_state \<times> bool) option" where
  "on_native_event fuel react s = map_option (\<lambda>(ls, xs, ok). (ls, s\<lparr>slots := xs\<rparr>, ok)) (dispatch fuel react 0 (slots s))"

definition listeners :: "'l option list \<Rightarrow> 'l list" where
  "listeners xs = List.map_filter (\<lambda>x. x) xs"

subsection \<open>The specification\<close>

text \<open>Listeners that only unsubscribe: who is called, in subscription order.\<close>

definition removes :: "'l set_op list \<Rightarrow> 'l set" where
  "removes ops = {l. Unsubscribe l \<in> set ops}"

fun delivered :: "('l \<Rightarrow> 'l reaction) \<Rightarrow> 'l list \<Rightarrow> 'l list" where
  "delivered react [] = []"
| "delivered react (l # ls) = l # (if r_throws (react l) then []
     else delivered react (filter (\<lambda>x. Unsubscribe x \<notin> set (r_ops (react l))) ls))"

definition only_unsubscribes :: "('l \<Rightarrow> 'l reaction) \<Rightarrow> bool" where
  "only_unsubscribes react \<longleftrightarrow> (\<forall>l. \<forall>x. AddListener x \<notin> set (r_ops (react l)))"

lemma fold_unsubscribe:
  "\<forall>x. AddListener x \<notin> set ops \<Longrightarrow>
   fold do_op ops xs = map (\<lambda>x. case x of None \<Rightarrow> None | Some l \<Rightarrow> if Unsubscribe l \<in> set ops then None else Some l) xs"
proof (induction ops arbitrary: xs)
  case Nil
  then show ?case by (simp add: option.case_eq_if map_idI)
next
  case (Cons op ops)
  then show ?case
    by (cases op) (auto simp: set_delete_def split: option.splits)
qed

lemma listeners_Cons: "listeners (x # xs) = (case x of None \<Rightarrow> listeners xs | Some l \<Rightarrow> l # listeners xs)"
  by (simp add: listeners_def List.map_filter_simps split: option.splits)

lemma listeners_remove:
  "listeners (map (\<lambda>x. case x of None \<Rightarrow> None | Some l \<Rightarrow> if P l then None else Some l) xs) = filter (\<lambda>l. \<not> P l) (listeners xs)"
proof (induction xs)
  case (Cons x xs)
  then show ?case by (cases x) (simp_all add: listeners_Cons)
qed (simp add: listeners_def List.map_filter_simps)

lemma dispatch_delivered:
  assumes "only_unsubscribes react" "length xs - i < fuel"
  shows "\<exists>xs' ok. dispatch fuel react i xs = Some (delivered react (listeners (drop i xs)), xs', ok)"
  using assms(2)
proof (induction fuel arbitrary: i xs)
  case (Suc fuel)
  show ?case
  proof (cases "length xs \<le> i")
    case True
    then have "dispatch (Suc fuel) react i xs = Some (delivered react (listeners (drop i xs)), xs, True)"
      by (simp add: listeners_def List.map_filter_simps)
    then show ?thesis by blast
  next
    case False
    then have d: "drop i xs = xs ! i # drop (Suc i) xs" by (simp add: Cons_nth_drop_Suc)
    show ?thesis
    proof (cases "xs ! i")
      case None
      with False Suc show ?thesis by (simp add: d listeners_Cons)
    next
      case (Some l)
      let ?f = "\<lambda>x. case x of None \<Rightarrow> None | Some l' \<Rightarrow> if Unsubscribe l' \<in> set (r_ops (react l)) then None else Some l'"
      have e: "fold do_op (r_ops (react l)) xs = map ?f xs"
        by (rule fold_unsubscribe) (use assms(1) in \<open>simp add: only_unsubscribes_def\<close>)
      have "length (map ?f xs) - (i + 1) < fuel" using Suc.prems False by simp
      from Suc.IH [OF this] obtain xs' ok where
        "dispatch fuel react (i + 1) (map ?f xs) = Some (delivered react (listeners (drop (i + 1) (map ?f xs))), xs', ok)"
        by blast
      then show ?thesis
        using False Some by (auto simp: d e listeners_Cons drop_map listeners_remove)
    qed
  qed
qed simp



subsection \<open>Registration\<close>

inductive native_reachable :: "'l native_state \<Rightarrow> bool" where
  start: "native_reachable initial_native"
| subscribe: "native_reachable s \<Longrightarrow> native_reachable (addStateListener l s)"
| cancel: "native_reachable s \<Longrightarrow> native_reachable (unsubscribe l s)"
| event: "native_reachable s \<Longrightarrow> on_native_event fuel react s = Some (ls, s', ok) \<Longrightarrow> native_reachable s'"

definition native_wf :: "'l native_state \<Rightarrow> bool" where
  "native_wf s \<longleftrightarrow> distinct (listeners (slots s)) \<and> onStateChange_calls s = (if nativeListenerRegistered s then 1 else 0)
     \<and> (slots s = [] \<or> nativeListenerRegistered s)"

lemma listeners_append: "listeners (xs @ ys) = listeners xs @ listeners ys"
  by (simp add: listeners_def map_filter_append)

lemma set_listeners: "set (listeners xs) = {l. Some l \<in> set xs}"
  by (induction xs) (auto simp: listeners_def List.map_filter_simps split: option.splits)

lemma distinct_set_add: "distinct (listeners xs) \<Longrightarrow> distinct (listeners (set_add l xs))"
  by (auto simp: set_add_def listeners_append set_listeners) (auto simp: listeners_def List.map_filter_simps)

lemma distinct_set_delete: "distinct (listeners xs) \<Longrightarrow> distinct (listeners (set_delete l xs))"
proof -
  have "set_delete l xs = map (\<lambda>x. case x of None \<Rightarrow> None | Some l' \<Rightarrow> if l' = l then None else Some l') xs"
    by (auto simp: set_delete_def split: option.splits)
  moreover assume "distinct (listeners xs)"
  ultimately show ?thesis by (simp add: listeners_remove)
qed

lemma distinct_ops: "distinct (listeners xs) \<Longrightarrow> distinct (listeners (fold do_op ops xs))"
proof (induction ops arbitrary: xs)
  case (Cons op ops)
  then show ?case by (cases op) (simp_all add: distinct_set_add distinct_set_delete)
qed simp

lemma dispatch_distinct:
  "dispatch fuel react i xs = Some (ls, xs', ok) \<Longrightarrow> distinct (listeners xs) \<Longrightarrow> distinct (listeners xs')"
proof (induction fuel arbitrary: i xs ls)
  case (Suc fuel)
  then show ?case
    by (auto simp: Let_def distinct_ops split: if_splits option.splits)
qed simp

lemma dispatch_Nil: "dispatch fuel react i [] = Some (ls, xs', ok) \<Longrightarrow> xs' = []"
  by (cases fuel) auto

lemma native_inv: "native_reachable s \<Longrightarrow> native_wf s"
proof (induction rule: native_reachable.induct)
  case start
  show ?case by (simp add: native_wf_def initial_native_def listeners_def List.map_filter_simps)
next
  case (subscribe s l)
  then show ?case
    by (auto simp: native_wf_def addStateListener_def ensureNativeListener_def distinct_set_add Let_def)
next
  case (cancel s l)
  then show ?case by (auto simp: native_wf_def unsubscribe_def distinct_set_delete) (simp add: set_delete_def)
next
  case (event s fuel react ls s' ok)
  then show ?case
    using dispatch_distinct dispatch_Nil by (fastforce simp: native_wf_def on_native_event_def)
qed

text \<open>The single native callback slot is taken once and never again, however many listeners come
  and go, before, after or during events, and no listener is subscribed twice.\<close>

theorem native_registration:
  "native_reachable s \<Longrightarrow> onStateChange_calls s \<le> 1 \<and> distinct (listeners (slots s))
     \<and> onStateChange_calls (addStateListener l s) = 1 \<and> l \<in> set (listeners (slots (addStateListener l s)))"
  using native_inv [of s] native_inv [OF native_reachable.subscribe, of s l]
  by (auto simp: native_wf_def addStateListener_def ensureNativeListener_def set_add_def set_listeners Let_def)

theorem native_registration_witness:
  "onStateChange_calls (addStateListener 2 (addStateListener (1 :: nat) initial_native)) = 1"
  using native_registration [OF native_reachable.subscribe [OF native_reachable.start], of "1 :: nat" "2 :: nat"] by simp

end
