(* ===== verification/ClientState.thy ===== *)
theory ClientState
  imports ConfigFacts XrayErrors TrafficSession NativeEvents
begin

section \<open>The client's surroundings (\<open>src/client.ts\<close>, \<open>src/specs/nitro-xray-core.nitro.ts\<close>)\<close>

text \<open>
  An operation of the client is a function of the state that returns a value or a thrown value
  together with the new state.  The native object is a record of functions, an argument of every
  operation: a synchronous method answers at once, an asynchronous one also says what else ran in
  the JavaScript context while it was awaited.  The module variables of \<open>client.ts\<close> and the listener
  set of \<open>native.ts\<close> are the fields of the state; \<open>trace\<close> is a ghost that records the native calls.
\<close>

subsection \<open>Effects\<close>

type_synonym ('s, 'a) act = "'s \<Rightarrow> (thrown + 'a) \<times> 's"

definition ret :: "'a \<Rightarrow> ('s, 'a) act" where
  "ret x s = (Inr x, s)"

definition throw :: "thrown \<Rightarrow> ('s, 'a) act" where
  "throw e s = (Inl e, s)"

definition andThen :: "('s, 'a) act \<Rightarrow> ('a \<Rightarrow> ('s, 'b) act) \<Rightarrow> ('s, 'b) act" where
  "andThen m f s = (case m s of (Inr x, s') \<Rightarrow> f x s' | (Inl e, s') \<Rightarrow> (Inl e, s'))"

definition catching :: "('s, 'a) act \<Rightarrow> (thrown \<Rightarrow> ('s, 'a) act) \<Rightarrow> ('s, 'a) act" where
  "catching m h s = (case m s of (Inr x, s') \<Rightarrow> (Inr x, s') | (Inl e, s') \<Rightarrow> h e s')"

definition modify :: "('s \<Rightarrow> 's) \<Rightarrow> ('s, unit) act" where
  "modify f s = (Inr (), f s)"

definition reading :: "('s \<Rightarrow> 'a) \<Rightarrow> ('s, 'a) act" where
  "reading f s = (Inr (f s), s)"

definition unless :: "bool \<Rightarrow> ('s, unit) act \<Rightarrow> ('s, unit) act" where
  "unless c m = (if c then ret () else m)"

named_theorems act_simps

lemma act_basic [act_simps]:
  "ret x s = (Inr x, s)" "throw e s = (Inl e, s)" "modify f s = (Inr (), f s)" "reading g s = (Inr (g s), s)"
  by (simp_all add: ret_def throw_def modify_def reading_def)

lemma andThen_simps [act_simps]:
  "andThen (ret x) f s = f x s" "andThen (throw e) f s = (Inl e, s)"
  "andThen (modify g) f' s = f' () (g s)" "andThen (reading h) k s = k (h s) s"
  by (simp_all add: andThen_def ret_def throw_def modify_def reading_def)

lemma unless_simps [act_simps]: "unless True m = ret ()" "unless False m = m"
  by (simp_all add: unless_def)

lemma andThen_cases:
  obtains (ok) x s' where "m s = (Inr x, s')" "andThen m f s = f x s'"
  | (fail) e s' where "m s = (Inl e, s')" "andThen m f s = (Inl e, s')"
proof (cases "m s")
  case (Pair r s')
  with that show thesis by (cases r) (auto simp: andThen_def)
qed

subsection \<open>The state\<close>

text \<open>The options of \<open>startOlcrtc\<close> are the object of the caller, passed on as it is.\<close>

type_synonym olcrtc_config = json

datatype listener = SessionHook | AppListener nat

datatype native_call = IsVpnConnected | IsOlcrtcRunning | GetOlcrtcSocksPort | SetConnectionInfo jstring
  | GetConnectionInfo | GetVersion | StartXray jstring | StopXray | StartOlcrtc jstring | StopOlcrtc
  | GetStats jstring | SetKillSwitch bool | ClearStoredConfig | HasVpnPermission | RequestVpnPermission
  | IsEngineRunning | IsKillSwitchEnabled | SetQuickConnectEnabled bool | IsQuickConnectReady | SetVpnName jstring
  | SetNotificationConfig json | RequestNotificationPermission

record 'n client =
  armedOlcrtc :: "olcrtc_config option"
  trafficSessions :: "jstring \<rightharpoonup> traffic_session"
  sessionStateHookRegistered :: bool
  stateListeners :: "listener native_state"
  core :: 'n
  trace :: "native_call list"

definition initial_client :: "'n \<Rightarrow> 'n client" where
  "initial_client n = \<lparr>armedOlcrtc = None, trafficSessions = Map.empty, sessionStateHookRegistered = False,
     stateListeners = initial_native, core = n, trace = []\<rparr>"

subsection \<open>Sessions and the state hook\<close>

definition on_sessions :: "(traffic_session \<Rightarrow> traffic_session) \<Rightarrow> 'n client \<Rightarrow> 'n client" where
  "on_sessions f s = s\<lparr>trafficSessions := map_option f \<circ> trafficSessions s\<rparr>"

definition resetTrafficSessions :: "'n client \<Rightarrow> 'n client" where
  "resetTrafficSessions = on_sessions reset_session"

text \<open>\<open>trafficSession(tag).update(raw)\<close>: the session of a tag is made when first asked for.\<close>

definition trafficSession :: "jstring \<Rightarrow> 'n client \<Rightarrow> traffic_session" where
  "trafficSession tag s = coalesce (trafficSessions s tag) new_session"

definition update_session :: "jstring \<Rightarrow> traffic_stats \<Rightarrow> 'n client \<Rightarrow> traffic_stats \<times> 'n client" where
  "update_session tag raw s = (let (totals, session) = update raw (trafficSession tag s)
     in (totals, s\<lparr>trafficSessions := (trafficSessions s)(tag \<mapsto> session)\<rparr>))"

definition ensureSessionStateHook :: "'n client \<Rightarrow> 'n client" where
  "ensureSessionStateHook s = (if sessionStateHookRegistered s then s
     else s\<lparr>sessionStateHookRegistered := True, stateListeners := addStateListener SessionHook (stateListeners s)\<rparr>)"

definition session_hook :: "jstring \<Rightarrow> 'n client \<Rightarrow> 'n client" where
  "session_hook state s =
     (if state = js ''connecting'' then on_sessions suspend s
      else if state = js ''connected'' \<or> state = js ''disconnected'' \<or> state = js ''error'' \<or> state = js ''blocked''
      then on_sessions commitRestart s else s)"

subsection \<open>What runs while a native call is awaited\<close>

text \<open>
  The other things the JavaScript context can do then: a state event is delivered (the listeners of
  the application are left out: they reach the client only through its operations), the application
  subscribes or unsubscribes, an unlocked \<open>stats\<close> begins or gets its answer, and \<open>startOlcrtc\<close> or
  \<open>stopOlcrtc\<close> assign the armed configuration before they queue for the lock.
\<close>

datatype js_event = StateEvent jstring | Subscribe nat | Cancel nat | StatsCall
  | StatsAnswer jstring traffic_stats | Arm "olcrtc_config option"

fun js_step :: "js_event \<Rightarrow> 'n client \<Rightarrow> 'n client" where
  "js_step (StateEvent state) s =
     (if SessionHook \<in> set (listeners (slots (stateListeners s))) then session_hook state s else s)"
| "js_step (Subscribe l) s = s\<lparr>stateListeners := addStateListener (AppListener l) (stateListeners s)\<rparr>"
| "js_step (Cancel l) s = s\<lparr>stateListeners := unsubscribe (AppListener l) (stateListeners s)\<rparr>"
| "js_step StatsCall s = ensureSessionStateHook s"
| "js_step (StatsAnswer tag raw) s = snd (update_session tag raw s)"
| "js_step (Arm c) s = s\<lparr>armedOlcrtc := c\<rparr>"

subsection \<open>The native object\<close>

type_synonym ('n, 'a) sync = "'n \<Rightarrow> (thrown + 'a) \<times> 'n"
type_synonym ('n, 'a) async = "'n \<Rightarrow> (thrown + 'a) \<times> js_event list \<times> 'n"

text \<open>\<open>clearStoredConfig\<close> is absent from an older native build.\<close>

record 'n nitro =
  n_isVpnConnected :: "('n, bool) sync"
  n_isOlcrtcRunning :: "('n, bool) sync"
  n_getOlcrtcSocksPort :: "('n, int) sync"
  n_setConnectionInfo :: "jstring \<Rightarrow> ('n, unit) sync"
  n_getConnectionInfo :: "('n, jstring) sync"
  n_getVersion :: "('n, jstring) sync"
  n_startXray :: "jstring \<Rightarrow> ('n, unit) async"
  n_stopXray :: "('n, unit) async"
  n_startOlcrtc :: "jstring \<Rightarrow> ('n, unit) async"
  n_stopOlcrtc :: "('n, unit) async"
  n_getStats :: "jstring \<Rightarrow> ('n, traffic_stats) async"
  n_setKillSwitch :: "bool \<Rightarrow> ('n, unit) async"
  n_clearStoredConfig :: "('n, unit) async option"
  n_hasVpnPermission :: "('n, bool) async"
  n_requestVpnPermission :: "('n, unit) async"
  n_isEngineRunning :: "('n, bool) sync"
  n_isKillSwitchEnabled :: "('n, bool) sync"
  n_setQuickConnectEnabled :: "bool \<Rightarrow> ('n, unit) sync"
  n_isQuickConnectReady :: "('n, bool) sync"
  n_setVpnName :: "jstring \<Rightarrow> ('n, unit) sync"
  n_setNotificationConfig :: "json \<Rightarrow> ('n, unit) sync"
  n_requestNotificationPermission :: "('n, bool) async"

definition log_call :: "native_call \<Rightarrow> 'n client \<Rightarrow> 'n client" where
  "log_call c s = s\<lparr>trace := trace s @ [c]\<rparr>"

definition invoke :: "native_call \<Rightarrow> ('n, 'a) sync \<Rightarrow> ('n client, 'a) act" where
  "invoke c m s = (case m (core s) of (r, n) \<Rightarrow> (r, log_call c (s\<lparr>core := n\<rparr>)))"

definition await :: "native_call \<Rightarrow> ('n, 'a) async \<Rightarrow> ('n client, 'a) act" where
  "await c m s = (case m (core s) of (r, evs, n) \<Rightarrow> (r, fold js_step evs (log_call c (s\<lparr>core := n\<rparr>))))"

text \<open>\<open>catch (e) { throw toXrayError(e, code) }\<close>.\<close>

definition rethrowing :: "error_code \<Rightarrow> ('s, 'a) act \<Rightarrow> ('s, 'a) act" where
  "rethrowing code m = catching m (\<lambda>e. throw (ThrownXray (toXrayError e code)))"

end
