(* ===== verification/Versions.thy ===== *)
theory Versions
  imports JsNumber
begin

section \<open>Version strings (\<open>src/versions/parse.ts\<close>, \<open>scripts/gen-core-versions.ts\<close>)\<close>

text \<open>
  The two parsers of Go module versions with their regular expressions spelled out, the generated
  constant \<open>CORE_VERSIONS\<close>, and the part of the generator that finds the versions in the binaries
  and requires all of them to agree.  The files the generator reads are an argument.
\<close>

subsection \<open>The parsers\<close>

definition all_digits :: "jstring \<Rightarrow> bool" where
  "all_digits s \<longleftrightarrow> (\<forall>c \<in> set s. is_digit c)"

definition is_hex_lower :: "cu \<Rightarrow> bool" where
  "is_hex_lower c \<longleftrightarrow> is_digit c \<or> (0x61 \<le> c \<and> c \<le> 0x66)"

text \<open>\<open>/^v1\.(\d{2})(\d{2})(\d{2})\.\d+$/\<close>: after \<open>v1.\<close> six digits, a dot, one or more digits.\<close>

definition tagged_match :: "jstring \<Rightarrow> (jstring \<times> jstring \<times> jstring) option" where
  "tagged_match s = (let d = drop 3 s; rest = drop 7 d in
     if starts_with (js ''v1.'') s \<and> 7 < length d \<and> all_digits (take 6 d) \<and> d ! 6 = ch (CHR ''.'')
        \<and> all_digits rest
     then Some (take 2 d, take 2 (drop 2 d), take 2 (drop 4 d)) else None)"

text \<open>\<open>/[-.](\d{4})(\d{2})(\d{2})\d{6}-([0-9a-f]{12})$/\<close>: the pattern has a fixed length of 28, so
  the only place it can match is the last 28 characters.\<close>

definition pseudo_match :: "jstring \<Rightarrow> (jstring \<times> jstring \<times> jstring \<times> jstring) option" where
  "pseudo_match s = (let t = drop (length s - 28) s; d = drop 1 t; sha = drop 15 d in
     if 28 \<le> length s \<and> hd t \<in> set (js ''-.'') \<and> all_digits (take 14 d) \<and> d ! 14 = ch (CHR ''-'')
        \<and> (\<forall>c \<in> set sha. is_hex_lower c)
     then Some (take 4 d, take 2 (drop 4 d), take 2 (drop 6 d), sha) else None)"

text \<open>\<open>x % m\<close> on the non-negative integers the digits denote.\<close>

definition rem_int :: "jsnum \<Rightarrow> nat \<Rightarrow> jsnum" where
  "rem_int x m = (case x of Fin q \<Rightarrow> Fin (of_int (\<lfloor>q\<rfloor> mod int m)) | _ \<Rightarrow> NaN)"

definition dotted :: "jsnum \<Rightarrow> jsnum \<Rightarrow> jsnum \<Rightarrow> jstring" where
  "dotted a b c = num_to_string a @ js ''.'' @ num_to_string b @ js ''.'' @ num_to_string c"

definition xrayDisplayVersion :: "jstring \<Rightarrow> jstring option" where
  "xrayDisplayVersion moduleVersion = (case tagged_match moduleVersion of
     Some (yy, mm, dd) \<Rightarrow> Some (dotted (js_Number yy) (js_Number mm) (js_Number dd))
   | None \<Rightarrow> (case pseudo_match moduleVersion of
       Some (yyyy, mm, dd, _) \<Rightarrow> Some (dotted (rem_int (js_Number yyyy) 100) (js_Number mm) (js_Number dd))
     | None \<Rightarrow> None))"

record pseudo_identity =
  pi_commit :: jstring
  pi_date :: jstring

definition pseudoVersionIdentity :: "jstring \<Rightarrow> pseudo_identity" where
  "pseudoVersionIdentity moduleVersion = (case pseudo_match moduleVersion of
     None \<Rightarrow> \<lparr>pi_commit = moduleVersion, pi_date = []\<rparr>
   | Some (y, mo, d, sha) \<Rightarrow> \<lparr>pi_commit = take 7 sha, pi_date = y @ js ''-'' @ mo @ js ''-'' @ d\<rparr>)"

subsection \<open>The generated constant\<close>

record core_versions =
  cv_xray :: jstring
  cv_xrayModule :: jstring
  cv_olcrtc :: jstring
  cv_olcrtcModule :: jstring
  cv_olcrtcDate :: jstring

definition CORE_VERSIONS :: core_versions where
  "CORE_VERSIONS = \<lparr>cv_xray = js ''26.7.28'',
     cv_xrayModule = js ''v1.260327.1-0.20260728075948-5ca6f4b7d4dc'',
     cv_olcrtc = js ''1255cf8'',
     cv_olcrtcModule = js ''v0.0.0-20260704192300-1255cf8248ee'',
     cv_olcrtcDate = js ''2026-07-04''\<rparr>"

subsection \<open>The generator\<close>

text \<open>Bytes are code units below 256, as \<open>latin1\<close> reads them.\<close>

definition version_byte :: "cu \<Rightarrow> bool" where
  "version_byte b \<longleftrightarrow> \<not> (b \<le> 0x20 \<or> b = 0x7F)"

definition dep_needle :: "jstring \<Rightarrow> jstring" where
  "dep_needle mdl = js ''dep'' @ [0x09] @ mdl @ [0x09]"

definition findDepVersion :: "jstring \<Rightarrow> jstring \<Rightarrow> jstring option" where
  "findDepVersion buf mdl = (let needle = dep_needle mdl in
     case index_of needle buf of None \<Rightarrow> None
     | Some i \<Rightarrow> (let version = takeWhile version_byte (drop (i + length needle) buf)
         in if 0 < length version then Some version else None))"

datatype gen_error = NoBuildInfo | Disagree

text \<open>The versions found for one module, in the order of the artifacts, and their agreement.\<close>

definition scan :: "jstring list \<Rightarrow> jstring \<Rightarrow> gen_error + jstring list" where
  "scan artifacts mdl = (let found = map (\<lambda>buf. findDepVersion buf mdl) artifacts in
     if None \<in> set found then Inl NoBuildInfo else Inr (map the found))"

definition resolve :: "jstring list \<Rightarrow> jstring \<Rightarrow> gen_error + jstring" where
  "resolve artifacts mdl = (case scan artifacts mdl of Inl e \<Rightarrow> Inl e
     | Inr vs \<Rightarrow> (case remdups vs of [v] \<Rightarrow> Inr v | _ \<Rightarrow> Inl Disagree))"

definition XRAY_MODULE :: jstring where
  "XRAY_MODULE = js ''github.com/xtls/xray-core''"

definition OLCRTC_MODULE :: jstring where
  "OLCRTC_MODULE = js ''github.com/openlibrecommunity/olcrtc''"

text \<open>The generated record.  The script reads all artifacts first and compares afterwards, so a
  missing entry is reported before a disagreement.\<close>

definition gen_core_versions :: "jstring list \<Rightarrow> gen_error + core_versions" where
  "gen_core_versions artifacts = (case (resolve artifacts XRAY_MODULE, resolve artifacts OLCRTC_MODULE) of
     (Inr xrayModule, Inr olcrtcModule) \<Rightarrow>
       (let ident = pseudoVersionIdentity olcrtcModule in
        Inr \<lparr>cv_xray = coalesce (xrayDisplayVersion xrayModule) xrayModule, cv_xrayModule = xrayModule,
          cv_olcrtc = pi_commit ident, cv_olcrtcModule = olcrtcModule, cv_olcrtcDate = pi_date ident\<rparr>)
   | (Inl NoBuildInfo, _) \<Rightarrow> Inl NoBuildInfo
   | (_, Inl NoBuildInfo) \<Rightarrow> Inl NoBuildInfo
   | _ \<Rightarrow> Inl Disagree)"

subsection \<open>What the parsers read\<close>

text \<open>Two-digit fields as Go writes them.\<close>

definition pad2 :: "nat \<Rightarrow> jstring" where
  "pad2 n = [digit_cu (n div 10), digit_cu (n mod 10)]"

lemma pad2_digits: "n < 100 \<Longrightarrow> all_digits (pad2 n) \<and> length (pad2 n) = 2"
  using digit_cu_lt10 [of "n div 10"] digit_cu_lt10 [of "n mod 10"] by (auto simp: all_digits_def pad2_def)

lemma all_digits_append [simp]: "all_digits (s @ t) \<longleftrightarrow> all_digits s \<and> all_digits t"
  by (auto simp: all_digits_def)

lemma all_digits_nat: "all_digits (nat_digits n)"
  using nat_digits_digits by (simp add: all_digits_def)

lemma digits_val_pad2: "n < 100 \<Longrightarrow> digits_val (pad2 n) = n"
  using digit_cu_lt10 [of "n div 10"] digit_cu_lt10 [of "n mod 10"] by (simp add: pad2_def digits_val_def)

lemma num_to_string_digits:
  assumes "all_digits ds" "ds \<noteq> []" "digits_val ds < 2 ^ 53"
  shows "num_to_string (js_Number ds) = nat_digits (digits_val ds)"
  using js_Number_digits [of ds] assms num_to_string_nat [OF assms(3)]
  by (simp add: all_digits_def del: num_to_string.simps)

lemma num_pad2: "n < 100 \<Longrightarrow> num_to_string (js_Number (pad2 n)) = nat_digits n"
  using num_to_string_digits [of "pad2 n"] pad2_digits [of n] digits_val_pad2 [of n] by force

lemma tagged_match_text:
  assumes "yy < 100" "mm < 100" "dd < 100"
  shows "tagged_match (js ''v1.'' @ pad2 yy @ pad2 mm @ pad2 dd @ js ''.'' @ nat_digits p)
    = Some (pad2 yy, pad2 mm, pad2 dd)"
  using pad2_digits [OF assms(1)] pad2_digits [OF assms(2)] pad2_digits [OF assms(3)] all_digits_nat [of p]
    nat_digits_ne [of p]
  by (simp add: tagged_match_def Let_def nth_append take_append drop_append del: nat_digits.simps)

text \<open>A stable release tag \<open>v1.YYMMDD.n\<close> is shown as \<open>YY.M.D\<close> without padding, for every date.\<close>

theorem xrayDisplayVersion_tag:
  "yy < 100 \<Longrightarrow> mm < 100 \<Longrightarrow> dd < 100 \<Longrightarrow>
   xrayDisplayVersion (js ''v1.'' @ pad2 yy @ pad2 mm @ pad2 dd @ js ''.'' @ nat_digits p)
     = Some (nat_digits yy @ js ''.'' @ nat_digits mm @ js ''.'' @ nat_digits dd)"
  by (simp add: xrayDisplayVersion_def tagged_match_text dotted_def num_pad2 del: nat_digits.simps js_Cons)

theorem xrayDisplayVersion_tag_witness:
  "xrayDisplayVersion (js ''v1.'' @ pad2 26 @ pad2 3 @ pad2 27 @ js ''.'' @ nat_digits 0)
   = Some (nat_digits 26 @ js ''.'' @ nat_digits 3 @ js ''.'' @ nat_digits 27)"
  by (rule xrayDisplayVersion_tag) simp_all

text \<open>A pseudo-version: any base, a date, a time and a commit hash.\<close>

definition pseudo_text :: "jstring \<Rightarrow> cu \<Rightarrow> jstring \<Rightarrow> jstring \<Rightarrow> jstring \<Rightarrow> jstring \<Rightarrow> jstring \<Rightarrow> jstring" where
  "pseudo_text base sep y mo d time sha = base @ [sep] @ y @ mo @ d @ time @ js ''-'' @ sha"

definition pseudo_ok :: "cu \<Rightarrow> jstring \<Rightarrow> jstring \<Rightarrow> jstring \<Rightarrow> jstring \<Rightarrow> jstring \<Rightarrow> bool" where
  "pseudo_ok sep y mo d time sha \<longleftrightarrow> sep \<in> set (js ''-.'') \<and> all_digits (y @ mo @ d @ time)
     \<and> length y = 4 \<and> length mo = 2 \<and> length d = 2 \<and> length time = 6 \<and> length sha = 12
     \<and> (\<forall>c \<in> set sha. is_hex_lower c)"

lemma pseudo_match_text:
  assumes "pseudo_ok sep y mo d time sha"
  shows "pseudo_match (pseudo_text base sep y mo d time sha) = Some (y, mo, d, sha)"
proof -
  have len: "length y = 4" "length mo = 2" "length d = 2" "length time = 6" "length sha = 12"
    using assms by (simp_all add: pseudo_ok_def)
  have t: "drop (length (pseudo_text base sep y mo d time sha) - 28) (pseudo_text base sep y mo d time sha)
      = [sep] @ y @ mo @ d @ time @ js ''-'' @ sha"
    using len by (simp add: pseudo_text_def)
  have l: "28 \<le> length (pseudo_text base sep y mo d time sha)" using len by (simp add: pseudo_text_def)
  show ?thesis
    unfolding pseudo_match_def t Let_def using assms l len
    by (simp add: pseudo_ok_def nth_append del: js_Cons) auto
qed

lemma tagged_no_dash: "tagged_match s = Some r \<Longrightarrow> ch (CHR ''-'') \<notin> set s"
proof -
  assume m: "tagged_match s = Some r"
  then have s: "starts_with (js ''v1.'') s" "7 < length (drop 3 s)" "all_digits (take 6 (drop 3 s))"
    "drop 3 s ! 6 = ch (CHR ''.'')" "all_digits (drop 7 (drop 3 s))"
    by (auto simp: tagged_match_def Let_def simp del: js_Cons split: if_splits)
  have "\<not> is_digit (ch (CHR ''-''))" by (simp add: is_digit_def)
  then have d: "ch (CHR ''-'') \<notin> set t" if "all_digits t" for t using that by (auto simp: all_digits_def)
  have "s = take 3 s @ take 6 (drop 3 s) @ [drop 3 s ! 6] @ drop 7 (drop 3 s)"
    using s(2) by (metis append_take_drop_id id_take_nth_drop append_Cons append_Nil Suc_eq_plus1
        add.commute numeral_plus_one semiring_norm(5) Suc_lessD less_Suc_eq numeral_eq_Suc pred_numeral_simps(3) BitM.simps(2))
  moreover have "take 3 s = js ''v1.''" using s(1) by (simp add: starts_with_def numeral_3_eq_3)
  ultimately have "set s = set (js ''v1.'') \<union> set (take 6 (drop 3 s)) \<union> {ch (CHR ''.'')} \<union> set (drop 7 (drop 3 s))"
    using s(4) by (metis Un_assoc set_append list.set(1) list.simps(15))
  with d [OF s(3)] d [OF s(5)] show ?thesis by auto
qed

lemma pseudo_not_tagged:
  "tagged_match (pseudo_text base sep y mo d time sha) = None"
  using tagged_no_dash [of "pseudo_text base sep y mo d time sha"]
  by (cases "tagged_match (pseudo_text base sep y mo d time sha)") (auto simp: pseudo_text_def)

lemma digits_val_bound: "all_digits ds \<Longrightarrow> digits_val ds < 10 ^ length ds"
proof (induction ds rule: rev_induct)
  case (snoc c ds)
  have "digit_val c < 10" if "is_digit c" using that unfolding is_digit_def digit_val_def word_le_nat_alt by simp linarith
  with snoc show ?case by (auto simp: all_digits_def)
qed (simp add: digits_val_def)

lemma rem_100: "n < 2 ^ 53 \<Longrightarrow> num_to_string (rem_int (Fin (of_nat n)) 100) = nat_digits (n mod 100)"
proof -
  have "rem_int (Fin (of_nat n)) 100 = Fin (of_nat (n mod 100))"
    by (simp add: rem_int_def) (metis of_int_of_nat_eq of_nat_numeral zmod_int)
  moreover have "n mod 100 < 2 ^ 53" by (rule order.strict_trans [of _ 100]) simp_all
  ultimately show ?thesis using num_to_string_nat by (simp del: num_to_string.simps nat_digits.simps)
qed

lemma xrayDisplayVersion_pseudo_text:
  assumes "pseudo_ok sep y mo d time sha"
  shows "xrayDisplayVersion (pseudo_text base sep y mo d time sha)
    = Some (nat_digits (digits_val y mod 100) @ js ''.'' @ nat_digits (digits_val mo) @ js ''.''
        @ nat_digits (digits_val d))"
proof -
  have dg: "all_digits y" "all_digits mo" "all_digits d" "length y = 4" "length mo = 2" "length d = 2"
    using assms by (simp_all add: pseudo_ok_def)
  have b: "digits_val y < 2 ^ 53" "digits_val mo < 2 ^ 53" "digits_val d < 2 ^ 53"
    using digits_val_bound [OF dg(1)] digits_val_bound [OF dg(2)] digits_val_bound [OF dg(3)] dg by simp_all
  have ne: "y \<noteq> []" "mo \<noteq> []" "d \<noteq> []" using dg by auto
  have "js_Number y = Fin (of_nat (digits_val y))"
    by (rule js_Number_digits) (use dg(1) ne b in \<open>simp_all add: all_digits_def\<close>)
  then show ?thesis
    using rem_100 [OF b(1)] num_to_string_digits [OF dg(2) ne(2) b(2)] num_to_string_digits [OF dg(3) ne(3) b(3)]
    by (simp add: xrayDisplayVersion_def pseudo_not_tagged pseudo_match_text [OF assms] dotted_def
        del: js_Cons nat_digits.simps num_to_string.simps)
qed

text \<open>A pseudo-version of any base is shown by its commit date and identified by the first seven
  digits of its hash and its ISO date.\<close>

theorem pseudo_versions:
  "pseudo_ok sep y mo d time sha \<Longrightarrow>
   xrayDisplayVersion (pseudo_text base sep y mo d time sha)
     = Some (nat_digits (digits_val y mod 100) @ js ''.'' @ nat_digits (digits_val mo) @ js ''.''
         @ nat_digits (digits_val d))
   \<and> pseudoVersionIdentity (pseudo_text base sep y mo d time sha)
     = \<lparr>pi_commit = take 7 sha, pi_date = y @ js ''-'' @ mo @ js ''-'' @ d\<rparr>"
  by (simp only: xrayDisplayVersion_pseudo_text pseudoVersionIdentity_def pseudo_match_text) simp

lemma sample_pseudo_ok:
  "pseudo_ok (ch (CHR ''.'')) (js ''2026'') (js ''07'') (js ''28'') (js ''075948'') (js ''5ca6f4b7d4dc'')"
  "pseudo_ok (ch (CHR ''-'')) (js ''2026'') (js ''07'') (js ''04'') (js ''192300'') (js ''1255cf8248ee'')"
  by (simp_all add: pseudo_ok_def all_digits_def is_digit_def is_hex_lower_def)

theorem pseudo_versions_witness:
  "pi_date (pseudoVersionIdentity (js ''v0.0.0-20260704192300-1255cf8248ee'')) = js ''2026-07-04''"
  using pseudo_versions [OF sample_pseudo_ok(2), of "js ''v0.0.0''"] by (simp add: pseudo_text_def)

text \<open>The committed constants are what the parsers make of the committed module versions.\<close>

theorem core_versions_consistent:
  "xrayDisplayVersion (cv_xrayModule CORE_VERSIONS) = Some (cv_xray CORE_VERSIONS)
   \<and> pseudoVersionIdentity (cv_olcrtcModule CORE_VERSIONS)
     = \<lparr>pi_commit = cv_olcrtc CORE_VERSIONS, pi_date = cv_olcrtcDate CORE_VERSIONS\<rparr>"
proof
  have x: "cv_xrayModule CORE_VERSIONS = pseudo_text (js ''v1.260327.1-0'') (ch (CHR ''.'')) (js ''2026'') (js ''07'')
      (js ''28'') (js ''075948'') (js ''5ca6f4b7d4dc'')"
    by (simp add: CORE_VERSIONS_def pseudo_text_def)
  show "xrayDisplayVersion (cv_xrayModule CORE_VERSIONS) = Some (cv_xray CORE_VERSIONS)"
    unfolding x xrayDisplayVersion_pseudo_text [OF sample_pseudo_ok(1)]
    by (simp add: CORE_VERSIONS_def digits_val_def digit_val_def digit_cu_def nat_digits.simps)
  have o: "cv_olcrtcModule CORE_VERSIONS = pseudo_text (js ''v0.0.0'') (ch (CHR ''-'')) (js ''2026'') (js ''07'')
      (js ''04'') (js ''192300'') (js ''1255cf8248ee'')"
    by (simp add: CORE_VERSIONS_def pseudo_text_def)
  show "pseudoVersionIdentity (cv_olcrtcModule CORE_VERSIONS)
     = \<lparr>pi_commit = cv_olcrtc CORE_VERSIONS, pi_date = cv_olcrtcDate CORE_VERSIONS\<rparr>"
    unfolding o pseudoVersionIdentity_def pseudo_match_text [OF sample_pseudo_ok(2)]
    by (simp add: CORE_VERSIONS_def)
qed

subsection \<open>The generator\<close>

lemma findDepVersion_text:
  assumes "index_of (dep_needle m) (pre @ dep_needle m @ v @ rest) = Some (length pre)"
    and "\<forall>b \<in> set v. version_byte b" "v \<noteq> []" "rest = [] \<or> \<not> version_byte (hd rest)"
  shows "findDepVersion (pre @ dep_needle m @ v @ rest) m = Some v"
  using assms takeWhile_append_stop [of v version_byte rest] by (simp add: findDepVersion_def)

lemma remdups_single: "remdups vs = [v] \<longleftrightarrow> vs \<noteq> [] \<and> (\<forall>x \<in> set vs. x = v)"
proof
  assume "remdups vs = [v]"
  then show "vs \<noteq> [] \<and> (\<forall>x \<in> set vs. x = v)" using set_remdups [of vs] by auto
next
  assume "vs \<noteq> [] \<and> (\<forall>x \<in> set vs. x = v)"
  then show "remdups vs = [v]"
  proof (induction vs)
    case (Cons x xs)
    show ?case
    proof (cases "xs = []")
      case False
      with Cons have "remdups xs = [v]" "x = v" by simp_all
      then have "x \<in> set xs" by (metis list.set_intros(1) set_remdups)
      with \<open>remdups xs = [v]\<close> show ?thesis by simp
    qed (use Cons in simp)
  qed simp
qed

lemma resolve_Inr:
  "resolve artifacts m = Inr v \<longleftrightarrow> artifacts \<noteq> [] \<and> (\<forall>buf \<in> set artifacts. findDepVersion buf m = Some v)"
proof
  assume r: "resolve artifacts m = Inr v"
  then have s: "scan artifacts m = Inr (map (\<lambda>buf. the (findDepVersion buf m)) artifacts)"
    "None \<notin> (\<lambda>buf. findDepVersion buf m) ` set artifacts"
    by (auto simp: resolve_def scan_def Let_def o_def split: sum.splits if_splits)
  with r have "remdups (map (\<lambda>buf. the (findDepVersion buf m)) artifacts) = [v]"
    by (auto simp: resolve_def split: list.splits)
  with s(2) show "artifacts \<noteq> [] \<and> (\<forall>buf \<in> set artifacts. findDepVersion buf m = Some v)"
    unfolding remdups_single by (auto simp: image_iff) (metis not_None_eq option.sel)
next
  assume a: "artifacts \<noteq> [] \<and> (\<forall>buf \<in> set artifacts. findDepVersion buf m = Some v)"
  then have "scan artifacts m = Inr (map (\<lambda>buf. the (findDepVersion buf m)) artifacts)"
    by (auto simp: scan_def Let_def)
  moreover have "remdups (map (\<lambda>buf. the (findDepVersion buf m)) artifacts) = [v]"
    unfolding remdups_single using a by auto
  ultimately show "resolve artifacts m = Inr v" by (simp add: resolve_def)
qed

lemma gen_core_versions_Inr:
  "gen_core_versions artifacts = Inr v \<longleftrightarrow>
     artifacts \<noteq> []
     \<and> list_all (\<lambda>buf. findDepVersion buf XRAY_MODULE = Some (cv_xrayModule v)
         \<and> findDepVersion buf OLCRTC_MODULE = Some (cv_olcrtcModule v)) artifacts
     \<and> cv_xray v = coalesce (xrayDisplayVersion (cv_xrayModule v)) (cv_xrayModule v)
     \<and> cv_olcrtc v = pi_commit (pseudoVersionIdentity (cv_olcrtcModule v))
     \<and> cv_olcrtcDate v = pi_date (pseudoVersionIdentity (cv_olcrtcModule v))"
proof -
  have "gen_core_versions artifacts = Inr v \<longleftrightarrow> resolve artifacts XRAY_MODULE = Inr (cv_xrayModule v)
     \<and> resolve artifacts OLCRTC_MODULE = Inr (cv_olcrtcModule v)
     \<and> cv_xray v = coalesce (xrayDisplayVersion (cv_xrayModule v)) (cv_xrayModule v)
     \<and> cv_olcrtc v = pi_commit (pseudoVersionIdentity (cv_olcrtcModule v))
     \<and> cv_olcrtcDate v = pi_date (pseudoVersionIdentity (cv_olcrtcModule v))"
    by (cases v) (auto simp: gen_core_versions_def Let_def split: sum.splits gen_error.splits)
  then show ?thesis by (auto simp: resolve_Inr list_all_iff)
qed

text \<open>The generator succeeds exactly when every shipped artifact carries a version of both modules
  and all artifacts agree, and then it records these versions and what the parsers make of them; a
  rebuild of one platform only is an error.\<close>

theorem gen_core_versions_agree:
  "gen_core_versions artifacts = Inr v \<longleftrightarrow>
     artifacts \<noteq> []
     \<and> list_all (\<lambda>buf. findDepVersion buf XRAY_MODULE = Some (cv_xrayModule v)
         \<and> findDepVersion buf OLCRTC_MODULE = Some (cv_olcrtcModule v)) artifacts
     \<and> cv_xray v = coalesce (xrayDisplayVersion (cv_xrayModule v)) (cv_xrayModule v)
     \<and> cv_olcrtc v = pi_commit (pseudoVersionIdentity (cv_olcrtcModule v))
     \<and> cv_olcrtcDate v = pi_date (pseudoVersionIdentity (cv_olcrtcModule v))"
  by (rule gen_core_versions_Inr)

end
