(* ===== verification/Client.thy ===== *)
theory Client
  imports ClientState Versions
begin

section \<open>The client (\<open>src/client.ts\<close>)\<close>

text \<open>
  The methods of \<open>XrayClient\<close> that act on the native object, one definition each.  Those the code
  runs under its lock are the body that the lock runs: by the theorems on \<open>SerialLock\<close> such bodies
  run one after the other in the order of the calls, so a history of the client is a list of
  operations with the other events interleaved at the \<open>await\<close>s.
\<close>

subsection \<open>Connection info\<close>

definition olcrtcMeta :: "'n client \<Rightarrow> json option" where
  "olcrtcMeta s = (case armedOlcrtc s of None \<Rightarrow> None
     | Some c \<Rightarrow> Some (omitUndefined [(''carrier'', field ''carrier'' c), (''roomId'', field ''roomId'' c),
         (''transport'', Some (nullish (field ''transport'' c) (str ''vp8channel'')))]))"

text \<open>A \<open>ConnectionInfo\<close> as \<open>JSON.stringify\<close> sees it: an \<open>undefined\<close> field is left out.\<close>

definition connection_info :: "string \<Rightarrow> json option \<Rightarrow> json option \<Rightarrow> jstring option \<Rightarrow> json" where
  "connection_info mode server olcrtc label = omitUndefined [(''mode'', Some (str mode)), (''server'', server),
     (''olcrtc'', olcrtc), (''label'', map_option JStr label)]"

definition server_info :: "server \<Rightarrow> json" where
  "server_info server = obj [(''tag'', ps_tag server), (''address'', ps_address server),
     (''port'', JNum (ps_port server)), (''protocol'', JStr (xrayProtocol (ps_protocol server)))]"

definition persistConnectionInfo :: "'n nitro \<Rightarrow> json \<Rightarrow> ('n client, unit) act" where
  "persistConnectionInfo native info =
     catching (invoke (SetConnectionInfo (stringify info)) (n_setConnectionInfo native (stringify info))) (\<lambda>_. ret ())"

definition clearConnectionInfo :: "'n nitro \<Rightarrow> ('n client, unit) act" where
  "clearConnectionInfo native = catching (invoke (SetConnectionInfo []) (n_setConnectionInfo native [])) (\<lambda>_. ret ())"

definition currentConnection :: "'n nitro \<Rightarrow> ('n client, json option) act" where
  "currentConnection native = andThen (invoke GetConnectionInfo (n_getConnectionInfo native)) (\<lambda>raw.
     if raw = [] then ret None
     else case JSON_parse raw of Inr info \<Rightarrow> ret (Some info) | Inl _ \<Rightarrow> ret None)"

subsection \<open>Connecting and disconnecting\<close>

text \<open>\<open>if (!NitroXrayCore.isVpnConnected()) resetTrafficSessions()\<close>\<close>

definition fresh_session :: "'n nitro \<Rightarrow> ('n client, unit) act" where
  "fresh_session native = andThen (invoke IsVpnConnected (n_isVpnConnected native)) (\<lambda>up.
     unless up (modify resetTrafficSessions))"

definition start_engine :: "'n nitro \<Rightarrow> jstring \<Rightarrow> ('n client, unit) act" where
  "start_engine native configJson =
     rethrowing ENGINE_START_FAILED (await (StartXray configJson) (n_startXray native configJson))"

definition drop_olcrtc :: "'n nitro \<Rightarrow> ('n client, unit) act" where
  "drop_olcrtc native = andThen (invoke IsOlcrtcRunning (n_isOlcrtcRunning native)) (\<lambda>running.
     unless (\<not> running) (catching (await StopOlcrtc (n_stopOlcrtc native)) (\<lambda>_. ret ())))"

definition connect :: "'n nitro \<Rightarrow> server \<Rightarrow> build_options \<Rightarrow> ('n client, unit) act" where
  "connect native server options =
     andThen (unless (bo_olcrtc options \<noteq> None) (drop_olcrtc native)) (\<lambda>_.
     andThen (modify ensureSessionStateHook) (\<lambda>_.
     andThen (fresh_session native) (\<lambda>_.
     let config = buildXrayConfig server options in
     andThen (reading olcrtcMeta) (\<lambda>meta.
     andThen (persistConnectionInfo native
       (connection_info (if bo_olcrtc options \<noteq> None then ''olcrtc-chained'' else ''direct'')
          (Some (server_info server)) (if bo_olcrtc options \<noteq> None then meta else None) None)) (\<lambda>_.
     start_engine native (stringify config))))))"

definition startRaw :: "'n nitro \<Rightarrow> jstring \<Rightarrow> ('n client, unit) act" where
  "startRaw native configJson =
     andThen (modify ensureSessionStateHook) (\<lambda>_.
     andThen (fresh_session native) (\<lambda>_.
     andThen (clearConnectionInfo native) (\<lambda>_.
     start_engine native configJson)))"

definition disconnect :: "'n nitro \<Rightarrow> ('n client, unit) act" where
  "disconnect native =
     andThen (await StopXray (n_stopXray native)) (\<lambda>_.
     andThen (modify resetTrafficSessions) (\<lambda>_.
     clearConnectionInfo native))"

definition olcrtc_not_running :: thrown where
  "olcrtc_not_running = ThrownError (js ''olcrtc is not running '' @ [0x2014] @ js '' call startOlcrtc() first'')"

definition tunnel_of :: "'a common_options_scheme \<Rightarrow> int \<Rightarrow> tunnel_options" where
  "tunnel_of options socksPort = \<lparr>bo_proxyTag = bo_proxyTag options, bo_dns = bo_dns options,
     bo_tunName = bo_tunName options, bo_mtu = bo_mtu options, bo_logLevel = bo_logLevel options,
     bo_enableStats = bo_enableStats options, to_socksPort = Fin (of_int socksPort), to_socksHost = None\<rparr>"

definition connectOlcrtcOnly :: "'n nitro \<Rightarrow> 'a common_options_scheme \<Rightarrow> jstring option \<Rightarrow> ('n client, unit) act" where
  "connectOlcrtcOnly native options label =
     andThen (invoke GetOlcrtcSocksPort (n_getOlcrtcSocksPort native)) (\<lambda>socksPort.
     if socksPort \<le> 0 then throw olcrtc_not_running
     else
       andThen (modify ensureSessionStateHook) (\<lambda>_.
       andThen (fresh_session native) (\<lambda>_.
       let config = buildOlcrtcTunnelConfig (tunnel_of options socksPort) in
       andThen (reading olcrtcMeta) (\<lambda>meta.
       andThen (persistConnectionInfo native (connection_info ''olcrtc-only'' None meta label)) (\<lambda>_.
       start_engine native (stringify config))))))"

subsection \<open>The olcrtc side channel\<close>

text \<open>The assignment happens at the call; the rest is the locked body.\<close>

definition startOlcrtc_locked :: "'n nitro \<Rightarrow> olcrtc_config \<Rightarrow> ('n client, unit) act" where
  "startOlcrtc_locked native config =
     rethrowing OLCRTC_START_FAILED (await (StartOlcrtc (stringify config)) (n_startOlcrtc native (stringify config)))"

definition startOlcrtc :: "'n nitro \<Rightarrow> olcrtc_config \<Rightarrow> ('n client, unit) act" where
  "startOlcrtc native config = andThen (modify (js_step (Arm (Some config)))) (\<lambda>_. startOlcrtc_locked native config)"

definition stopOlcrtc_locked :: "'n nitro \<Rightarrow> ('n client, unit) act" where
  "stopOlcrtc_locked native = await StopOlcrtc (n_stopOlcrtc native)"

definition stopOlcrtc :: "'n nitro \<Rightarrow> ('n client, unit) act" where
  "stopOlcrtc native = andThen (modify (js_step (Arm None))) (\<lambda>_. stopOlcrtc_locked native)"

subsection \<open>The other methods\<close>

definition clearStoredConfig :: "'n nitro \<Rightarrow> ('n client, unit) act" where
  "clearStoredConfig native = (case n_clearStoredConfig native of None \<Rightarrow> ret ()
     | Some clear \<Rightarrow> andThen (modify (js_step (Arm None))) (\<lambda>_. await ClearStoredConfig clear))"

definition statsRaw :: "'n nitro \<Rightarrow> jstring option \<Rightarrow> ('n client, traffic_stats) act" where
  "statsRaw native outboundTag = (let tag = coalesce outboundTag (js ''proxy'') in
     rethrowing STATS_UNAVAILABLE (await (GetStats tag) (n_getStats native tag)))"

definition stats :: "'n nitro \<Rightarrow> jstring option \<Rightarrow> ('n client, traffic_stats) act" where
  "stats native outboundTag =
     andThen (modify ensureSessionStateHook) (\<lambda>_.
     andThen (statsRaw native outboundTag) (\<lambda>raw s.
       case update_session (coalesce outboundTag (js ''proxy'')) raw s of (totals, s') \<Rightarrow> (Inr totals, s')))"

definition version :: "'n nitro \<Rightarrow> ('n client, jstring) act" where
  "version native = catching (invoke GetVersion (n_getVersion native)) (\<lambda>_. ret [])"

definition coreVersions :: "'n nitro \<Rightarrow> ('n client, core_versions) act" where
  "coreVersions native = andThen (version native) (\<lambda>v.
     ret (CORE_VERSIONS\<lparr>cv_xray := str_or (Some v) (cv_xray CORE_VERSIONS)\<rparr>))"

definition setKillSwitch :: "'n nitro \<Rightarrow> bool \<Rightarrow> ('n client, unit) act" where
  "setKillSwitch native enabled = await (SetKillSwitch enabled) (n_setKillSwitch native enabled)"

definition ensurePermission :: "'n nitro \<Rightarrow> ('n client, unit) act" where
  "ensurePermission native = andThen (await HasVpnPermission (n_hasVpnPermission native)) (\<lambda>has.
     unless has (rethrowing PERMISSION_DENIED (await RequestVpnPermission (n_requestVpnPermission native))))"

definition isConnected :: "'n nitro \<Rightarrow> ('n client, bool) act" where
  "isConnected native = invoke IsVpnConnected (n_isVpnConnected native)"

definition isEngineRunning :: "'n nitro \<Rightarrow> ('n client, bool) act" where
  "isEngineRunning native = invoke IsEngineRunning (n_isEngineRunning native)"

definition isKillSwitchEnabled :: "'n nitro \<Rightarrow> ('n client, bool) act" where
  "isKillSwitchEnabled native = invoke IsKillSwitchEnabled (n_isKillSwitchEnabled native)"

definition getOlcrtcSocksPort :: "'n nitro \<Rightarrow> ('n client, int) act" where
  "getOlcrtcSocksPort native = invoke GetOlcrtcSocksPort (n_getOlcrtcSocksPort native)"

definition isOlcrtcRunning :: "'n nitro \<Rightarrow> ('n client, bool) act" where
  "isOlcrtcRunning native = invoke IsOlcrtcRunning (n_isOlcrtcRunning native)"

definition setVpnName :: "'n nitro \<Rightarrow> jstring \<Rightarrow> ('n client, unit) act" where
  "setVpnName native name = invoke (SetVpnName name) (n_setVpnName native name)"

definition setNotificationConfig :: "'n nitro \<Rightarrow> json \<Rightarrow> ('n client, unit) act" where
  "setNotificationConfig native config = invoke (SetNotificationConfig config) (n_setNotificationConfig native config)"

definition requestNotificationPermission :: "'n nitro \<Rightarrow> ('n client, bool) act" where
  "requestNotificationPermission native = await RequestNotificationPermission (n_requestNotificationPermission native)"

text \<open>\<open>onState\<close> and the function it returns.\<close>

definition onState :: "nat \<Rightarrow> ('n client, unit) act" where
  "onState l = modify (js_step (Subscribe l))"

definition offState :: "nat \<Rightarrow> ('n client, unit) act" where
  "offState l = modify (js_step (Cancel l))"

definition setQuickConnectEnabled :: "'n nitro \<Rightarrow> bool \<Rightarrow> ('n client, unit) act" where
  "setQuickConnectEnabled native enabled =
     catching (invoke (SetQuickConnectEnabled enabled) (n_setQuickConnectEnabled native enabled)) (\<lambda>_. ret ())"

definition isQuickConnectReady :: "'n nitro \<Rightarrow> ('n client, bool) act" where
  "isQuickConnectReady native =
     catching (invoke IsQuickConnectReady (n_isQuickConnectReady native)) (\<lambda>_. ret False)"

end
