(* ===== verification/ClientFrame.thy ===== *)
theory ClientFrame
  imports Client
begin

section \<open>Invariants of the client\<close>

text \<open>
  What every operation of the client keeps: two interfaces, \<open>client_frame\<close> for predicates that only
  the reset of the sessions can break and \<open>client_invariant\<close> for those it keeps too, with the lemmas
  proved once per operation.  They are instantiated on the state hook, on the counters of the
  sessions and on the totals shown to the user.
\<close>

subsection \<open>Preservation\<close>

definition keeps :: "('s \<Rightarrow> bool) \<Rightarrow> ('s, 'a) act \<Rightarrow> bool" where
  "keeps P m \<longleftrightarrow> (\<forall>s. P s \<longrightarrow> P (snd (m s)))"

named_theorems keeps_intros

lemma keeps_basic [keeps_intros]: "keeps P (ret x)" "keeps P (throw e)" "keeps P (reading f)"
  by (simp_all add: keeps_def act_simps)

lemma keeps_modify: "(\<And>s. P s \<Longrightarrow> P (f s)) \<Longrightarrow> keeps P (modify f)"
  by (simp add: keeps_def act_simps)

lemma keeps_andThen [keeps_intros]: "keeps P m \<Longrightarrow> (\<And>x. keeps P (f x)) \<Longrightarrow> keeps P (andThen m f)"
  unfolding keeps_def by (metis andThen_cases snd_conv)

lemma keeps_catching [keeps_intros]: "keeps P m \<Longrightarrow> (\<And>e. keeps P (h e)) \<Longrightarrow> keeps P (catching m h)"
proof -
  assume m: "keeps P m" and h: "\<And>e. keeps P (h e)"
  have "P (snd (catching m h s))" if "P s" for s
  proof (cases "m s")
    case (Pair r s')
    have "P (snd (m s))" using m \<open>P s\<close> by (simp add: keeps_def)
    with Pair h show ?thesis by (cases r) (auto simp: catching_def keeps_def)
  qed
  then show ?thesis by (simp add: keeps_def)
qed

lemma keeps_unless [keeps_intros]: "(\<not> c \<Longrightarrow> keeps P m) \<Longrightarrow> keeps P (unless c m)"
  by (cases c) (simp_all add: act_simps keeps_basic)

lemma keeps_if [keeps_intros]: "(c \<Longrightarrow> keeps P m) \<Longrightarrow> (\<not> c \<Longrightarrow> keeps P m') \<Longrightarrow> keeps P (if c then m else m')"
  by simp

lemma keeps_rethrowing [keeps_intros]: "keeps P m \<Longrightarrow> keeps P (rethrowing code m)"
  by (auto simp: rethrowing_def intro: keeps_intros)

subsection \<open>Native objects whose events are acceptable\<close>

definition async_ok :: "(js_event \<Rightarrow> bool) \<Rightarrow> ('n, 'a) async \<Rightarrow> bool" where
  "async_ok ok m \<longleftrightarrow> (\<forall>n. \<forall>e \<in> set (fst (snd (m n))). ok e)"

definition nitro_ok :: "(js_event \<Rightarrow> bool) \<Rightarrow> 'n nitro \<Rightarrow> bool" where
  "nitro_ok ok native \<longleftrightarrow> (\<forall>j. async_ok ok (n_startXray native j)) \<and> async_ok ok (n_stopXray native)
     \<and> (\<forall>j. async_ok ok (n_startOlcrtc native j)) \<and> async_ok ok (n_stopOlcrtc native)
     \<and> (\<forall>t. async_ok ok (n_getStats native t)) \<and> (\<forall>b. async_ok ok (n_setKillSwitch native b))
     \<and> (\<forall>m. n_clearStoredConfig native = Some m \<longrightarrow> async_ok ok m) \<and> async_ok ok (n_hasVpnPermission native)
     \<and> async_ok ok (n_requestVpnPermission native)
     \<and> (\<forall>t n raw. fst (n_getStats native t n) = Inr raw \<longrightarrow> ok (StatsAnswer t raw))"

lemma nitro_ok_all: "nitro_ok (\<lambda>_. True) native"
  by (simp add: nitro_ok_def async_ok_def)

subsection \<open>The interfaces\<close>

locale client_frame =
  fixes ok :: "js_event \<Rightarrow> bool" and P :: "'n client \<Rightarrow> bool"
  assumes log: "P s \<Longrightarrow> P (log_call c (s\<lparr>core := n\<rparr>))"
    and hook: "P s \<Longrightarrow> P (ensureSessionStateHook s)"
    and step: "ok e \<Longrightarrow> P s \<Longrightarrow> P (js_step e s)"
    and arm: "ok (Arm config)"
begin

lemma steps: "\<forall>e \<in> set evs. ok e \<Longrightarrow> P s \<Longrightarrow> P (fold js_step evs s)"
  by (induction evs arbitrary: s) (auto simp: step)

lemma keeps_invoke: "keeps P (invoke c m)"
  by (auto simp: keeps_def invoke_def log split: prod.splits)

lemma keeps_await: "async_ok ok m \<Longrightarrow> keeps P (await c m)"
proof -
  assume a: "async_ok ok m"
  have "P (snd (await c m s))" if s: "P s" for s
  proof -
    obtain r evs n where m: "m (core s) = (r, evs, n)" by (cases "m (core s)")
    then have "\<forall>e \<in> set evs. ok e" using a unfolding async_ok_def by (metis fst_conv snd_conv)
    with m s show ?thesis by (simp add: await_def steps log)
  qed
  then show ?thesis by (simp add: keeps_def)
qed

lemma keeps_hook: "keeps P (modify ensureSessionStateHook)"
  by (rule keeps_modify) (rule hook)

lemma keeps_arm: "keeps P (modify (js_step (Arm c)))"
  by (rule keeps_modify) (rule step [OF arm])

lemmas client_intros = keeps_intros keeps_invoke keeps_await keeps_hook keeps_arm

lemma keeps_info: "keeps P (persistConnectionInfo native j)" "keeps P (clearConnectionInfo native)"
  by (auto simp: persistConnectionInfo_def clearConnectionInfo_def intro!: client_intros)

lemma keeps_start: "nitro_ok ok native \<Longrightarrow> keeps P (start_engine native j)"
  by (auto simp: start_engine_def nitro_ok_def intro!: client_intros)

lemma keeps_drop: "nitro_ok ok native \<Longrightarrow> keeps P (drop_olcrtc native)"
  by (auto simp: drop_olcrtc_def nitro_ok_def intro!: client_intros)

text \<open>The operations that start a session reset the totals only through \<open>fresh_session\<close>.\<close>

lemma keeps_connect:
  "nitro_ok ok native \<Longrightarrow> keeps P (fresh_session native) \<Longrightarrow> keeps P (connect native server options)"
  unfolding connect_def Let_def by (intro client_intros keeps_info keeps_start keeps_drop)

lemma keeps_startRaw:
  "nitro_ok ok native \<Longrightarrow> keeps P (fresh_session native) \<Longrightarrow> keeps P (startRaw native j)"
  unfolding startRaw_def by (intro client_intros keeps_info keeps_start)

lemma keeps_connectOlcrtcOnly:
  "nitro_ok ok native \<Longrightarrow> keeps P (fresh_session native) \<Longrightarrow> keeps P (connectOlcrtcOnly native opts label)"
  unfolding connectOlcrtcOnly_def Let_def by (intro client_intros keeps_info keeps_start)

lemma keeps_olcrtc:
  "nitro_ok ok native \<Longrightarrow> keeps P (startOlcrtc native config)" "nitro_ok ok native \<Longrightarrow> keeps P (stopOlcrtc native)"
  "nitro_ok ok native \<Longrightarrow> keeps P (startOlcrtc_locked native config)" "nitro_ok ok native \<Longrightarrow> keeps P (stopOlcrtc_locked native)"
  by (auto simp: startOlcrtc_def stopOlcrtc_def startOlcrtc_locked_def stopOlcrtc_locked_def nitro_ok_def intro!: client_intros)

lemma keeps_others:
  "nitro_ok ok native \<Longrightarrow> keeps P (clearStoredConfig native)" "nitro_ok ok native \<Longrightarrow> keeps P (setKillSwitch native b)"
  "nitro_ok ok native \<Longrightarrow> keeps P (ensurePermission native)"
  by (auto simp: clearStoredConfig_def setKillSwitch_def ensurePermission_def nitro_ok_def
      intro!: client_intros split: option.splits)

lemma keeps_stats:
  assumes "nitro_ok ok native"
  shows "keeps P (stats native tag)"
proof -
  let ?t = "coalesce tag (js ''proxy'')"
  have "P (snd (stats native tag s))" if s: "P s" for s
  proof -
    obtain r evs n where m: "n_getStats native ?t (core s) = (r, evs, n)" by (cases "n_getStats native ?t (core s)")
    have ok: "\<forall>e \<in> set evs. ok e" "\<And>raw. r = Inr raw \<Longrightarrow> ok (StatsAnswer ?t raw)"
      using assms m unfolding nitro_ok_def async_ok_def by (metis fst_conv snd_conv)+
    have c: "core (ensureSessionStateHook s) = core s" by (simp add: ensureSessionStateHook_def)
    let ?s = "fold js_step evs (log_call (GetStats ?t) ((ensureSessionStateHook s)\<lparr>core := n\<rparr>))"
    have P: "P ?s" by (intro steps log hook s ok)
    show ?thesis
    proof (cases r)
      case (Inl e)
      with P m c show ?thesis
        by (simp add: stats_def statsRaw_def rethrowing_def catching_def await_def andThen_def act_simps Let_def)
    next
      case (Inr raw)
      have "P (js_step (StatsAnswer ?t raw) ?s)" by (rule step [OF ok(2) P]) (rule Inr)
      with Inr m c show ?thesis
        by (cases "update_session ?t raw ?s")
          (simp add: stats_def statsRaw_def rethrowing_def catching_def await_def andThen_def act_simps Let_def)
    qed
  qed
  then show ?thesis by (simp add: keeps_def)
qed

end

locale client_invariant = client_frame +
  assumes reset: "P s \<Longrightarrow> P (resetTrafficSessions s)"
begin

lemma keeps_fresh: "keeps P (fresh_session native)"
  unfolding fresh_session_def by (intro client_intros keeps_modify reset)

lemma keeps_disconnect: "nitro_ok ok native \<Longrightarrow> keeps P (disconnect native)"
  unfolding disconnect_def by (intro client_intros keeps_modify reset keeps_info) (simp add: nitro_ok_def)

end

end
