(* ===== verification/ClientSpec.thy ===== *)
theory ClientSpec
  imports ClientFacts
begin

section \<open>What the client promises\<close>

text \<open>
  The properties of the operations: which native calls a connect makes and how it ends, what
  \<open>currentConnection\<close> reports afterwards, what a disconnect leaves, and that totals only grow while
  the tunnel is up.  \<open>demo\<close> is a small native object on which the properties are tried.
\<close>

subsection \<open>Running the operations\<close>

lemma invoke_eq: "m (core s) = (r, n) \<Longrightarrow> invoke c m s = (r, log_call c (s\<lparr>core := n\<rparr>))"
  by (simp add: invoke_def)

lemma await_eq: "m (core s) = (r, evs, n) \<Longrightarrow> await c m s = (r, fold js_step evs (log_call c (s\<lparr>core := n\<rparr>)))"
  by (simp add: await_def)

lemma js_step_frame [simp]: "trace (js_step e s) = trace s" "core (js_step e s) = core s"
proof -
  have "trace (session_hook st s) = trace s \<and> core (session_hook st s) = core s" for st
    by (simp add: session_hook_def on_sessions_def)
  then have "trace (js_step e s) = trace s \<and> core (js_step e s) = core s"
    by (cases e) (auto simp: ensureSessionStateHook_def update_session_def Let_def split: prod.splits)
  then show "trace (js_step e s) = trace s" "core (js_step e s) = core s" by simp_all
qed

lemma js_steps_frame [simp]: "trace (fold js_step evs s) = trace s" "core (fold js_step evs s) = core s"
  by (induction evs arbitrary: s) simp_all

lemma log_call_frame [simp]: "trace (log_call c s) = trace s @ [c]" "core (log_call c s) = core s"
  "armedOlcrtc (log_call c s) = armedOlcrtc s"
  by (simp_all add: log_call_def)

lemma hook_frame [simp]: "trace (ensureSessionStateHook s) = trace s" "core (ensureSessionStateHook s) = core s"
  "armedOlcrtc (ensureSessionStateHook s) = armedOlcrtc s"
  by (simp_all add: ensureSessionStateHook_def)

lemma reset_frame [simp]: "trace (resetTrafficSessions s) = trace s" "core (resetTrafficSessions s) = core s"
  "armedOlcrtc (resetTrafficSessions s) = armedOlcrtc s"
  by (simp_all add: resetTrafficSessions_def on_sessions_def)

lemma olcrtcMeta_armed: "armedOlcrtc s = armedOlcrtc s' \<Longrightarrow> olcrtcMeta s = olcrtcMeta s'"
  by (simp add: olcrtcMeta_def)

text \<open>The documented contract of the native object: the two flags can always be read, and the
  connection info is a cell that starting and stopping the engine leave alone.\<close>

definition flags_answer :: "'n nitro \<Rightarrow> bool" where
  "flags_answer native \<longleftrightarrow> (\<forall>n. \<exists>b n'. n_isVpnConnected native n = (Inr b, n'))
     \<and> (\<forall>n. \<exists>b n'. n_isOlcrtcRunning native n = (Inr b, n'))"

definition info_cell :: "('n \<Rightarrow> jstring) \<Rightarrow> 'n nitro \<Rightarrow> bool" where
  "info_cell info native \<longleftrightarrow> (\<forall>n. n_getConnectionInfo native n = (Inr (info n), n))
     \<and> (\<forall>j n. \<exists>n'. n_setConnectionInfo native j n = (Inr (), n') \<and> info n' = j)
     \<and> (\<forall>j n. info (snd (snd (n_startXray native j n))) = info n)"

lemma fresh_session_runs:
  assumes "flags_answer native"
  obtains n s' where "fresh_session native s = (Inr (), s')" "core s' = n" "trace s' = trace s @ [IsVpnConnected]"
    "armedOlcrtc s' = armedOlcrtc s"
proof -
  obtain b n where "n_isVpnConnected native (core s) = (Inr b, n)" using assms unfolding flags_answer_def by blast
  then have "fresh_session native s = unless b (modify resetTrafficSessions) (log_call IsVpnConnected (s\<lparr>core := n\<rparr>))"
    by (simp add: fresh_session_def andThen_def invoke_eq)
  then show thesis by (cases b) (auto simp: act_simps intro!: that)
qed

lemma persist_runs:
  "fst (persistConnectionInfo native j s) = Inr ()"
  "trace (snd (persistConnectionInfo native j s)) = trace s @ [SetConnectionInfo (stringify j)]"
  "fst (clearConnectionInfo native s) = Inr ()"
  "trace (snd (clearConnectionInfo native s)) = trace s @ [SetConnectionInfo []]"
  by (auto simp: persistConnectionInfo_def clearConnectionInfo_def catching_def invoke_def act_simps
      split: prod.splits sum.splits)

lemma start_engine_runs:
  "fst (start_engine native j s) = (case fst (n_startXray native j (core s)) of
     Inr _ \<Rightarrow> Inr () | Inl e \<Rightarrow> Inl (ThrownXray (toXrayError e ENGINE_START_FAILED)))"
  "trace (snd (start_engine native j s)) = trace s @ [StartXray j]"
  "core (snd (start_engine native j s)) = snd (snd (n_startXray native j (core s)))"
  by (auto simp: start_engine_def rethrowing_def catching_def await_def act_simps split: prod.splits sum.splits)

lemma andThen_ok: "m s = (Inr x, s') \<Longrightarrow> andThen m f s = f x s'"
  by (simp add: andThen_def)

lemma drop_olcrtc_runs:
  assumes "flags_answer native"
  shows "fst (drop_olcrtc native s) = Inr ()"
    "trace (snd (drop_olcrtc native s)) = trace s @ IsOlcrtcRunning #
       (if fst (n_isOlcrtcRunning native (core s)) = Inr True then [StopOlcrtc] else [])"
proof -
  obtain b n where b: "n_isOlcrtcRunning native (core s) = (Inr b, n)"
    using assms unfolding flags_answer_def by blast
  have d: "drop_olcrtc native s = unless (\<not> b) (catching (await StopOlcrtc (n_stopOlcrtc native)) (\<lambda>_. ret ()))
      (log_call IsOlcrtcRunning (s\<lparr>core := n\<rparr>))"
    unfolding drop_olcrtc_def by (rule andThen_ok) (rule invoke_eq [where m = "n_isOlcrtcRunning native", OF b])
  have "fst (drop_olcrtc native s) = Inr () \<and> trace (snd (drop_olcrtc native s)) = trace s @ IsOlcrtcRunning #
       (if fst (n_isOlcrtcRunning native (core s)) = Inr True then [StopOlcrtc] else [])"
    unfolding d by (cases b) (auto simp: b act_simps catching_def await_def split: prod.splits sum.splits)
  then show "fst (drop_olcrtc native s) = Inr ()"
    "trace (snd (drop_olcrtc native s)) = trace s @ IsOlcrtcRunning #
       (if fst (n_isOlcrtcRunning native (core s)) = Inr True then [StopOlcrtc] else [])" by blast+
qed

subsection \<open>Connecting\<close>

definition connect_info :: "server \<Rightarrow> build_options \<Rightarrow> 'n client \<Rightarrow> json" where
  "connect_info server options s = connection_info
     (if bo_olcrtc options \<noteq> None then ''olcrtc-chained'' else ''direct'') (Some (server_info server))
     (if bo_olcrtc options \<noteq> None then olcrtcMeta s else None) None"

definition connect_calls :: "'n nitro \<Rightarrow> server \<Rightarrow> build_options \<Rightarrow> 'n client \<Rightarrow> native_call list" where
  "connect_calls native server options s =
     (if bo_olcrtc options \<noteq> None then [] else IsOlcrtcRunning #
        (if fst (n_isOlcrtcRunning native (core s)) = Inr True then [StopOlcrtc] else []))
     @ [IsVpnConnected, SetConnectionInfo (stringify (connect_info server options s)),
        StartXray (stringify (buildXrayConfig server options))]"

text \<open>Everything before the engine starts.\<close>

lemma connect_runs:
  assumes "flags_answer native"
  obtains s1 s2 where
    "trace s1 = trace s @ butlast (butlast (connect_calls native server options s))"
    "s2 = snd (persistConnectionInfo native (connect_info server options s) s1)"
    "connect native server options s = start_engine native (stringify (buildXrayConfig server options)) s2"
proof -
  let ?chained = "bo_olcrtc options \<noteq> None"
  let ?m = "unless ?chained (drop_olcrtc native)"
  define a where "a = snd (?m s)"
  have a: "?m s = (Inr (), a)" "?chained \<Longrightarrow> a = s"
    "trace a = trace s @ (if ?chained then [] else IsOlcrtcRunning #
        (if fst (n_isOlcrtcRunning native (core s)) = Inr True then [StopOlcrtc] else []))"
    using drop_olcrtc_runs [OF assms, of s] unfolding a_def
    by (cases ?chained; auto simp: act_simps prod_eq_iff)+
  obtain n b where b: "fresh_session native (ensureSessionStateHook a) = (Inr (), b)"
    "trace b = trace (ensureSessionStateHook a) @ [IsVpnConnected]" "armedOlcrtc b = armedOlcrtc (ensureSessionStateHook a)"
    by (rule fresh_session_runs [OF assms]) 
  have "olcrtcMeta b = olcrtcMeta s" if ?chained
    using that a(2) b(3) by (intro olcrtcMeta_armed) simp
  then have i: "connection_info (if ?chained then ''olcrtc-chained'' else ''direct'')
      (Some (server_info server)) (if ?chained then olcrtcMeta b else None) None = connect_info server options s"
    unfolding connect_info_def by (cases ?chained) (simp_all only: if_True if_False simp_thms)
  define c where "c = snd (persistConnectionInfo native (connect_info server options s) b)"
  have c: "persistConnectionInfo native (connect_info server options s) b = (Inr (), c)"
    unfolding c_def using persist_runs(1) [of native "connect_info server options s" b] by (simp add: prod_eq_iff)
  have "connect native server options s = start_engine native (stringify (buildXrayConfig server options)) c"
    unfolding connect_def Let_def andThen_ok [where m = ?m, OF a(1)] andThen_simps(3) andThen_ok [where m = "fresh_session native", OF b(1)] andThen_simps(4) i
      andThen_ok [where m = "persistConnectionInfo native (connect_info server options s)", OF c] ..
  then show thesis
    by (rule that [OF _ c_def, rotated]) (simp add: a(3) b(2) connect_calls_def butlast_append)
qed

lemma connect_outcome:
  assumes "flags_answer native"
  shows "trace (snd (connect native server options s)) = trace s @ connect_calls native server options s
    \<and> (\<exists>n. fst (connect native server options s) = (case fst (n_startXray native (stringify (buildXrayConfig server options)) n) of
         Inr _ \<Rightarrow> Inr () | Inl e \<Rightarrow> Inl (ThrownXray (toXrayError e ENGINE_START_FAILED))))"
proof (rule connect_runs [OF assms])
  fix s1 s2
  let ?j = "stringify (buildXrayConfig server options)" and ?cs = "connect_calls native server options s"
  assume s: "trace s1 = trace s @ butlast (butlast ?cs)" "s2 = snd (persistConnectionInfo native (connect_info server options s) s1)"
    "connect native server options s = start_engine native ?j s2"
  have cs: "?cs = butlast (butlast ?cs) @ [SetConnectionInfo (stringify (connect_info server options s)), StartXray ?j]"
    by (simp add: connect_calls_def butlast_append)
  show ?thesis
    unfolding s(3) start_engine_runs using s(1) cs by (auto simp: s(2) persist_runs)
qed

subsection \<open>The stored connection info\<close>

lemma stringify_not_empty: "json_ok v \<Longrightarrow> stringify v \<noteq> []"
  by (rule hd_stringify [of v]) simp_all

lemma cell_reads:
  assumes "info_cell info native"
  shows "fst (currentConnection native s) = (if info (core s) = [] then Inr None
      else case JSON_parse (info (core s)) of Inr v \<Rightarrow> Inr (Some v) | Inl _ \<Rightarrow> Inr None)"
    and "info (core (snd (persistConnectionInfo native v s))) = stringify v"
    and "info (core (snd (clearConnectionInfo native s))) = []"
    and "info (core (snd (start_engine native j s))) = info (core s)"
proof -
  have get: "n_getConnectionInfo native n = (Inr (info n), n)" for n
    using assms by (simp add: info_cell_def)
  have set: "\<exists>n'. n_setConnectionInfo native j n = (Inr (), n') \<and> info n' = j" for j n
    using assms by (simp add: info_cell_def)
  show "fst (currentConnection native s) = (if info (core s) = [] then Inr None
      else case JSON_parse (info (core s)) of Inr v \<Rightarrow> Inr (Some v) | Inl _ \<Rightarrow> Inr None)"
    by (auto simp: currentConnection_def andThen_def invoke_def get act_simps split: sum.splits)
  obtain n where "n_setConnectionInfo native (stringify v) (core s) = (Inr (), n)" "info n = stringify v"
    using set by blast
  then show "info (core (snd (persistConnectionInfo native v s))) = stringify v"
    by (simp add: persistConnectionInfo_def catching_def invoke_def)
  obtain n where "n_setConnectionInfo native [] (core s) = (Inr (), n)" "info n = []"
    using set by blast
  then show "info (core (snd (clearConnectionInfo native s))) = []"
    by (simp add: clearConnectionInfo_def catching_def invoke_def)
  show "info (core (snd (start_engine native j s))) = info (core s)"
    using assms by (simp add: start_engine_runs info_cell_def)
qed

lemma field_ok: "json_ok c \<Longrightarrow> field k c = Some v \<Longrightarrow> json_ok v"
  by (cases "(k, c)" rule: field.cases) (auto dest: map_of_SomeD)

lemma connect_info_ok:
  assumes "json_ok (server_info server)" "\<forall>c. armedOlcrtc s = Some c \<longrightarrow> json_ok c"
  shows "json_ok (connect_info server options s)"
proof -
  have f: "json_ok (coalesce (field k c) JNull)" if "json_ok c" for k c
    using field_ok [OF that, of k] by (cases "field k c") simp_all
  have n: "json_ok (nullish (field k c) (str d))" if "json_ok c" for k c d
    using field_ok [OF that, of k] by (cases "field k c") (auto simp: nullish_def str_def split: json.splits)
  have m: "json_ok (coalesce (olcrtcMeta s) JNull)"
  proof (cases "armedOlcrtc s")
    case (Some c)
    then have "json_ok c" using assms(2) by simp
    then have "json_ok (omitUndefined [(''carrier'', field ''carrier'' c), (''roomId'', field ''roomId'' c),
        (''transport'', Some (nullish (field ''transport'' c) (str ''vp8channel'')))])"
      by (intro json_ok_omit) (simp_all add: f n)
    with Some show ?thesis by (simp add: olcrtcMeta_def)
  qed (simp add: olcrtcMeta_def)
  then have "json_ok (coalesce (if c then olcrtcMeta s else None) JNull)" for c by simp
  then show ?thesis
    unfolding connect_info_def connection_info_def using assms(1) by (intro json_ok_omit) (simp_all add: str_def)
qed

lemma startRaw_runs:
  assumes "flags_answer native"
  obtains s1 where "trace s1 = trace s @ [IsVpnConnected]"
    "startRaw native j s = start_engine native j (snd (clearConnectionInfo native s1))"
proof -
  obtain n b where b: "fresh_session native (ensureSessionStateHook s) = (Inr (), b)"
    "trace b = trace (ensureSessionStateHook s) @ [IsVpnConnected]"
    by (rule fresh_session_runs [OF assms])
  have c: "clearConnectionInfo native b = (Inr (), snd (clearConnectionInfo native b))"
    using persist_runs(3) [of native b] by (simp add: prod_eq_iff)
  have "startRaw native j s = start_engine native j (snd (clearConnectionInfo native b))"
    unfolding startRaw_def andThen_simps(3) andThen_ok [where m = "fresh_session native", OF b(1)]
      andThen_ok [where m = "clearConnectionInfo native", OF c] ..
  with b(2) show thesis by (intro that) simp_all
qed

lemma disconnect_runs:
  "disconnect native s = (case await StopXray (n_stopXray native) s of (Inl e, s') \<Rightarrow> (Inl e, s')
     | (Inr _, s') \<Rightarrow> clearConnectionInfo native (resetTrafficSessions s'))"
  by (auto simp: disconnect_def andThen_def act_simps split: prod.splits sum.splits)

subsection \<open>A native object to try the properties on\<close>

record demo =
  d_info :: jstring
  d_up :: bool
  d_olcrtc :: bool

definition switch_events :: "js_event list" where
  "switch_events = [StateEvent (js ''connecting''), StatsAnswer (js ''proxy'') \<lparr>uplink = 0, downlink = 0\<rparr>,
     StateEvent (js ''connected'')]"

text \<open>Starting an empty configuration fails; any other start switches the engine.\<close>

definition demo :: "demo nitro" where
  "demo = \<lparr>n_isVpnConnected = (\<lambda>n. (Inr (d_up n), n)), n_isOlcrtcRunning = (\<lambda>n. (Inr (d_olcrtc n), n)),
     n_getOlcrtcSocksPort = (\<lambda>n. (Inr (if d_olcrtc n then 1080 else 0), n)),
     n_setConnectionInfo = (\<lambda>j n. (Inr (), n\<lparr>d_info := j\<rparr>)), n_getConnectionInfo = (\<lambda>n. (Inr (d_info n), n)),
     n_getVersion = (\<lambda>n. (Inr [], n)),
     n_startXray = (\<lambda>j n. if j = [] then (Inl (ThrownError (js ''no config'')), [], n)
        else (Inr (), switch_events, n\<lparr>d_up := True\<rparr>)),
     n_stopXray = (\<lambda>n. (Inr (), [], n\<lparr>d_up := False\<rparr>)), n_startOlcrtc = (\<lambda>j n. (Inr (), [], n\<lparr>d_olcrtc := True\<rparr>)),
     n_stopOlcrtc = (\<lambda>n. (Inr (), [], n\<lparr>d_olcrtc := False\<rparr>)),
     n_getStats = (\<lambda>t n. (Inr \<lparr>uplink = 5, downlink = 50\<rparr>, [], n)), n_setKillSwitch = (\<lambda>b n. (Inr (), [], n)),
     n_clearStoredConfig = None, n_hasVpnPermission = (\<lambda>n. (Inr True, [], n)),
     n_requestVpnPermission = (\<lambda>n. (Inr (), [], n)), n_isEngineRunning = (\<lambda>n. (Inr (d_up n), n)),
     n_isKillSwitchEnabled = (\<lambda>n. (Inr False, n)), n_setQuickConnectEnabled = (\<lambda>b n. (Inr (), n)),
     n_isQuickConnectReady = (\<lambda>n. (Inr False, n)), n_setVpnName = (\<lambda>v n. (Inr (), n)),
     n_setNotificationConfig = (\<lambda>c n. (Inr (), n)), n_requestNotificationPermission = (\<lambda>n. (Inr True, [], n))\<rparr>"

definition demo_client :: "demo client" where
  "demo_client = initial_client \<lparr>d_info = [], d_up = False, d_olcrtc = True\<rparr>"

lemma demo_answers: "flags_answer demo" "info_cell d_info demo"
  by (simp_all add: flags_answer_def info_cell_def demo_def)

lemma demo_ok: "nitro_ok counter_event demo"
  by (auto simp: nitro_ok_def async_ok_def counter_event_def demo_def switch_events_def)

lemma connect_reported:
  assumes "flags_answer native" "info_cell info native"
    and "json_ok (server_info server)" "\<forall>c. armedOlcrtc s = Some c \<longrightarrow> json_ok c"
  shows "fst (currentConnection native (snd (connect native server options s))) = Inr (Some (connect_info server options s))"
proof (rule connect_runs [OF assms(1)])
  note cell = cell_reads [OF assms(2)]
  fix s1 s2
  assume "s2 = snd (persistConnectionInfo native (connect_info server options s) s1)"
    "connect native server options s = start_engine native (stringify (buildXrayConfig server options)) s2"
  then show ?thesis
    using stringify_parse [OF connect_info_ok [OF assms(3,4)]] by (simp add: cell stringify_not_empty [OF connect_info_ok [OF assms(3,4)]])
qed

subsection \<open>Properties\<close>

text \<open>
  C3: a connect makes these native calls and no others, in this order: a direct one first asks for a
  running olcrtc and stops it, then the tunnel is asked for, the connection info stored, and last the
  engine started once with the serialised configuration.  It resolves exactly when the engine starts,
  and otherwise rejects with the typed error of the native failure.
\<close>

theorem connect_calls_in_order:
  assumes "flags_answer native"
  shows "trace (snd (connect native server options s)) = trace s @ connect_calls native server options s
    \<and> (\<exists>n. fst (connect native server options s) = (case fst (n_startXray native (stringify (buildXrayConfig server options)) n) of
         Inr _ \<Rightarrow> Inr () | Inl e \<Rightarrow> Inl (ThrownXray (toXrayError e ENGINE_START_FAILED))))"
  by (rule connect_outcome [OF assms])

lemma connect_calls_in_order_witness:
  "trace (snd (connect demo sample_ws_server default_options demo_client)) = [IsOlcrtcRunning, StopOlcrtc, IsVpnConnected,
     SetConnectionInfo (stringify (connect_info sample_ws_server default_options demo_client)),
     StartXray (stringify (buildXrayConfig sample_ws_server default_options))]"
proof -
  have c: "bo_olcrtc default_options = None" by (simp add: default_options_def)
  have r: "fst (n_isOlcrtcRunning demo (core demo_client)) = Inr True" "trace demo_client = []"
    by (simp_all add: demo_def demo_client_def initial_client_def)
  have "connect_calls demo sample_ws_server default_options demo_client = [IsOlcrtcRunning, StopOlcrtc, IsVpnConnected,
     SetConnectionInfo (stringify (connect_info sample_ws_server default_options demo_client)),
     StartXray (stringify (buildXrayConfig sample_ws_server default_options))]"
    unfolding connect_calls_def c r(1) by simp
  then show ?thesis
    using connect_calls_in_order [OF demo_answers(1), of sample_ws_server default_options demo_client] r(2) by simp
qed



text \<open>
  C7: a disconnect that resolves leaves every session total at zero and has stopped the engine before
  it cleared the connection info; one whose native stop fails rejects with that failure, touches
  neither the totals nor the info, and so reports what is still up.
\<close>

theorem disconnect_outcome:
  "case n_stopXray native (core s) of
     (Inr _, evs, n) \<Rightarrow> fst (disconnect native s) = Inr () \<and> (\<forall>tag. total_of tag (snd (disconnect native s)) = (0, 0))
       \<and> trace (snd (disconnect native s)) = trace s @ [StopXray, SetConnectionInfo []]
   | (Inl e, evs, n) \<Rightarrow> disconnect native s = (Inl e, fold js_step evs (log_call StopXray (s\<lparr>core := n\<rparr>)))"
proof -
  obtain r evs n where r: "n_stopXray native (core s) = (r, evs, n)" by (cases "n_stopXray native (core s)")
  have t: "total_of tag (snd (clearConnectionInfo native (resetTrafficSessions s'))) = (0, 0)" for tag s'
  proof -
    have "total_of tag (snd (clearConnectionInfo native s'')) = total_of tag s''" for s''
      by (auto simp: total_of_def clearConnectionInfo_def catching_def invoke_def act_simps split: prod.splits sum.splits)
    then show ?thesis
      by (simp add: total_of_def resetTrafficSessions_def trafficSession_on_sessions shown_def new_session_def reset_session_def)
  qed
  show ?thesis
    unfolding r disconnect_runs await_eq [where m = "n_stopXray native", OF r]
    by (cases r) (simp_all add: persist_runs t)
qed

text \<open>
  C6: while the tunnel is up nothing but a disconnect makes a total shrink: switching to another
  server, raw or olcrtc-only starts, failed or not, polls, state events and everything else that runs
  in between keep what was counted.
\<close>

theorem switch_keeps_totals:
  assumes "nitro_ok counter_event native" "op_ok counter_event op" "op \<noteq> OpDisconnect"
    and "\<forall>n. fst (n_isVpnConnected native n) = Inr True" "sessions_good s"
  shows "sessions_good (run_op native op s) \<and> le2 (total_of tag s) (total_of tag (run_op native op s))"
proof -
  let ?P = "\<lambda>s'. sessions_good s' \<and> le2 (total_of tag s) (total_of tag s')"
  have "fresh_session native s' = (Inr (), snd (invoke IsVpnConnected (n_isVpnConnected native) s'))" for s'
    using assms(4) by (auto simp: fresh_session_def andThen_def invoke_def act_simps split: prod.splits dest: spec [of _ "core s'"])
  then have f: "keeps ?P (fresh_session native)"
    using totals.keeps_invoke [of "total_of tag s" tag IsVpnConnected "n_isVpnConnected native"]
    by (simp add: keeps_def)
  have P: "?P s" using assms(5) by simp
  note kept = totals.keeps_connect [OF assms(1) f] totals.keeps_startRaw [OF assms(1) f]
    totals.keeps_olcrtc [OF assms(1), of "total_of tag s" tag] totals.keeps_others [OF assms(1), of "total_of tag s" tag]
    totals.keeps_stats [OF assms(1), of "total_of tag s" tag]
  show ?thesis
  proof (cases op)
    case (OpOlcrtcOnly options label)
    show ?thesis unfolding OpOlcrtcOnly run_op.simps
      using totals.keeps_connectOlcrtcOnly [OF assms(1) f, of options label] P by (simp add: keeps_def)
  next
    case (OpEvent e)
    then show ?thesis using totals.step [of e s "total_of tag s" tag] assms(2) P by (simp add: op_ok_def)
  qed (use assms(3) P kept in \<open>simp_all add: keeps_def\<close>)
qed

definition demo_up :: "demo nitro" where
  "demo_up = demo\<lparr>n_isVpnConnected := (\<lambda>n. (Inr True, n))\<rparr>"

lemma demo_stats:
  "run_op demo (OpStats None) demo_client = snd (update_session (js ''proxy'') \<lparr>uplink = 5, downlink = 50\<rparr>
     (log_call (GetStats (js ''proxy'')) (ensureSessionStateHook demo_client)))"
proof -
  have g: "n_getStats demo (js ''proxy'') (core (ensureSessionStateHook demo_client))
      = (Inr \<lparr>uplink = 5, downlink = 50\<rparr>, [], core (ensureSessionStateHook demo_client))"
    by (simp add: demo_def)
  have c: "(ensureSessionStateHook s)\<lparr>core := core s\<rparr> = ensureSessionStateHook s" for s :: "demo client"
    by (simp add: ensureSessionStateHook_def)
  show ?thesis
    by (cases "update_session (js ''proxy'') \<lparr>uplink = 5, downlink = 50\<rparr>
        (log_call (GetStats (js ''proxy'')) (ensureSessionStateHook demo_client))")
      (simp add: stats_def statsRaw_def rethrowing_def catching_def andThen_def act_simps Let_def
        await_eq [where m = "n_getStats demo (js ''proxy'')", OF g] c del: js_Cons)
qed

lemma switch_keeps_totals_witness:
  "let s = run_op demo (OpStats None) demo_client in total_of (js ''proxy'') s = (5, 50)
     \<and> le2 (5, 50) (total_of (js ''proxy'') (run_op demo_up (OpConnect sample_ws_server default_options) s))"
proof -
  let ?s = "run_op demo (OpStats None) demo_client"
  have new: "trafficSession t demo_client = new_session" for t
    by (simp add: trafficSession_def demo_client_def initial_client_def)
  have t: "total_of (js ''proxy'') ?s = (5, 50)"
    unfolding demo_stats
    by (simp add: total_of_def update_session_def new trafficSession_def [of _ "client.trafficSessions_update f s" for f s]
        update_def new_session_def shown_def Let_def)
  have "sessions_good ?s \<and> le2 (total_of (js ''proxy'') demo_client) (total_of (js ''proxy'') ?s)"
    using totals.keeps_stats [OF demo_ok, of "total_of (js ''proxy'') demo_client" "js ''proxy''" None]
    by (simp add: keeps_def sessions_good_def new session_good_def new_session_def del: js_Cons)
  then have "le2 (total_of (js ''proxy'') ?s) (total_of (js ''proxy'') (run_op demo_up (OpConnect sample_ws_server default_options) ?s))"
    using switch_keeps_totals [of demo_up "OpConnect sample_ws_server default_options" ?s "js ''proxy''"] demo_ok
    by (simp add: nitro_ok_def demo_up_def op_ok_def del: run_op.simps js_Cons)
  with t show ?thesis by (simp add: Let_def)
qed

text \<open>
  C13: an olcrtc-only connect is refused while olcrtc has no port, before anything else is asked of the
  native side; with a port it stores its connection info and starts the engine once with the tunnel
  configuration for that very port, and a failed start is a typed error.
\<close>

theorem olcrtc_only_calls:
  assumes "flags_answer native" "n_getOlcrtcSocksPort native (core s) = (Inr port, n)"
  shows "if port \<le> 0
    then connectOlcrtcOnly native options label s = (Inl olcrtc_not_running, log_call GetOlcrtcSocksPort (s\<lparr>core := n\<rparr>))
    else let config = stringify (buildOlcrtcTunnelConfig (tunnel_of options port)) in
      trace (snd (connectOlcrtcOnly native options label s)) = trace s @ [GetOlcrtcSocksPort, IsVpnConnected,
        SetConnectionInfo (stringify (connection_info ''olcrtc-only'' None (olcrtcMeta s) label)), StartXray config]
      \<and> (\<exists>n. fst (connectOlcrtcOnly native options label s) = (case fst (n_startXray native config n) of
           Inr _ \<Rightarrow> Inr () | Inl e \<Rightarrow> Inl (ThrownXray (toXrayError e ENGINE_START_FAILED))))"
proof -
  let ?s = "log_call GetOlcrtcSocksPort (s\<lparr>core := n\<rparr>)"
  let ?j = "connection_info ''olcrtc-only'' None (olcrtcMeta s) label"
  let ?c = "stringify (buildOlcrtcTunnelConfig (tunnel_of options port))"
  note port = andThen_ok [where m = "invoke GetOlcrtcSocksPort (n_getOlcrtcSocksPort native)",
      OF invoke_eq [where m = "n_getOlcrtcSocksPort native", OF assms(2)]]
  obtain n' b where b: "fresh_session native (ensureSessionStateHook ?s) = (Inr (), b)"
    "trace b = trace (ensureSessionStateHook ?s) @ [IsVpnConnected]" "armedOlcrtc b = armedOlcrtc (ensureSessionStateHook ?s)"
    by (rule fresh_session_runs [OF assms(1)])
  have m: "olcrtcMeta b = olcrtcMeta s" using b(3) by (intro olcrtcMeta_armed) simp
  have p: "persistConnectionInfo native ?j b = (Inr (), snd (persistConnectionInfo native ?j b))"
    using persist_runs(1) [of native ?j b] by (simp add: prod_eq_iff)
  show ?thesis
  proof (cases "port \<le> 0")
    case True
    then show ?thesis by (simp add: connectOlcrtcOnly_def port act_simps)
  next
    case False
    have "connectOlcrtcOnly native options label s = start_engine native ?c (snd (persistConnectionInfo native ?j b))"
      unfolding connectOlcrtcOnly_def port if_not_P [OF False] Let_def andThen_simps(3)
        andThen_ok [where m = "fresh_session native", OF b(1)] andThen_simps(4) m
        andThen_ok [where m = "persistConnectionInfo native ?j", OF p] ..
    with False show ?thesis by (auto simp: Let_def start_engine_runs persist_runs b(2))
  qed
qed

lemma olcrtc_only_calls_witness:
  "fst (connectOlcrtcOnly demo default_options None (demo_client\<lparr>core := \<lparr>d_info = [], d_up = False, d_olcrtc = False\<rparr>\<rparr>))
     = Inl olcrtc_not_running
   \<and> length (trace (snd (connectOlcrtcOnly demo default_options None demo_client))) = 4"
proof -
  let ?off = "demo_client\<lparr>core := \<lparr>d_info = [], d_up = False, d_olcrtc = False\<rparr>\<rparr>"
  have off: "n_getOlcrtcSocksPort demo (core ?off) = (Inr 0, core ?off)" by (simp add: demo_def)
  have on: "n_getOlcrtcSocksPort demo (core demo_client) = (Inr 1080, core demo_client)"
    by (simp add: demo_def demo_client_def initial_client_def)
  have t: "trace demo_client = []" by (simp add: demo_client_def initial_client_def)
  have "connectOlcrtcOnly demo default_options None ?off = (Inl olcrtc_not_running, log_call GetOlcrtcSocksPort (?off\<lparr>core := core ?off\<rparr>))"
    using olcrtc_only_calls [OF demo_answers(1) off, of default_options None] by (simp only: order_refl if_True)
  moreover have "length (trace (snd (connectOlcrtcOnly demo default_options None demo_client))) = 4"
    using olcrtc_only_calls [OF demo_answers(1) on, of default_options None] by (simp add: Let_def t)
  ultimately show ?thesis by simp
qed


text \<open>
  \<open>coreVersions\<close> never fails and never reports an empty Xray version: it is what the engine says, or
  the version compiled in when the engine says nothing or throws; the other fields are constant.
\<close>

theorem coreVersions_never_empty:
  "\<exists>v. fst (coreVersions native s) = Inr v \<and> cv_xray v \<noteq> []
     \<and> cv_xray v = (case fst (n_getVersion native (core s)) of Inr (c # cs) \<Rightarrow> c # cs | _ \<Rightarrow> cv_xray CORE_VERSIONS)
     \<and> cv_xrayModule v = cv_xrayModule CORE_VERSIONS \<and> cv_olcrtc v = cv_olcrtc CORE_VERSIONS
     \<and> cv_olcrtcModule v = cv_olcrtcModule CORE_VERSIONS \<and> cv_olcrtcDate v = cv_olcrtcDate CORE_VERSIONS"
proof -
  have c: "cv_xray CORE_VERSIONS \<noteq> []" by (simp add: CORE_VERSIONS_def)
  obtain r n where r: "n_getVersion native (core s) = (r, n)" by (cases "n_getVersion native (core s)")
  define v where "v = (case r of Inr t \<Rightarrow> t | Inl _ \<Rightarrow> [])"
  have "fst (coreVersions native s) = Inr (CORE_VERSIONS\<lparr>cv_xray := str_or (Some v) (cv_xray CORE_VERSIONS)\<rparr>)"
    by (cases r) (simp_all add: coreVersions_def version_def andThen_def catching_def invoke_def r act_simps v_def)
  with c show ?thesis by (cases v) (auto simp: r str_or_def v_def split: sum.splits)
qed

subsection \<open>Two consequences worth knowing\<close>

text \<open>A \<open>connected\<close> event without a restart of the engine, as after a network change, banks the
  counters of the engine that goes on counting: the same bytes are shown twice.\<close>

lemma reconnect_counts_twice:
  "total_of (js ''proxy'') (fold js_step [StatsCall, StatsAnswer (js ''proxy'') \<lparr>uplink = 5, downlink = 50\<rparr>,
     StateEvent (js ''connected''), StatsAnswer (js ''proxy'') \<lparr>uplink = 6, downlink = 60\<rparr>] (initial_client n)) = (11, 110)"
proof -
  have "SessionHook \<in> set (listeners (slots (addStateListener SessionHook initial_native)))"
    by (simp add: subscribed)
  then show ?thesis
    by (simp add: initial_client_def ensureSessionStateHook_def update_session_def trafficSession_def session_hook_def
        on_sessions_def total_of_def update_def new_session_def commitRestart_def shown_def js_inject Let_def del: js_Cons)
qed

text \<open>The info is stored before the engine starts, so a connect that failed is still reported.\<close>

lemma failed_connect_reported:
  assumes "flags_answer native" "info_cell info native" "json_ok (server_info server)" "armedOlcrtc s = None"
    "fst (connect native server options s) = Inl e"
  shows "fst (currentConnection native (snd (connect native server options s))) = Inr (Some (connect_info server options s))"
proof (rule connect_runs [OF assms(1)])
  fix s1 s2
  assume "s2 = snd (persistConnectionInfo native (connect_info server options s) s1)"
    "connect native server options s = start_engine native (stringify (buildXrayConfig server options)) s2"
  moreover have "json_ok (connect_info server options s)" using assms(3,4) by (intro connect_info_ok) simp_all
  ultimately show ?thesis
    by (simp add: cell_reads [OF assms(2)] stringify_parse stringify_not_empty)
qed

end
