(* ===== verification/SerialLock.thy ===== *)
theory SerialLock
  imports Prelude
begin

section \<open>The serial lock (\<open>src/lock.ts\<close>)\<close>

text \<open>
  \<open>createSerialLock\<close> is a chain of promises.  The promise store is explicit: \<open>proms\<close> holds every
  promise, pending or settled with an outcome, \<open>chain\<close> is the variable of the closure, and each
  call of \<open>withLock\<close> adds a promise for its run and one for the new chain.  The scheduler's moves are
  a step relation: a caller calls, a reaction job fires, an operation settles in its own time.  What
  a reaction does is read off the handlers the code passes to \<open>then\<close>.
\<close>

datatype outcome = Fulfilled | Rejected

datatype handler = CallOp | ReturnUndefined

text \<open>\<open>p.then(on_ok, on_err)\<close>; a missing handler passes the outcome on.\<close>

type_synonym reaction = "handler option \<times> handler option"

fun react :: "reaction \<Rightarrow> outcome \<Rightarrow> handler option" where
  "react (on_ok, on_err) Fulfilled = on_ok"
| "react (on_ok, on_err) Rejected = on_err"

definition run_reaction :: reaction where
  "run_reaction = (Some CallOp, Some CallOp)"

definition chain_reaction :: reaction where
  "chain_reaction = (Some ReturnUndefined, Some ReturnUndefined)"

datatype phase = Waiting | Running | Ended

record call =
  c_prev :: nat
  c_run :: nat
  c_next :: nat
  c_phase :: phase

record lock_state =
  proms :: "outcome option list"
  chain :: nat
  calls :: "call list"

definition createSerialLock :: lock_state where
  "createSerialLock = \<lparr>proms = [Some Fulfilled], chain = 0, calls = []\<rparr>"

definition withLock :: "lock_state \<Rightarrow> lock_state" where
  "withLock s = (let run = length (proms s); nxt = run + 1 in
     s\<lparr>proms := proms s @ [None, None], chain := nxt,
       calls := calls s @ [\<lparr>c_prev = chain s, c_run = run, c_next = nxt, c_phase = Waiting\<rparr>]\<rparr>)"

definition set_phase :: "nat \<Rightarrow> phase \<Rightarrow> lock_state \<Rightarrow> lock_state" where
  "set_phase k p s = s\<lparr>calls := (calls s)[k := (calls s ! k)\<lparr>c_phase := p\<rparr>]\<rparr>"

definition settle :: "nat \<Rightarrow> outcome \<Rightarrow> lock_state \<Rightarrow> lock_state" where
  "settle p out s = s\<lparr>proms := (proms s)[p := Some out]\<rparr>"

text \<open>The scheduler's moves; \<open>k\<close> is a call, in the order the calls were made.\<close>

datatype move = Call | Start nat | Finish nat outcome | Release nat

inductive lock_step :: "move \<Rightarrow> lock_state \<Rightarrow> lock_state \<Rightarrow> bool" where
  call: "lock_step Call s (withLock s)"
| start: "k < length (calls s) \<Longrightarrow> c_phase (calls s ! k) = Waiting \<Longrightarrow>
    proms s ! c_prev (calls s ! k) = Some out \<Longrightarrow> react run_reaction out = Some CallOp \<Longrightarrow>
    lock_step (Start k) s (set_phase k Running s)"
| skip: "k < length (calls s) \<Longrightarrow> c_phase (calls s ! k) = Waiting \<Longrightarrow>
    proms s ! c_prev (calls s ! k) = Some out \<Longrightarrow> react run_reaction out = None \<Longrightarrow>
    lock_step (Start k) s (set_phase k Ended (settle (c_run (calls s ! k)) out s))"
| finish: "k < length (calls s) \<Longrightarrow> c_phase (calls s ! k) = Running \<Longrightarrow>
    lock_step (Finish k out) s (set_phase k Ended (settle (c_run (calls s ! k)) out s))"
| release: "k < length (calls s) \<Longrightarrow> proms s ! c_run (calls s ! k) = Some out \<Longrightarrow>
    proms s ! c_next (calls s ! k) = None \<Longrightarrow>
    lock_step (Release k) s (settle (c_next (calls s ! k))
      (if react chain_reaction out = Some ReturnUndefined then Fulfilled else out) s)"

inductive_cases lock_stepE: "lock_step m s s'"
inductive_simps lock_step_start: "lock_step (Start k) s s'"
inductive_simps lock_step_finish: "lock_step (Finish k out) s s'"
inductive_simps lock_step_release: "lock_step (Release k) s s'"

inductive lock_reachable :: "lock_state \<Rightarrow> bool" where
  init: "lock_reachable createSerialLock"
| step: "lock_reachable s \<Longrightarrow> lock_step m s s' \<Longrightarrow> lock_reachable s'"

abbreviation phase_of :: "lock_state \<Rightarrow> nat \<Rightarrow> phase" where
  "phase_of s k \<equiv> c_phase (calls s ! k)"

subsection \<open>The invariant\<close>

text \<open>Call \<open>k\<close> owns promises \<open>2k+1\<close> and \<open>2k+2\<close> and waits for promise \<open>2k\<close>.\<close>

definition lock_layout :: "lock_state \<Rightarrow> bool" where
  "lock_layout s \<longleftrightarrow> length (proms s) = 2 * length (calls s) + 1 \<and> chain s = 2 * length (calls s)
     \<and> (\<forall>k < length (calls s). c_prev (calls s ! k) = 2 * k \<and> c_run (calls s ! k) = 2 * k + 1
          \<and> c_next (calls s ! k) = 2 * k + 2)"

definition lock_order :: "lock_state \<Rightarrow> bool" where
  "lock_order s \<longleftrightarrow> proms s ! 0 \<noteq> None \<and> (\<forall>k < length (calls s).
     (proms s ! (2 * k + 1) \<noteq> None \<longleftrightarrow> phase_of s k = Ended)
     \<and> (proms s ! (2 * k + 2) \<noteq> None \<longrightarrow> phase_of s k = Ended)
     \<and> (phase_of s k \<noteq> Waiting \<longrightarrow> proms s ! (2 * k) \<noteq> None))"

lemma react_run: "react run_reaction out = Some CallOp"
  by (cases out) (simp_all add: run_reaction_def)

lemma lock_layout_withLock: "lock_layout s \<Longrightarrow> lock_layout (withLock s)"
  by (auto simp: lock_layout_def withLock_def Let_def nth_append less_Suc_eq)

lemma nth_upd: "j < length xs \<Longrightarrow> xs[i := x] ! j = (if i = j then x else xs ! j)"
  by simp

lemma lock_layout_set_phase: "lock_layout s \<Longrightarrow> lock_layout (set_phase k p s)"
  by (auto simp: lock_layout_def set_phase_def nth_upd simp del: nth_list_update_eq nth_list_update_neq)

lemma lock_layout_settle: "lock_layout s \<Longrightarrow> lock_layout (settle p out s)"
  by (auto simp: lock_layout_def settle_def)

lemma lock_order_withLock: "lock_layout s \<Longrightarrow> lock_order s \<Longrightarrow> lock_order (withLock s)"
  by (auto simp: lock_layout_def lock_order_def withLock_def Let_def nth_append less_Suc_eq)

lemma lock_step_inv:
  "lock_step m s s' \<Longrightarrow> lock_layout s \<Longrightarrow> lock_order s \<Longrightarrow> lock_layout s' \<and> lock_order s'"
proof (induction rule: lock_step.induct)
  case (call s)
  then show ?case by (simp add: lock_layout_withLock lock_order_withLock)
next
  case (start k s out)
  then have "lock_order (set_phase k Running s)"
    by (auto simp: lock_layout_def lock_order_def set_phase_def nth_list_update)
  with start show ?case by (simp add: lock_layout_set_phase)
next
  case (skip k s out)
  then show ?case by (simp add: react_run)
next
  case (finish k s out)
  then have "lock_order (set_phase k Ended (settle (c_run (calls s ! k)) out s))"
    by (auto simp: lock_layout_def lock_order_def set_phase_def settle_def nth_list_update)
  with finish show ?case by (simp add: lock_layout_set_phase lock_layout_settle)
next
  case (release k s out)
  then have "lock_order (settle (c_next (calls s ! k)) x s)" for x
    by (auto simp: lock_layout_def lock_order_def settle_def nth_list_update)
  with release show ?case by (simp add: lock_layout_settle)
qed

lemma lock_init_inv: "lock_layout createSerialLock \<and> lock_order createSerialLock"
  by (simp add: lock_layout_def lock_order_def createSerialLock_def)

lemma lock_inv: "lock_reachable s \<Longrightarrow> lock_layout s \<and> lock_order s"
proof (induction rule: lock_reachable.induct)
  case init
  show ?case by (rule lock_init_inv)
next
  case (step s m s')
  then show ?case using lock_step_inv by blast
qed

text \<open>A call that has started has every earlier call behind it.\<close>

lemma lock_order_earlier:
  assumes "lock_order s" "k < length (calls s)" "phase_of s k \<noteq> Waiting" "j < k"
  shows "phase_of s j = Ended"
  using assms(2-4)
proof (induction k)
  case (Suc k)
  then have "proms s ! (2 * k + 2) \<noteq> None" using assms(1) by (auto simp: lock_order_def)
  with Suc.prems assms(1) have "phase_of s k = Ended" by (auto simp: lock_order_def)
  with Suc show ?case by (cases "j = k") auto
qed simp

lemma lock_fifo:
  "lock_reachable s \<Longrightarrow> k < length (calls s) \<Longrightarrow> phase_of s k \<noteq> Waiting \<Longrightarrow> j < k \<Longrightarrow> phase_of s j = Ended"
  using lock_order_earlier lock_inv by blast

subsection \<open>Progress\<close>

definition phase_weight :: "phase \<Rightarrow> nat" where
  "phase_weight p = (case p of Waiting \<Rightarrow> 2 | Running \<Rightarrow> 1 | Ended \<Rightarrow> 0)"

definition lock_weight :: "lock_state \<Rightarrow> nat" where
  "lock_weight s = sum_list (map (\<lambda>c. phase_weight (c_phase c)) (calls s)) + length (filter ((=) None) (proms s))"

text \<open>The moves the lock itself owes, as opposed to new calls and to operations ending.\<close>

definition lock_can_move :: "lock_state \<Rightarrow> bool" where
  "lock_can_move s \<longleftrightarrow> (\<exists>k s'. lock_step (Start k) s s' \<or> lock_step (Release k) s s')"

lemma lock_first_open:
  assumes "k < length (calls s)" "phase_of s k \<noteq> Ended"
  obtains j where "j \<le> k" "phase_of s j \<noteq> Ended" "\<forall>i < j. phase_of s i = Ended"
  using ex_least_nat_le [of "\<lambda>j. phase_of s j \<noteq> Ended" k] assms by blast

lemma lock_not_stuck:
  assumes "lock_reachable s" "k < length (calls s)" "phase_of s k \<noteq> Ended"
  shows "lock_can_move s \<or> (\<exists>j < length (calls s). phase_of s j = Running)"
proof -
  note l = lock_inv [OF assms(1), THEN conjunct1] and o = lock_inv [OF assms(1), THEN conjunct2]
  obtain j where j: "j \<le> k" "phase_of s j \<noteq> Ended" "\<forall>i < j. phase_of s i = Ended"
    by (rule lock_first_open [OF assms(2,3)])
  with assms(2) have len: "j < length (calls s)" by simp
  show ?thesis
  proof (cases "phase_of s j")
    case Waiting
    show ?thesis
    proof (cases "proms s ! (2 * j)")
      case (Some out)
      with Waiting len l have "lock_step (Start j) s (set_phase j Running s)"
        by (intro lock_step.start [of _ _ out]) (auto simp: lock_layout_def react_run)
      then show ?thesis by (auto simp: lock_can_move_def)
    next
      case None
      then obtain i where i: "j = Suc i" using o by (cases j) (auto simp: lock_order_def)
      with j len have "phase_of s i = Ended" "i < length (calls s)" by auto
      with o obtain out where "proms s ! (2 * i + 1) = Some out" by (auto simp: lock_order_def)
      with i None l len have "\<exists>s'. lock_step (Release i) s s'"
        by (auto simp: lock_step_release lock_layout_def)
      then show ?thesis by (auto simp: lock_can_move_def)
    qed
  qed (use len j in auto)
qed

lemma sum_list_update_less:
  "k < length xs \<Longrightarrow> f x < f (xs ! k) \<Longrightarrow> sum_list (map f (xs[k := x])) < sum_list (map f (xs :: 'a list) :: nat list)"
  by (induction xs arbitrary: k) (auto split: nat.splits)

lemma filter_None_update: "length (filter ((=) None) (xs[p := Some v])) \<le> length (filter ((=) None) xs)"
  by (induction xs arbitrary: p) (auto split: nat.splits simp: le_SucI)

lemma filter_None_update_less:
  "p < length xs \<Longrightarrow> xs ! p = None \<Longrightarrow> length (filter ((=) None) (xs[p := Some v])) < length (filter ((=) None) xs)"
  by (induction xs arbitrary: p) (auto split: nat.splits simp: nth_Cons')

lemma lock_step_weight:
  "lock_step m s s' \<Longrightarrow> lock_layout s \<Longrightarrow> m \<noteq> Call \<Longrightarrow> lock_weight s' < lock_weight s"
proof (induction rule: lock_step.induct)
  case (start k s out)
  then show ?case
    using sum_list_update_less [of k "calls s" "\<lambda>c. phase_weight (c_phase c)" "(calls s ! k)\<lparr>c_phase := Running\<rparr>"]
    by (simp add: lock_weight_def set_phase_def phase_weight_def)
next
  case (skip k s out)
  then show ?case by (simp add: react_run)
next
  case (finish k s out)
  then show ?case
    using sum_list_update_less [of k "calls s" "\<lambda>c. phase_weight (c_phase c)" "(calls s ! k)\<lparr>c_phase := Ended\<rparr>"]
      filter_None_update [of "proms s" "c_run (calls s ! k)" out]
    by (simp add: lock_weight_def set_phase_def settle_def phase_weight_def)
next
  case (release k s out)
  then show ?case
    using filter_None_update_less [of "c_next (calls s ! k)" "proms s"]
    by (auto simp: lock_weight_def settle_def lock_layout_def)
qed simp

subsection \<open>The contract of the lock\<close>

text \<open>What the client relies on: of the operations passed to one lock at most one is in progress.\<close>

lemma filter_at_most_one:
  "(\<And>i j. i < j \<Longrightarrow> j < length xs \<Longrightarrow> P (xs ! i) \<Longrightarrow> P (xs ! j) \<Longrightarrow> False) \<Longrightarrow> length (filter P xs) \<le> 1"
proof (induction xs)
  case (Cons x xs)
  have "length (filter P xs) \<le> 1"
    by (rule Cons.IH) (use Cons.prems [of "Suc _" "Suc _"] in auto)
  moreover have "filter P xs = []" if "P x"
    using Cons.prems [of 0 "Suc _"] that by (auto simp: filter_empty_conv in_set_conv_nth)
  ultimately show ?case by auto
qed simp

lemma lock_one_running:
  assumes "lock_reachable s"
  shows "length (filter (\<lambda>c. c_phase c = Running) (calls s)) \<le> 1"
  by (rule filter_at_most_one) (use lock_fifo [OF assms] in fastforce)

lemma lock_settled_stays:
  "lock_step m s s' \<Longrightarrow> lock_layout s \<Longrightarrow> lock_order s \<Longrightarrow> p < length (proms s) \<Longrightarrow> proms s ! p = Some v \<Longrightarrow>
   proms s' ! p = Some v"
proof (induction rule: lock_step.induct)
  case (finish k s out)
  then have "proms s ! (2 * k + 1) = None" "c_run (calls s ! k) = 2 * k + 1"
    unfolding lock_order_def lock_layout_def by (metis option.exhaust phase.distinct(5), blast)
  with finish show ?case by (cases "p = 2 * k + 1") (auto simp: set_phase_def settle_def)
next
  case (release k s out)
  then show ?case by (cases "p = c_next (calls s ! k)") (auto simp: settle_def)
qed (auto simp: withLock_def set_phase_def settle_def Let_def nth_append nth_list_update react_run)

definition two_calls :: lock_state where
  "two_calls = set_phase 0 Running (withLock (withLock createSerialLock))"

lemma two_calls_reachable: "lock_reachable two_calls"
proof -
  have "lock_reachable (withLock (withLock createSerialLock))"
    by (meson lock_reachable.intros lock_step.call)
  moreover have "lock_step (Start 0) (withLock (withLock createSerialLock)) two_calls"
    unfolding two_calls_def by (rule lock_step.start [of _ _ Fulfilled])
      (simp_all add: withLock_def createSerialLock_def Let_def react_run)
  ultimately show ?thesis by (rule lock_reachable.step)
qed

text \<open>C20: mutual exclusion: however calls, reactions and the endings of operations interleave, at most
  one operation of a lock is running.\<close>

theorem lock_mutual_exclusion:
  "lock_reachable s \<Longrightarrow> length (filter (\<lambda>c. c_phase c = Running) (calls s)) \<le> 1"
  by (rule lock_one_running)

theorem lock_mutual_exclusion_witness:
  "length (filter (\<lambda>c. c_phase c = Running) (calls two_calls)) \<le> 1 \<and> length (calls two_calls) = 2"
  using lock_mutual_exclusion [OF two_calls_reachable]
  by (simp add: two_calls_def withLock_def createSerialLock_def set_phase_def Let_def)

text \<open>First come, first served: an operation starts only when every operation requested before it
  has settled, whether that one succeeded or failed.\<close>

theorem lock_order_of_calls:
  "lock_reachable s \<Longrightarrow> lock_step (Start k) s s' \<Longrightarrow> j < k \<Longrightarrow> phase_of s j = Ended \<and> phase_of s' k = Running"
proof -
  assume s: "lock_reachable s" and st: "lock_step (Start k) s s'" and j: "j < k"
  then have k: "k < length (calls s)" and s': "s' = set_phase k Running s"
    by (auto simp: lock_step_start react_run)
  then have run: "phase_of s' k = Running" by (simp add: set_phase_def)
  have "lock_reachable s'" using s st by (rule lock_reachable.step)
  then have "phase_of s' j = Ended"
    by (rule lock_fifo [of _ k]) (use k j run s' in \<open>simp_all add: set_phase_def\<close>)
  moreover have "phase_of s' j = phase_of s j" using j k by (simp add: s' set_phase_def)
  ultimately show ?thesis using run by simp
qed

definition one_failed :: lock_state where
  "one_failed = settle 2 Fulfilled (set_phase 0 Ended (settle 1 Rejected two_calls))"

lemma one_failed_steps:
  "lock_step (Finish 0 Rejected) two_calls (set_phase 0 Ended (settle 1 Rejected two_calls))"
  "lock_step (Release 0) (set_phase 0 Ended (settle 1 Rejected two_calls)) one_failed"
  using lock_step.finish [of 0 two_calls Rejected]
    lock_step.release [of 0 "set_phase 0 Ended (settle 1 Rejected two_calls)" Rejected]
  by (simp_all add: two_calls_def withLock_def createSerialLock_def set_phase_def settle_def one_failed_def Let_def
      chain_reaction_def)

lemma one_failed_reachable: "lock_reachable one_failed"
  using two_calls_reachable one_failed_steps by (meson lock_reachable.step)

theorem lock_order_of_calls_witness:
  "phase_of one_failed 0 = Ended \<and> proms one_failed ! 1 = Some Rejected
   \<and> phase_of (set_phase 1 Running one_failed) 1 = Running"
proof -
  have "lock_step (Start 1) one_failed (set_phase 1 Running one_failed)"
    by (rule lock_step.start [of _ _ Fulfilled])
      (simp_all add: one_failed_def two_calls_def withLock_def createSerialLock_def set_phase_def settle_def Let_def
        react_run)
  from lock_order_of_calls [OF one_failed_reachable this, of 0] show ?thesis
    by (simp add: one_failed_def two_calls_def withLock_def createSerialLock_def set_phase_def settle_def Let_def)
qed



text \<open>Apart from new calls the lock makes finitely many moves, so with the progress above every
  requested operation is eventually run and settled once its predecessors settle.\<close>

theorem lock_terminates:
  "wf {(s', s). lock_reachable s \<and> (\<exists>m. m \<noteq> Call \<and> lock_step m s s')}"
  by (rule wf_subset [OF wf_measure [of lock_weight]]) (use lock_step_weight lock_inv in fastforce)

definition lock_later :: "lock_state \<Rightarrow> lock_state \<Rightarrow> bool" where
  "lock_later = (\<lambda>s s'. \<exists>m. lock_step m s s')\<^sup>*\<^sup>*"

lemma proms_grow: "lock_step m s s' \<Longrightarrow> length (proms s) \<le> length (proms s')"
  by (induction rule: lock_step.induct) (simp_all add: withLock_def set_phase_def settle_def Let_def)

lemma lock_settled_later:
  assumes "lock_later s s'" "lock_reachable s" "p < length (proms s)" "proms s ! p = Some v"
  shows "proms s' ! p = Some v"
proof -
  have "lock_reachable s' \<and> p < length (proms s') \<and> proms s' ! p = Some v"
    using assms(1) unfolding lock_later_def
  proof (induction rule: rtranclp_induct)
    case (step s1 s2)
    then obtain m where m: "lock_step m s1 s2" by blast
    with step.IH lock_settled_stays [OF m] proms_grow [OF m] lock_inv [of s1] show ?case
      by (meson lock_reachable.step order_less_le_trans)
  qed (use assms in simp)
  then show ?thesis by blast
qed

text \<open>The caller of a locked operation gets that operation's own outcome: the promise it holds
  settles with it when the operation ends and has that outcome in every later state.\<close>

theorem lock_result:
  assumes "lock_reachable s" "lock_step (Finish k out) s s'" "lock_later s' s''"
  shows "proms s'' ! c_run (calls s ! k) = Some out"
proof (rule lock_settled_later [OF assms(3)])
  show "lock_reachable s'" using assms(1,2) by (rule lock_reachable.step)
  show "c_run (calls s ! k) < length (proms s')" "proms s' ! c_run (calls s ! k) = Some out"
    using assms(2) lock_inv [OF assms(1)] unfolding lock_step_finish
    by (auto simp: set_phase_def settle_def lock_layout_def)
qed

theorem lock_result_witness: "proms one_failed ! c_run (calls two_calls ! 0) = Some Rejected"
proof (rule lock_result [OF two_calls_reachable])
  show "lock_step (Finish 0 Rejected) two_calls (set_phase 0 Ended (settle 1 Rejected two_calls))"
    by (rule one_failed_steps)
  show "lock_later (set_phase 0 Ended (settle 1 Rejected two_calls)) one_failed"
    unfolding lock_later_def using one_failed_steps by blast
qed

end
