(* ===== verification/LockedClient.thy ===== *)
theory LockedClient
  imports ClientSpec SerialLock
begin

section \<open>The client under its lock\<close>

text \<open>
  The lock against its abstract specification, a queue of operations run one at a time, and what this
  means for the client: operations requested concurrently act as if they had been run one after the
  other in the order of the calls, with the other events between them.
\<close>

subsection \<open>The specification: a queue\<close>

record fifo =
  f_waiting :: "nat list"
  f_running :: "nat list"
  f_ended :: "nat list"

definition fifo_request :: "fifo \<Rightarrow> fifo" where
  "fifo_request q = q\<lparr>f_waiting := f_waiting q @ [length (f_ended q @ f_running q @ f_waiting q)]\<rparr>"

text \<open>Only the head of the queue may begin, and only when nothing runs.\<close>

inductive fifo_step :: "move \<Rightarrow> fifo \<Rightarrow> fifo \<Rightarrow> bool" where
  request: "fifo_step Call q (fifo_request q)"
| begin_op: "fifo_step (Start k) \<lparr>f_waiting = k # ks, f_running = [], f_ended = es\<rparr>
    \<lparr>f_waiting = ks, f_running = [k], f_ended = es\<rparr>"
| end_op: "fifo_step (Finish k out) \<lparr>f_waiting = ks, f_running = [k], f_ended = es\<rparr>
    \<lparr>f_waiting = ks, f_running = [], f_ended = es @ [k]\<rparr>"
| silent: "fifo_step (Release k) q q"

definition fifo_of :: "lock_state \<Rightarrow> fifo" where
  "fifo_of s = (let at_phase = (\<lambda>p. filter (\<lambda>k. phase_of s k = p) [0..<length (calls s)])
     in \<lparr>f_waiting = at_phase Waiting, f_running = at_phase Running, f_ended = at_phase Ended\<rparr>)"

subsection \<open>The lock is such a queue\<close>

lemma filter_upt_split:
  "k < n \<Longrightarrow> filter P [0..<n] = filter P [0..<k] @ (if P k then [k] else []) @ filter P [Suc k..<n]"
proof -
  assume "k < n"
  then have "[0..<n] = [0..<k] @ k # [Suc k..<n]"
    using upt_add_eq_append [of 0 k "n - k"] upt_conv_Cons [of k n] by simp
  then show ?thesis by simp
qed

text \<open>Around the first call that has not ended.\<close>

lemma fifo_at:
  assumes "k < length (calls s)" "\<forall>j < k. phase_of s j = Ended"
    and "\<forall>j. k < j \<and> j < length (calls s) \<longrightarrow> phase_of s j = Waiting"
  shows "fifo_of s = \<lparr>f_waiting = (if phase_of s k = Waiting then [k] else []) @ [Suc k..<length (calls s)],
    f_running = (if phase_of s k = Running then [k] else []), f_ended = [0..<k] @ (if phase_of s k = Ended then [k] else [])\<rparr>"
proof -
  have "filter (\<lambda>j. phase_of s j = p) [0..<k] = (if p = Ended then [0..<k] else [])" for p
    using assms(2) by (auto simp: filter_empty_conv intro!: filter_True)
  moreover have "filter (\<lambda>j. phase_of s j = p) [Suc k..<length (calls s)] = (if p = Waiting then [Suc k..<length (calls s)] else [])" for p
    using assms(3) by (auto simp: filter_empty_conv intro!: filter_True)
  ultimately show ?thesis
    unfolding fifo_of_def Let_def filter_upt_split [OF assms(1)] by simp
qed

lemma later_waiting:
  assumes "lock_reachable s" "k < length (calls s)" "phase_of s k \<noteq> Ended"
  shows "\<forall>j. k < j \<and> j < length (calls s) \<longrightarrow> phase_of s j = Waiting"
  using lock_fifo [OF assms(1)] assms(3) by blast

lemma fifo_partition: "length (f_ended (fifo_of s) @ f_running (fifo_of s) @ f_waiting (fifo_of s)) = length (calls s)"
proof -
  have "length (filter (\<lambda>k. f k = Ended) xs @ filter (\<lambda>k. f k = Running) xs @ filter (\<lambda>k. f k = Waiting) xs) = length xs"
    for f :: "nat \<Rightarrow> phase" and xs
  proof (induction xs)
    case (Cons x xs)
    then show ?case by (cases "f x") auto
  qed simp
  from this [of "phase_of s" "[0..<length (calls s)]"] show ?thesis by (simp add: fifo_of_def Let_def)
qed

lemma fifo_simulates:
  assumes s: "lock_reachable s" and step: "lock_step m s s'"
  shows "fifo_step m (fifo_of s) (fifo_of s')"
proof (cases m)
  case Call
  then have s': "s' = withLock s" using step by (auto elim: lock_stepE)
  have ph: "phase_of s' k = phase_of s k" if "k < length (calls s)" for k
    using that by (simp add: s' withLock_def Let_def nth_append)
  have new: "phase_of s' (length (calls s)) = Waiting" "length (calls s') = Suc (length (calls s))"
    by (simp_all add: s' withLock_def Let_def)
  have "filter (\<lambda>k. phase_of s' k = p) [0..<length (calls s)] = filter (\<lambda>k. phase_of s k = p) [0..<length (calls s)]" for p
    by (rule filter_cong) (simp_all add: ph)
  then have "fifo_of s' = fifo_request (fifo_of s)"
    using new fifo_partition [of s] by (simp add: fifo_of_def fifo_request_def Let_def)
  then show ?thesis using Call by (simp add: fifo_step.request)
next
  case (Start k)
  then have k: "k < length (calls s)" "phase_of s k = Waiting" and s': "s' = set_phase k Running s"
    using step by (auto simp: lock_step_start react_run)
  have r: "phase_of s' k = Running" "length (calls s') = length (calls s)" "lock_reachable s'"
    using k s' lock_reachable.step [OF s step] by (simp_all add: set_phase_def)
  have ph: "phase_of s' j = phase_of s j" if "j \<noteq> k" for j using that by (simp add: s' set_phase_def)
  have e: "\<forall>j < k. phase_of s j = Ended" using lock_fifo [OF r(3), of k] k r ph by auto
  have w: "\<forall>j. k < j \<and> j < length (calls s) \<longrightarrow> phase_of s j = Waiting" using later_waiting [OF s k(1)] k(2) by simp
  have "fifo_of s = \<lparr>f_waiting = k # [Suc k..<length (calls s)], f_running = [], f_ended = [0..<k]\<rparr>"
    using fifo_at [OF k(1) e w] k(2) by simp
  moreover have "fifo_of s' = \<lparr>f_waiting = [Suc k..<length (calls s)], f_running = [k], f_ended = [0..<k]\<rparr>"
    using fifo_at [of k s'] k e w r ph by simp
  ultimately show ?thesis using Start by (simp add: fifo_step.begin_op)
next
  case (Finish k out)
  then have k: "k < length (calls s)" "phase_of s k = Running"
    and s': "s' = set_phase k Ended (settle (c_run (calls s ! k)) out s)"
    using step by (auto simp: lock_step_finish)
  have r: "phase_of s' k = Ended" "length (calls s') = length (calls s)"
    using k s' by (simp_all add: set_phase_def settle_def)
  have ph: "phase_of s' j = phase_of s j" if "j \<noteq> k" for j using that by (simp add: s' set_phase_def settle_def)
  have e: "\<forall>j < k. phase_of s j = Ended" using lock_fifo [OF s, of k] k by auto
  have w: "\<forall>j. k < j \<and> j < length (calls s) \<longrightarrow> phase_of s j = Waiting" using later_waiting [OF s k(1)] k(2) by simp
  have "fifo_of s = \<lparr>f_waiting = [Suc k..<length (calls s)], f_running = [k], f_ended = [0..<k]\<rparr>"
    using fifo_at [OF k(1) e w] k(2) by simp
  moreover have "fifo_of s' = \<lparr>f_waiting = [Suc k..<length (calls s)], f_running = [], f_ended = [0..<k] @ [k]\<rparr>"
    using fifo_at [of k s'] k e w r ph by simp
  ultimately show ?thesis using Finish by (simp add: fifo_step.end_op)
next
  case (Release k)
  then have "calls s' = calls s" using step by (auto simp: lock_step_release settle_def)
  then have "fifo_of s' = fifo_of s" by (simp add: fifo_of_def)
  then show ?thesis using Release by (simp add: fifo_step.silent)
qed

subsection \<open>Calls of the client\<close>

text \<open>The methods that take the lock.\<close>

definition locked :: "client_op \<Rightarrow> bool" where
  "locked op = (case op of OpEvent _ \<Rightarrow> False | OpStats _ \<Rightarrow> False | OpPermission \<Rightarrow> False | _ \<Rightarrow> True)"

text \<open>What a call does before it queues for the lock.\<close>

definition call_event :: "client_op \<Rightarrow> js_event option" where
  "call_event op = (case op of OpStartOlcrtc config \<Rightarrow> Some (Arm (Some config)) | OpStopOlcrtc \<Rightarrow> Some (Arm None) | _ \<Rightarrow> None)"

definition at_call :: "client_op \<Rightarrow> 'n client \<Rightarrow> 'n client" where
  "at_call op c = (case call_event op of None \<Rightarrow> c | Some e \<Rightarrow> js_step e c)"

text \<open>How the promise of an operation settles when its body acts in a given state.\<close>

fun op_throws :: "'n nitro \<Rightarrow> client_op \<Rightarrow> 'n client \<Rightarrow> bool" where
  "op_throws native (OpConnect server options) s = isl (fst (connect native server options s))"
| "op_throws native (OpStartRaw j) s = isl (fst (startRaw native j s))"
| "op_throws native OpDisconnect s = isl (fst (disconnect native s))"
| "op_throws native (OpOlcrtcOnly options label) s = isl (fst (connectOlcrtcOnly native options label s))"
| "op_throws native (OpStartOlcrtc config) s = isl (fst (startOlcrtc_locked native config s))"
| "op_throws native OpStopOlcrtc s = isl (fst (stopOlcrtc_locked native s))"
| "op_throws native OpClearStored s = isl (fst (clearStoredConfig native s))"
| "op_throws native (OpStats tag) s = isl (fst (stats native tag s))"
| "op_throws native (OpKillSwitch b) s = isl (fst (setKillSwitch native b s))"
| "op_throws native OpPermission s = isl (fst (ensurePermission native s))"
| "op_throws native (OpEvent e) s = False"

definition op_outcome :: "'n nitro \<Rightarrow> client_op \<Rightarrow> 'n client \<Rightarrow> outcome" where
  "op_outcome native op s = (if op_throws native op s then Rejected else Fulfilled)"

text \<open>
  The client beside its lock: operation \<open>k\<close> is the \<open>k\<close>-th one requested, and its body has acted when it
  ends (what interleaved with its \<open>await\<close>s is part of its run); events and methods that take no lock come
  at any time.  What a
  call does at once comes with the call, unless an operation is running, when it is one of the
  events in that run.
\<close>

inductive client_run :: "'n nitro \<Rightarrow> (nat \<Rightarrow> client_op) \<Rightarrow> 'n client \<Rightarrow> lock_state \<Rightarrow> 'n client \<Rightarrow> bool"
  for native ops c0 where
  init: "client_run native ops c0 createSerialLock c0"
| call: "client_run native ops c0 s c \<Longrightarrow> lock_step Call s s' \<Longrightarrow>
    client_run native ops c0 s' (if f_running (fifo_of s) = [] then at_call (ops (length (calls s))) c else c)"
| move: "client_run native ops c0 s c \<Longrightarrow> lock_step m s s' \<Longrightarrow> m \<noteq> Call \<Longrightarrow> (\<forall>k out. m \<noteq> Finish k out) \<Longrightarrow>
    client_run native ops c0 s' c"
| body: "client_run native ops c0 s c \<Longrightarrow> lock_step (Finish k (op_outcome native (ops k) c)) s s' \<Longrightarrow>
    client_run native ops c0 s' (run_op native (ops k) c)"
| other: "client_run native ops c0 s c \<Longrightarrow> \<not> locked op \<Longrightarrow> client_run native ops c0 s (run_op native op c)"

lemma ended_prefix:
  assumes "lock_reachable s"
  shows "f_ended (fifo_of s) = [0..<length (f_ended (fifo_of s))]"
proof (cases "\<exists>k < length (calls s). phase_of s k \<noteq> Ended")
  case True
  then obtain k where "k < length (calls s)" "phase_of s k \<noteq> Ended" by blast
  from lock_first_open [OF this] obtain j where j: "j \<le> k" "phase_of s j \<noteq> Ended" "\<forall>i < j. phase_of s i = Ended" .
  with \<open>k < length (calls s)\<close> have len: "j < length (calls s)" by simp
  show ?thesis using fifo_at [OF len j(3) later_waiting [OF assms len j(2)]] j(2) by simp
next
  case False
  then have "f_ended (fifo_of s) = [0..<length (calls s)]"
    by (auto simp: fifo_of_def Let_def intro!: filter_True)
  then show ?thesis by simp
qed

lemma fifo_step_ended:
  assumes "fifo_step m q q'"
  shows "f_ended q' = f_ended q @ (case m of Finish k _ \<Rightarrow> [k] | _ \<Rightarrow> [])"
  using assms by (cases rule: fifo_step.cases) (simp_all add: fifo_request_def)

text \<open>The promises of the operations that have ended, against a history: each has the outcome of its own
  operation, at the place of that operation in the history.\<close>

definition settled_own :: "'n nitro \<Rightarrow> (nat \<Rightarrow> client_op) \<Rightarrow> 'n client \<Rightarrow> client_op list \<Rightarrow> lock_state \<Rightarrow> bool" where
  "settled_own native ops c0 hist s \<longleftrightarrow> (\<forall>k \<in> set (f_ended (fifo_of s)). \<exists>h1 h2. hist = h1 @ ops k # h2
     \<and> length (filter locked h1) = k
     \<and> proms s ! c_run (calls s ! k) = Some (op_outcome native (ops k) (fold (run_op native) h1 c0)))"

lemma ended_call: "k \<in> set (f_ended (fifo_of s)) \<Longrightarrow> k < length (calls s)"
  by (simp add: fifo_of_def Let_def)

lemma settled_stays:
  assumes "lock_reachable s" "lock_step m s s'" "k < length (calls s)" "proms s ! c_run (calls s ! k) = Some out"
  shows "proms s' ! c_run (calls s' ! k) = Some out"
proof -
  have l: "lock_layout s" "lock_order s" using lock_inv [OF assms(1)] by simp_all
  have l': "lock_layout s'" using lock_step_inv [OF assms(2) l] by simp
  have len: "length (calls s) \<le> length (calls s')"
    using assms(2) by (cases rule: lock_step.cases) (simp_all add: withLock_def set_phase_def settle_def Let_def)
  have "c_run (calls s ! k) = 2 * k + 1" "c_run (calls s' ! k) = 2 * k + 1" "2 * k + 1 < length (proms s)"
    using l(1) l' assms(3) len unfolding lock_layout_def by simp_all
  then show ?thesis using lock_settled_stays [OF assms(2) l, of "2 * k + 1" out] assms(4) by simp
qed

lemma settled_own_step:
  assumes "settled_own native ops c0 hist s" "lock_reachable s" "lock_step m s s'" "f_ended (fifo_of s') = f_ended (fifo_of s)"
  shows "settled_own native ops c0 (hist @ es) s'"
  unfolding settled_own_def assms(4)
proof
  fix k assume k: "k \<in> set (f_ended (fifo_of s))"
  then obtain h1 h2 where h: "hist = h1 @ ops k # h2" "length (filter locked h1) = k"
    "proms s ! c_run (calls s ! k) = Some (op_outcome native (ops k) (fold (run_op native) h1 c0))"
    using assms(1) unfolding settled_own_def by blast
  then show "\<exists>h1 h2. hist @ es = h1 @ ops k # h2 \<and> length (filter locked h1) = k
     \<and> proms s' ! c_run (calls s' ! k) = Some (op_outcome native (ops k) (fold (run_op native) h1 c0))"
    using settled_stays [OF assms(2,3) ended_call [OF k]] by (intro exI [of _ h1] exI [of _ "h2 @ es"]) simp
qed

lemma settled_own_finish:
  assumes "settled_own native ops c0 hist s" "lock_reachable s" "c = fold (run_op native) hist c0"
    and "lock_step (Finish k (op_outcome native (ops k) c)) s s'" "f_ended (fifo_of s') = f_ended (fifo_of s) @ [k]"
    and "filter locked hist = map ops (f_ended (fifo_of s))"
  shows "settled_own native ops c0 (hist @ [ops k]) s'"
  unfolding settled_own_def assms(5)
proof
  fix j assume "j \<in> set (f_ended (fifo_of s) @ [k])"
  then consider "j \<in> set (f_ended (fifo_of s))" | "j = k" by auto
  then show "\<exists>h1 h2. hist @ [ops k] = h1 @ ops j # h2 \<and> length (filter locked h1) = j
     \<and> proms s' ! c_run (calls s' ! j) = Some (op_outcome native (ops j) (fold (run_op native) h1 c0))"
  proof cases
    case 1
    then obtain h1 h2 where h: "hist = h1 @ ops j # h2" "length (filter locked h1) = j"
      "proms s ! c_run (calls s ! j) = Some (op_outcome native (ops j) (fold (run_op native) h1 c0))"
      using assms(1) unfolding settled_own_def by blast
    then show ?thesis
      using settled_stays [OF assms(2,4) ended_call [OF 1]] by (intro exI [of _ h1] exI [of _ "h2 @ [ops k]"]) simp
  next
    case 2
    have "f_ended (fifo_of s) @ [k] = [0..<Suc (length (f_ended (fifo_of s)))]"
      using ended_prefix [OF lock_reachable.step [OF assms(2,4)]] assms(5) by simp
    then have k: "k = length (f_ended (fifo_of s))" by simp
    have "length (filter locked hist) = k" unfolding assms(6) k by simp
    moreover have "proms s' ! c_run (calls s' ! k) = Some (op_outcome native (ops k) c)"
      using assms(4) lock_inv [OF assms(2)] unfolding lock_step_finish
      by (auto simp: set_phase_def settle_def lock_layout_def)
    ultimately show ?thesis unfolding 2 assms(3) by blast
  qed
qed

lemma client_run_history:
  assumes "client_run native ops c0 s c" "\<forall>k. locked (ops k)"
  shows "lock_reachable s \<and> (\<exists>hist. c = fold (run_op native) hist c0
    \<and> filter locked hist = map ops (f_ended (fifo_of s)) \<and> settled_own native ops c0 hist s)"
  using assms(1)
proof (induction rule: client_run.induct)
  case init
  have "f_ended (fifo_of createSerialLock) = []" by (simp add: fifo_of_def createSerialLock_def Let_def)
  then show ?case by (auto simp: settled_own_def intro: lock_reachable.init exI [of _ "[]"])
next
  case (call s c s')
  then obtain hist where h: "c = fold (run_op native) hist c0" "settled_own native ops c0 hist s"
    "filter locked hist = map ops (f_ended (fifo_of s))" and s: "lock_reachable s" by blast
  have e: "f_ended (fifo_of s') = f_ended (fifo_of s)"
    using fifo_step_ended [OF fifo_simulates [OF s call.hyps(2)]] by simp
  define c' where "c' = (if f_running (fifo_of s) = [] then at_call (ops (length (calls s))) c else c)"
  have "c' = c \<or> (\<exists>e. c' = js_step e c)" by (auto simp: c'_def at_call_def split: option.split)
  then have "\<exists>es. c' = fold (run_op native) es c \<and> filter locked es = []"
  proof
    assume "c' = c"
    then show ?thesis by (intro exI [of _ "[]"]) simp
  next
    assume "\<exists>e. c' = js_step e c"
    then obtain e where "c' = js_step e c" ..
    then show ?thesis by (intro exI [of _ "[OpEvent e]"]) (simp add: locked_def)
  qed
  then obtain es where "c' = fold (run_op native) es c" "filter locked es = []" by blast
  then have "c' = fold (run_op native) (hist @ es) c0
      \<and> filter locked (hist @ es) = map ops (f_ended (fifo_of s'))" using h e by simp
  with lock_reachable.step [OF s call.hyps(2)] settled_own_step [OF h(2) s call.hyps(2) e]
  show ?case unfolding c'_def by blast
next
  case (move s c m s')
  then obtain hist where h: "c = fold (run_op native) hist c0" "settled_own native ops c0 hist s"
    "filter locked hist = map ops (f_ended (fifo_of s))" and s: "lock_reachable s" by blast
  have e: "f_ended (fifo_of s') = f_ended (fifo_of s)"
    using fifo_step_ended [OF fifo_simulates [OF s move.hyps(2)]] move.hyps(4) by (cases m) simp_all
  have "settled_own native ops c0 hist s'"
    using settled_own_step [OF h(2) s move.hyps(2) e, of "[]"] by simp
  with h e lock_reachable.step [OF s move.hyps(2)] show ?case by metis
next
  case (body s c k s')
  then obtain hist where h: "c = fold (run_op native) hist c0" "settled_own native ops c0 hist s"
    "filter locked hist = map ops (f_ended (fifo_of s))" and s: "lock_reachable s" by blast
  have e: "f_ended (fifo_of s') = f_ended (fifo_of s) @ [k]"
    using fifo_step_ended [OF fifo_simulates [OF s body.hyps(2)]] by simp
  then have "run_op native (ops k) c = fold (run_op native) (hist @ [ops k]) c0
      \<and> filter locked (hist @ [ops k]) = map ops (f_ended (fifo_of s'))"
    using h assms(2) by simp
  with lock_reachable.step [OF s body.hyps(2)] settled_own_finish [OF h(2) s h(1) body.hyps(2) e h(3)] show ?case by blast
next
  case (other s c op)
  then obtain hist where h: "c = fold (run_op native) hist c0" "settled_own native ops c0 hist s"
    "filter locked hist = map ops (f_ended (fifo_of s))" and s: "lock_reachable s" by blast
  have "settled_own native ops c0 (hist @ [op]) s"
    unfolding settled_own_def
  proof
    fix k assume "k \<in> set (f_ended (fifo_of s))"
    then obtain h1 h2 where "hist = h1 @ ops k # h2" "length (filter locked h1) = k"
      "proms s ! c_run (calls s ! k) = Some (op_outcome native (ops k) (fold (run_op native) h1 c0))"
      using h(2) unfolding settled_own_def by blast
    then show "\<exists>h1 h2. hist @ [op] = h1 @ ops k # h2 \<and> length (filter locked h1) = k
     \<and> proms s ! c_run (calls s ! k) = Some (op_outcome native (ops k) (fold (run_op native) h1 c0))"
      by (intro exI [of _ h1] exI [of _ "h2 @ [op]"]) simp
  qed
  moreover have "run_op native op c = fold (run_op native) (hist @ [op]) c0
      \<and> filter locked (hist @ [op]) = map ops (f_ended (fifo_of s))"
    using h other.hyps(2) by simp
  ultimately show ?case using s by blast
qed

subsection \<open>Two calls\<close>

text \<open>Two operations requested in a row, of which the first runs to its end.\<close>

definition one_ended :: "outcome \<Rightarrow> lock_state" where
  "one_ended out = set_phase 0 Ended (settle 1 out two_calls)"

lemma one_ended_step: "lock_step (Finish 0 out) two_calls (one_ended out)"
  using lock_step.finish [of 0 two_calls out]
  by (simp add: one_ended_def two_calls_def withLock_def createSerialLock_def set_phase_def settle_def Let_def)

lemma one_ended_fifo: "fifo_of (one_ended out) = \<lparr>f_waiting = [1], f_running = [], f_ended = [0]\<rparr>"
  by (simp add: one_ended_def fifo_of_def two_calls_def withLock_def createSerialLock_def set_phase_def settle_def Let_def)

lemma one_ended_run:
  "client_run native ops c0 (one_ended (op_outcome native (ops 0) (at_call (ops 1) (at_call (ops 0) c0))))
     (run_op native (ops 0) (at_call (ops 1) (at_call (ops 0) c0)))"
proof -
  have "client_run native ops c0 (withLock createSerialLock) (at_call (ops 0) c0)"
    using client_run.call [OF client_run.init lock_step.call, of native ops c0]
    by (simp add: createSerialLock_def fifo_of_def)
  from client_run.call [OF this lock_step.call]
  have "client_run native ops c0 (withLock (withLock createSerialLock)) (at_call (ops 1) (at_call (ops 0) c0))"
    by (simp add: createSerialLock_def withLock_def fifo_of_def Let_def)
  moreover have "lock_step (Start 0) (withLock (withLock createSerialLock)) two_calls"
    unfolding two_calls_def by (rule lock_step.start [of _ _ Fulfilled])
      (simp_all add: withLock_def createSerialLock_def Let_def react_run)
  ultimately have "client_run native ops c0 two_calls (at_call (ops 1) (at_call (ops 0) c0))"
    by (rule client_run.move) simp_all
  from client_run.body [OF this one_ended_step] show ?thesis .
qed

subsection \<open>Properties\<close>

text \<open>
  C5: the promise chain implements a queue: every move of the lock is a move of the abstract executor
  that runs one operation at a time, in the order of the calls, the head of the queue next; the
  bookkeeping of the promises is invisible.
\<close>

theorem lock_refines_fifo:
  "lock_reachable s \<Longrightarrow> lock_step m s s' \<Longrightarrow> fifo_step m (fifo_of s) (fifo_of s')"
  by (rule fifo_simulates)

lemma lock_refines_fifo_witness:
  "fifo_step (Finish 0 Rejected) \<lparr>f_waiting = [1], f_running = [0], f_ended = []\<rparr>
     \<lparr>f_waiting = [1], f_running = [], f_ended = [0]\<rparr>"
proof -
  have "fifo_of two_calls = \<lparr>f_waiting = [1], f_running = [0], f_ended = []\<rparr>"
    "fifo_of (set_phase 0 Ended (settle 1 Rejected two_calls)) = \<lparr>f_waiting = [1], f_running = [], f_ended = [0]\<rparr>"
    by (simp_all add: fifo_of_def two_calls_def withLock_def createSerialLock_def set_phase_def settle_def Let_def)
  with lock_refines_fifo [OF two_calls_reachable one_failed_steps(1)] show ?thesis by simp
qed



subsection \<open>A queued connect\<close>

text \<open>
  \<open>stopOlcrtc\<close> forgets the armed configuration before it queues: a chained connect requested just before
  it, and served before it, stores an info that does not name the side channel it dials through.
\<close>

lemma queued_connect_forgets_olcrtc:
  assumes "flags_answer native" "bo_olcrtc options \<noteq> None"
  shows "\<exists>s c. client_run native (\<lambda>k. if k = 0 then OpConnect server options else OpStopOlcrtc) c0 s c
    \<and> f_ended (fifo_of s) = [0]
    \<and> SetConnectionInfo (stringify (connection_info ''olcrtc-chained'' (Some (server_info server)) None None)) \<in> set (trace c)"
proof -
  let ?ops = "\<lambda>k :: nat. if k = 0 then OpConnect server options else OpStopOlcrtc"
  let ?c = "c0\<lparr>armedOlcrtc := None\<rparr>"
  have "at_call (?ops 1) (at_call (?ops 0) c0) = ?c" by (simp add: at_call_def call_event_def)
  then obtain out where "client_run native ?ops c0 (one_ended out) (snd (connect native server options ?c))"
    using one_ended_run [of native ?ops c0] by fastforce
  moreover have "connect_info server options ?c = connection_info ''olcrtc-chained'' (Some (server_info server)) None None"
    using assms(2) by (simp add: connect_info_def olcrtcMeta_def)
  then have "SetConnectionInfo (stringify (connection_info ''olcrtc-chained'' (Some (server_info server)) None None))
      \<in> set (trace (snd (connect native server options ?c)))"
    using connect_outcome [OF assms(1), of server options ?c] by (simp add: connect_calls_def)
  moreover have "f_ended (fifo_of (one_ended out)) = [0]" by (simp add: one_ended_fifo)
  ultimately show ?thesis by blast
qed

end
