(* ===== verification/UrlTest.thy ===== *)
theory UrlTest
  imports ServerTypes "HOL-Library.Product_Lexorder" "HOL-Library.Multiset"
begin

section \<open>Latency probing (\<open>src/urltest/urltest.ts\<close>)\<close>

text \<open>
  \<open>urlTest\<close>: a pool of workers that share the variable \<open>next\<close>, each probing one server at a time,
  and a comparator for the final sort.  The workers interleave only at their \<open>await\<close>, so the pool
  is a step relation whose one move is the end of a probe.  \<open>measure\<close> is a function of how the
  injected \<open>fetch\<close> behaves.
\<close>

subsection \<open>One probe\<close>

text \<open>How a fetch behaves: whether it heeds the abort signal, and when, in milliseconds after the
  start, it settles by itself and whether with a response; \<open>None\<close> is never.\<close>

record fetch_run =
  heeds_abort :: bool
  settles :: "(rat \<times> bool) option"

definition js_round :: "rat \<Rightarrow> int" where
  "js_round x = \<lfloor>x + 1 / 2\<rfloor>"

lemma js_round_numeral [simp]: "js_round (numeral k) = numeral k"
  unfolding js_round_def by (rule floor_unique; simp only: of_int_numeral; linarith)

text \<open>What reaches the \<open>await\<close>: the race is won by the fetch or by the backstop timer.  The abort
  timer fires at \<open>timeoutMs\<close> and makes a heeding fetch reject then.\<close>

datatype race = Response rat | Failure rat | Backstop

definition run_race :: "rat \<Rightarrow> fetch_run \<Rightarrow> race" where
  "run_race timeoutMs f =
     (let own = (case settles f of
          Some (t, ok) \<Rightarrow> if heeds_abort f \<and> timeoutMs \<le> t then Some (timeoutMs, False) else Some (t, ok)
        | None \<Rightarrow> if heeds_abort f then Some (timeoutMs, False) else None)
      in case own of
        Some (t, ok) \<Rightarrow> if t < timeoutMs + 250 then (if ok then Response t else Failure t) else Backstop
      | None \<Rightarrow> Backstop)"

definition measure_latency :: "rat \<Rightarrow> fetch_run \<Rightarrow> int option" where
  "measure_latency timeoutMs f = (case run_race timeoutMs f of
     Backstop \<Rightarrow> None
   | Response t \<Rightarrow> Some (max 0 (js_round t))
   | Failure t \<Rightarrow> (let aborted = timeoutMs \<le> t in
       if aborted then None else if t < timeoutMs then Some (max 0 (js_round t)) else None))"

subsection \<open>The pool\<close>

record pool =
  next_index :: nat
  working :: "nat option list"
  results :: "int option option list"

text \<open>A worker goes round its loop: it takes the next index or ends.\<close>

definition take_next :: "nat \<Rightarrow> nat \<Rightarrow> pool \<Rightarrow> pool" where
  "take_next n w p =
     (if next_index p < n then p\<lparr>next_index := next_index p + 1, working := (working p)[w := Some (next_index p)]\<rparr>
      else p\<lparr>working := (working p)[w := None]\<rparr>)"

definition worker_count :: "int option \<Rightarrow> nat \<Rightarrow> nat" where
  "worker_count concurrency n = min (nat (max 1 (coalesce concurrency 8))) n"

definition start_pool :: "int option \<Rightarrow> nat \<Rightarrow> pool" where
  "start_pool concurrency n = (let k = worker_count concurrency n in
     fold (take_next n) [0..<k] \<lparr>next_index = 0, working = replicate k None, results = replicate n None\<rparr>)"

definition store :: "nat \<Rightarrow> int option \<Rightarrow> pool \<Rightarrow> pool" where
  "store i v p = p\<lparr>results := (results p)[i := Some v]\<rparr>"

inductive pool_step :: "(nat \<Rightarrow> int option) \<Rightarrow> nat \<Rightarrow> pool \<Rightarrow> pool \<Rightarrow> bool" for probe n where
  finish: "w < length (working p) \<Longrightarrow> working p ! w = Some i \<Longrightarrow>
    pool_step probe n p (take_next n w (store i (probe i) p))"

inductive pool_reachable :: "(nat \<Rightarrow> int option) \<Rightarrow> nat \<Rightarrow> int option \<Rightarrow> pool \<Rightarrow> bool" for probe n c where
  start: "pool_reachable probe n c (start_pool c n)"
| step: "pool_reachable probe n c p \<Longrightarrow> pool_step probe n p p' \<Longrightarrow> pool_reachable probe n c p'"

inductive_cases pool_stepE: "pool_step probe n p p'"

definition busy :: "pool \<Rightarrow> nat list" where
  "busy p = List.map_filter (\<lambda>x. x) (working p)"

definition idle :: "pool \<Rightarrow> bool" where
  "idle p \<longleftrightarrow> (\<forall>x \<in> set (working p). x = None)"

subsection \<open>The sort\<close>

datatype latency = Lat int | Unreachable

instantiation latency :: linorder
begin

fun less_eq_latency :: "latency \<Rightarrow> latency \<Rightarrow> bool" where
  "less_eq_latency (Lat a) (Lat b) = (a \<le> b)"
| "less_eq_latency Unreachable (Lat b) = False"
| "less_eq_latency _ Unreachable = True"

definition less_latency :: "latency \<Rightarrow> latency \<Rightarrow> bool" where
  "less_latency a b = (a \<le> b \<and> \<not> b \<le> a)"

instance
proof
  fix x y z :: latency
  show "(x < y) = (x \<le> y \<and> \<not> y \<le> x)" by (rule less_latency_def)
  show "x \<le> x" by (cases x) auto
  show "x \<le> y \<Longrightarrow> y \<le> z \<Longrightarrow> x \<le> z" by (cases x; cases y; cases z) auto
  show "x \<le> y \<Longrightarrow> y \<le> x \<Longrightarrow> x = y" by (cases x; cases y) auto
  show "x \<le> y \<or> y \<le> x" by (cases x; cases y) auto
qed

end

definition latency_of :: "int option \<Rightarrow> latency" where
  "latency_of l = (case l of None \<Rightarrow> Unreachable | Some x \<Rightarrow> Lat x)"

text \<open>The comparator of the code, on pairs of latency and index.\<close>

definition compare :: "int option \<times> nat \<Rightarrow> int option \<times> nat \<Rightarrow> int" where
  "compare a b = (case (fst a, fst b) of
     (None, None) \<Rightarrow> int (snd a) - int (snd b)
   | (None, Some _) \<Rightarrow> 1
   | (Some _, None) \<Rightarrow> -1
   | (Some la, Some lb) \<Rightarrow> if la - lb \<noteq> 0 then la - lb else int (snd a) - int (snd b))"

text \<open>\<open>Array.prototype.sort\<close> with a comparator, as an insertion sort; \<open>sort_unique\<close> shows that every
  sort gives the same.\<close>

fun insert_by :: "('a \<Rightarrow> 'a \<Rightarrow> int) \<Rightarrow> 'a \<Rightarrow> 'a list \<Rightarrow> 'a list" where
  "insert_by cmp x [] = [x]"
| "insert_by cmp x (y # ys) = (if cmp x y \<le> 0 then x # y # ys else y # insert_by cmp x ys)"

definition sort_by :: "('a \<Rightarrow> 'a \<Rightarrow> int) \<Rightarrow> 'a list \<Rightarrow> 'a list" where
  "sort_by cmp xs = foldr (insert_by cmp) xs []"

text \<open>The last expression of \<open>urlTest\<close>, on the servers with their measured latencies.\<close>

definition rank :: "('s \<times> int option) list \<Rightarrow> ('s \<times> int option) list" where
  "rank rs = map fst (sort_by (\<lambda>a b. compare (snd (fst a), snd a) (snd (fst b), snd b)) (zip rs [0..<length rs]))"

definition urlTest_result :: "'s list \<Rightarrow> pool \<Rightarrow> ('s \<times> int option) list" where
  "urlTest_result servers p = rank (zip servers (map the (results p)))"

subsection \<open>The pool delivers every result once\<close>

definition pool_inv :: "(nat \<Rightarrow> int option) \<Rightarrow> nat \<Rightarrow> pool \<Rightarrow> bool" where
  "pool_inv probe n p \<longleftrightarrow> next_index p \<le> n \<and> distinct (busy p) \<and> (\<forall>i \<in> set (busy p). i < next_index p)
     \<and> results p = map (\<lambda>i. if i < next_index p \<and> i \<notin> set (busy p) then Some (probe i) else None) [0..<n]"

definition all_busy :: "nat \<Rightarrow> pool \<Rightarrow> bool" where
  "all_busy n p \<longleftrightarrow> (next_index p < n \<longrightarrow> None \<notin> set (working p))"

lemma worker_count_le: "worker_count c n \<le> n" "0 < n \<Longrightarrow> 0 < worker_count c n"
  by (simp_all add: worker_count_def)

lemma start_fold:
  "j \<le> k \<Longrightarrow> k \<le> n \<Longrightarrow>
   fold (take_next n) [0..<j] \<lparr>next_index = 0, working = replicate k None, results = r\<rparr>
   = \<lparr>next_index = j, working = map Some [0..<j] @ replicate (k - j) None, results = r\<rparr>"
proof (induction j)
  case (Suc j)
  have "replicate (k - j) None = None # replicate (k - Suc j) None"
    using Suc.prems(1) by (metis Suc_diff_Suc Suc_le_lessD replicate_Suc)
  then have "(map Some [0..<j] @ replicate (k - j) None)[j := Some j]
      = map Some [0..<j] @ Some j # replicate (k - Suc j) None"
    by (metis diff_zero length_map length_upt list_update_length)
  with Suc show ?case by (simp add: take_next_def)
qed simp

lemma start_pool_eq:
  "start_pool c n = \<lparr>next_index = worker_count c n, working = map Some [0..<worker_count c n],
     results = replicate n None\<rparr>"
proof -
  have "worker_count c n \<le> n" by (rule worker_count_le)
  then show ?thesis using start_fold [OF le_refl, of "worker_count c n" n] by (simp add: start_pool_def Let_def)
qed

lemma busy_some: "List.map_filter (\<lambda>x. x) (map Some xs) = xs"
  by (induction xs) (simp_all add: List.map_filter_simps)

lemma start_pool_inv: "pool_inv probe n (start_pool c n) \<and> all_busy n (start_pool c n)"
  using worker_count_le(1) [of c n]
  by (auto simp: start_pool_eq pool_inv_def all_busy_def busy_def busy_some map_replicate_const [symmetric]
      intro!: nth_equalityI)

text \<open>The end of a probe, seen in the list of workers.\<close>

lemma pool_step_split:
  assumes "pool_step probe n p p'"
  obtains us i vs x where "working p = us @ Some i # vs" "working p' = us @ x # vs"
    "results p' = (results p)[i := Some (probe i)]"
    "x = Some (next_index p) \<and> next_index p < n \<and> next_index p' = Suc (next_index p)
     \<or> x = None \<and> \<not> next_index p < n \<and> next_index p' = next_index p"
  using assms
proof cases
  case (finish w i)
  let ?us = "take w (working p)" and ?vs = "drop (Suc w) (working p)"
  have "working p = ?us @ Some i # ?vs" using finish(2,3) id_take_nth_drop by metis
  moreover have "(working p)[w := x] = ?us @ x # ?vs" for x
    using finish(2) by (rule upd_conv_take_nth_drop)
  ultimately show thesis
    using finish(1) that [of ?us i ?vs "Some (next_index p)"] that [of ?us i ?vs None]
    by (cases "next_index p < n") (simp_all add: take_next_def store_def)
qed

lemma busy_split: "working p = us @ x # vs \<Longrightarrow> busy p = List.map_filter (\<lambda>x. x) us @ (case x of None \<Rightarrow> [] | Some i \<Rightarrow> [i])
    @ List.map_filter (\<lambda>x. x) vs"
  by (simp add: busy_def map_filter_append List.map_filter_simps split: option.splits)

lemma pool_step_inv:
  assumes st: "pool_step probe n p p'" and inv: "pool_inv probe n p" "all_busy n p"
  shows "pool_inv probe n p'" "all_busy n p'" "length (working p') = length (working p)"
proof -
  obtain us i vs x where w: "working p = us @ Some i # vs" "working p' = us @ x # vs"
    and r: "results p' = (results p)[i := Some (probe i)]"
    and x: "x = Some (next_index p) \<and> next_index p < n \<and> next_index p' = Suc (next_index p)
       \<or> x = None \<and> \<not> next_index p < n \<and> next_index p' = next_index p"
    by (rule pool_step_split [OF st])
  let ?b = "List.map_filter (\<lambda>x. x) us" and ?b' = "List.map_filter (\<lambda>x. x) vs"
  have b: "busy p = ?b @ [i] @ ?b'" using busy_split [OF w(1)] by simp
  have b': "busy p' = ?b @ (case x of None \<Rightarrow> [] | Some j \<Rightarrow> [j]) @ ?b'" by (rule busy_split [OF w(2)])
  have i: "i < next_index p" "next_index p \<le> n" "i \<notin> set ?b" "i \<notin> set ?b'"
    using inv(1) by (auto simp: pool_inv_def b)
  have d: "\<forall>j \<in> set ?b. j < next_index p" "\<forall>j \<in> set ?b'. j < next_index p" "distinct ?b" "distinct ?b'" "set ?b \<inter> set ?b' = {}"
    using inv(1) by (auto simp: pool_inv_def b)
  have r': "results p' = map (\<lambda>j. if j < next_index p' \<and> j \<notin> set (busy p') then Some (probe j) else None) [0..<n]"
    using inv(1) i x unfolding r by (intro nth_equalityI) (auto simp: pool_inv_def b b' nth_list_update)
  show "pool_inv probe n p'"
    unfolding pool_inv_def
  proof (intro conjI)
    show "distinct (busy p')" using x d i by (auto simp: b')
    show "\<forall>j \<in> set (busy p'). j < next_index p'" using x d i by (auto simp: b' intro: less_SucI)
  qed (use x i r' in auto)
  show "all_busy n p'" using inv(2) w x by (auto simp: all_busy_def)
  show "length (working p') = length (working p)" using w by simp
qed

lemma pool_reachable_inv:
  "pool_reachable probe n c p \<Longrightarrow> pool_inv probe n p \<and> all_busy n p \<and> length (working p) = worker_count c n"
proof (induction rule: pool_reachable.induct)
  case start
  then show ?case using start_pool_inv by (simp add: start_pool_eq)
next
  case (step p p')
  then show ?case using pool_step_inv by metis
qed

lemma idle_busy: "idle p \<longleftrightarrow> busy p = []"
proof -
  have "(\<forall>x \<in> set xs. x = None) \<longleftrightarrow> List.map_filter (\<lambda>x. x) xs = []" for xs :: "nat option list"
    by (induction xs) (auto simp: List.map_filter_simps split: option.splits)
  then show ?thesis by (simp add: idle_def busy_def)
qed

lemma idle_results:
  assumes "pool_reachable probe n c p" "idle p"
  shows "results p = map (\<lambda>i. Some (probe i)) [0..<n]"
proof -
  note inv = pool_reachable_inv [OF assms(1)]
  have "next_index p = n"
  proof (cases "worker_count c n = 0")
    case True
    then have "n = 0" using worker_count_le(2) [of n c] by (cases n) auto
    with inv show ?thesis by (simp add: pool_inv_def)
  next
    case False
    then have "working p \<noteq> []" using inv by auto
    then have "None \<in> set (working p)" using assms(2) by (cases "working p") (auto simp: idle_def)
    with inv show ?thesis by (auto simp: all_busy_def pool_inv_def)
  qed
  with inv assms(2) show ?thesis by (auto simp: pool_inv_def idle_busy)
qed

definition pending :: "pool \<Rightarrow> nat" where
  "pending p = length (filter ((=) None) (results p))"

lemma pool_step_pending: "pool_step probe n p p' \<Longrightarrow> pool_inv probe n p \<Longrightarrow> pending p' < pending p"
proof -
  assume st: "pool_step probe n p p'" and inv: "pool_inv probe n p"
  obtain us i vs x where w: "working p = us @ Some i # vs" and r: "results p' = (results p)[i := Some (probe i)]"
    by (rule pool_step_split [OF st]) auto
  have i: "i \<in> set (busy p)" using busy_split [OF w] by simp
  with inv have "i < n" "results p ! i = None" "length (results p) = n" by (auto simp: pool_inv_def)
  moreover have "k < length rs \<Longrightarrow> rs ! k = None \<Longrightarrow> length (filter ((=) None) (rs[k := Some v])) < length (filter ((=) None) rs)"
    for k and rs :: "int option option list" and v
    by (induction rs arbitrary: k) (auto split: nat.splits simp: nth_Cons')
  ultimately show ?thesis by (simp add: pending_def r)
qed

subsection \<open>The order of the result\<close>

lemma insert_by_mset: "mset (insert_by cmp x ys) = add_mset x (mset ys)"
  by (induction ys) auto

lemma sort_by_insort:
  assumes "\<And>x y. cmp x y \<le> 0 \<longleftrightarrow> f x \<le> f y"
  shows "sort_by cmp xs = sort_key (f :: _ \<Rightarrow> _ :: linorder) xs"
proof -
  have "insert_by cmp x ys = insort_key f x ys" for x ys
    by (induction ys) (simp_all add: assms)
  then have "insert_by cmp = insort_key f" by (intro ext)
  then show ?thesis by (simp add: sort_by_def sort_key_def)
qed

definition rank_key :: "('s \<times> int option) \<times> nat \<Rightarrow> latency \<times> nat" where
  "rank_key e = (latency_of (snd (fst e)), snd e)"

lemma latency_less [simp]:
  "Lat a < Lat b \<longleftrightarrow> a < b" "Lat a < Unreachable" "\<not> Unreachable < l"
proof -
  show "Lat a < Lat b \<longleftrightarrow> a < b" by (auto simp: less_latency_def)
  show "Lat a < Unreachable" by (simp add: less_latency_def)
  show "\<not> Unreachable < l" by (cases l) (simp_all add: less_latency_def)
qed

lemma compare_simps:
  "compare (None, i) (None, j) = int i - int j"
  "compare (None, i) (Some b, j) = 1"
  "compare (Some a, i) (None, j) = -1"
  "compare (Some a, i) (Some b, j) = (if a - b \<noteq> 0 then a - b else int i - int j)"
  by (simp_all only: compare_def fst_conv snd_conv prod.case option.case)

lemma compare_key_aux:
  "compare (l, i) (m, j) \<le> 0 \<longleftrightarrow> (latency_of l < latency_of m \<or> latency_of l \<le> latency_of m \<and> i \<le> j)"
proof (cases l; cases m)
  fix a b assume lm: "l = Some a" "m = Some b"
  have "((if a - b \<noteq> 0 then a - b else int i - int j) \<le> 0) = (a < b \<or> a \<le> b \<and> i \<le> j)"
    by (cases "a = b") auto
  then show ?thesis unfolding lm by (simp only: compare_simps latency_of_def option.case less_eq_latency.simps latency_less)
qed (simp_all only: compare_simps latency_of_def option.case less_eq_latency.simps latency_less, simp_all)

lemma compare_key: "compare (snd (fst a), snd a) (snd (fst b), snd b) \<le> 0 \<longleftrightarrow> rank_key a \<le> rank_key b"
  unfolding compare_key_aux rank_key_def less_eq_prod_def fst_conv snd_conv ..

lemma rank_sort_key: "rank rs = map fst (sort_key rank_key (zip rs [0..<length rs]))"
  unfolding rank_def sort_by_insort [where f = rank_key, OF compare_key] ..

lemma sorted_indexed: "sorted (map snd (filter P (zip rs [k..<k + length rs])))"
proof (induction rs arbitrary: k)
  case (Cons r rs)
  have "[k..<k + length (r # rs)] = k # [Suc k..<Suc k + length rs]" using upt_conv_Cons [of k "k + length (r # rs)"] by simp
  moreover have "\<forall>e \<in> set (filter P (zip rs [Suc k..<Suc k + length rs])). k \<le> snd e"
    by (auto simp del: upt_Suc dest!: set_zip_rightD)
  ultimately show ?case using Cons [of "Suc k"] by auto
qed simp

lemma rank_stable:
  fixes rs :: "('s \<times> int option) list"
  shows "rank rs = sort_key (\<lambda>r. latency_of (snd r)) rs"
proof (rule sym, rule properties_for_sort_key)
  let ?z = "zip rs [0..<length rs]" and ?f = "\<lambda>r. latency_of (snd r)"
  have "mset (map fst (sort_key rank_key ?z)) = mset (map fst ?z)" unfolding mset_map mset_sort ..
  also have "map fst ?z = rs" by simp
  finally show "mset (rank rs) = mset rs" unfolding rank_sort_key .
  show "sorted (map ?f (rank rs))"
  proof -
    have "sorted (map rank_key (sort_key rank_key ?z))" by simp
    then have "sorted (map fst (map rank_key (sort_key rank_key ?z)))"
      unfolding sorted_wrt_map by (rule sorted_wrt_mono_rel [rotated]) (auto simp: less_eq_prod_def)
    then show ?thesis by (simp add: rank_sort_key rank_key_def o_def)
  qed
  fix r assume "r \<in> set (rank rs)"
  show "filter (\<lambda>x. ?f r = ?f x) (rank rs) = filter (\<lambda>x. ?f r = ?f x) rs"
  proof -
    let ?P = "\<lambda>e. ?f r = ?f (fst e)"
    have "filter (\<lambda>x. ?f r = ?f x) (rank rs) = map fst (filter ?P (sort_key rank_key ?z))"
      by (simp add: rank_sort_key filter_map o_def)
    also have "filter ?P (sort_key rank_key ?z) = sort_key rank_key (filter ?P ?z)" by (rule filter_sort)
    also have "\<dots> = filter ?P ?z"
    proof (rule sort_key_id_if_sorted)
      have "sorted (map snd (filter ?P ?z))" using sorted_indexed [of ?P rs 0] by simp
      moreover have "rank_key e = (?f r, snd e)" if "e \<in> set (filter ?P ?z)" for e
        using that by (auto simp: rank_key_def)
      then have "map rank_key (filter ?P ?z) = map (Pair (?f r)) (map snd (filter ?P ?z))" by simp
      ultimately show "sorted (map rank_key (filter ?P ?z))"
        by (auto simp: sorted_wrt_map elim: sorted_wrt_mono_rel [rotated])
    qed
    also have "map fst (filter ?P ?z) = filter (\<lambda>x. ?f r = ?f x) rs"
    proof -
      have "map fst (filter (\<lambda>e. Q (fst e)) (zip rs is)) = filter Q rs" if "length rs = length is"
        for Q :: "'s \<times> int option \<Rightarrow> bool" and "is" :: "nat list"
        using that by (induction rs "is" rule: list_induct2) auto
      from this [of "[0..<length rs]" "\<lambda>x. ?f r = ?f x"] show ?thesis by simp
    qed
    finally show ?thesis .
  qed
qed

subsection \<open>The whole test\<close>

text \<open>The URL probed when the options name no other.\<close>

definition default_probe_url :: "server \<Rightarrow> exn + jstring" where
  "default_probe_url s = bindE (to_text (ps_address s))
     (\<lambda>address. Inr (js ''http://'' @ address @ js '':'' @ num_to_string (ps_port s)))"

text \<open>The probe of the server at an index: the URL of the server, and the network's answer to it.\<close>

definition probe_of :: "('s \<Rightarrow> 'u) \<Rightarrow> ('u \<Rightarrow> fetch_run) \<Rightarrow> rat option \<Rightarrow> 's list \<Rightarrow> nat \<Rightarrow> int option" where
  "probe_of probeUrl net timeoutMs servers i = measure_latency (coalesce timeoutMs 3000) (net (probeUrl (servers ! i)))"

lemma urlTest_result_eq:
  assumes "pool_reachable probe (length servers) c p" "idle p"
  shows "urlTest_result servers p = sort_key (\<lambda>r. latency_of (snd r)) (zip servers (map probe [0..<length servers]))"
  unfolding urlTest_result_def rank_stable idle_results [OF assms] by (simp add: o_def)

lemma zip_probes: "zip xs (map (probe_of url net t xs) [0..<length xs])
    = map (\<lambda>s. (s, measure_latency (coalesce t 3000) (net (url s)))) xs"
  by (rule nth_equalityI) (auto simp: probe_of_def)

lemma busy_length: "length (busy p) \<le> length (working p)"
proof -
  have "length (List.map_filter (\<lambda>x. x) xs) \<le> length xs" for xs :: "nat option list"
    by (induction xs) (auto simp: List.map_filter_simps split: option.splits)
  then show ?thesis by (simp add: busy_def)
qed

lemma run_race_heeding:
  "heeds_abort f \<Longrightarrow> run_race timeoutMs f = (case settles f of
     Some (t, ok) \<Rightarrow> if t < timeoutMs then (if ok then Response t else Failure t) else Failure timeoutMs
   | None \<Rightarrow> Failure timeoutMs)"
  by (auto simp: run_race_def Let_def split: option.splits)

text \<open>A run with two workers over three servers, used as the witness of the properties below.\<close>

definition three_probes :: "nat \<Rightarrow> int option" where
  "three_probes = probe_of id (\<lambda>u. \<lparr>heeds_abort = True, settles = u\<rparr>) (Some 100)
     [Some (70, True), None, Some (20, False)]"

lemma three_probes_simps [simp]:
  "three_probes 0 = Some 70" "three_probes (Suc 0) = None" "three_probes 2 = Some 20"
  by (simp_all add: three_probes_def probe_of_def coalesce_def measure_latency_def run_race_heeding)

definition three_done :: pool where
  "three_done = \<lparr>next_index = 3, working = [None, None], results = [Some (Some 70), Some None, Some (Some 20)]\<rparr>"

lemma three_done_reachable: "pool_reachable three_probes 3 (Some 2) three_done"
proof -
  let ?r = "\<lambda>ws rs. pool_reachable three_probes 3 (Some 2) \<lparr>next_index = 3, working = ws, results = rs\<rparr>"
  have "start_pool (Some 2) 3 = \<lparr>next_index = 2, working = [Some 0, Some 1], results = [None, None, None]\<rparr>"
    by code_simp
  then have "pool_reachable three_probes 3 (Some 2)
      \<lparr>next_index = 2, working = [Some 0, Some 1], results = [None, None, None]\<rparr>"
    using pool_reachable.start [of three_probes 3 "Some 2"] by simp
  from pool_reachable.step [OF this pool_step.finish [of 1 _ 1]]
  have "?r [Some 0, Some 2] [None, Some None, None]"
    by (simp add: take_next_def store_def)
  from pool_reachable.step [OF this pool_step.finish [of 0 _ 0]]
  have "?r [None, Some 2] [Some (Some 70), Some None, None]"
    by (simp add: take_next_def store_def)
  from pool_reachable.step [OF this pool_step.finish [of 1 _ 2]]
  show ?thesis by (simp add: take_next_def store_def three_done_def)
qed

subsection \<open>Properties\<close>

text \<open>
  C24: whatever the number of workers and the order in which the probes end, once all workers are done
  \<open>urlTest\<close> resolves to every server with its own latency, in the order of a stable sort: fastest
  first, unreachable last, ties in input order.
\<close>

theorem urlTest_independent_of_schedule:
  assumes "pool_reachable (probe_of probeUrl net timeoutMs servers) (length servers) concurrency p" "idle p"
  shows "urlTest_result servers p = sort_key (\<lambda>r. latency_of (snd r))
    (map (\<lambda>s. (s, measure_latency (coalesce timeoutMs 3000) (net (probeUrl s)))) servers)"
  unfolding urlTest_result_eq [OF assms] zip_probes ..

lemma urlTest_independent_of_schedule_witness:
  "urlTest_result [Some (70 :: rat, True), None, Some (20, False)] three_done
   = [(Some (20, False), Some 20), (Some (70, True), Some 70), (None, None)]"
proof -
  let ?s = "[Some (70, True), None, Some (20, False)] :: (rat \<times> bool) option list"
  have "pool_reachable (probe_of id (\<lambda>u. \<lparr>heeds_abort = True, settles = u\<rparr>) (Some 100) ?s) (length ?s) (Some 2) three_done"
    using three_done_reachable by (simp add: three_probes_def numeral_3_eq_3)
  from urlTest_independent_of_schedule [OF this] show ?thesis
    by (simp add: idle_def three_done_def coalesce_def measure_latency_def run_race_heeding
        latency_of_def sort_key_def)
qed

text \<open>
  C38: at every moment at most \<open>max 1 concurrency\<close> probes run (eight when the option is absent), never
  two for one server, and no result is written before its probe has started.
\<close>

theorem urlTest_concurrency:
  assumes "pool_reachable probe n concurrency p"
  shows "int (length (busy p)) \<le> max 1 (coalesce concurrency 8) \<and> distinct (busy p)
    \<and> length (results p) = n \<and> (\<forall>i < n. results p ! i = (if i < next_index p \<and> i \<notin> set (busy p) then Some (probe i) else None))"
proof -
  note inv = pool_reachable_inv [OF assms]
  have "length (busy p) \<le> worker_count concurrency n" using inv busy_length [of p] by simp
  then have "int (length (busy p)) \<le> max 1 (coalesce concurrency 8)" by (simp add: worker_count_def nat_le_iff le_nat_iff)
  with inv show ?thesis by (simp add: pool_inv_def)
qed

lemma urlTest_concurrency_witness: "int (length (busy three_done)) \<le> 2"
  using urlTest_concurrency [OF three_done_reachable] by (simp add: coalesce_def)

text \<open>
  C39: \<open>urlTest\<close> returns: every pool of workers comes to an end, since each finished probe leaves one
  result fewer to come, and a pool that is not idle can always make a step.
\<close>

theorem urlTest_terminates:
  "wfP (\<lambda>p' p. pool_reachable probe n c p \<and> pool_step probe n p p')
   \<and> (\<forall>p. pool_reachable probe n c p \<and> (\<nexists>p'. pool_step probe n p p') \<longrightarrow> idle p \<and> None \<notin> set (results p))"
proof (intro conjI allI impI)
  show "wfP (\<lambda>p' p. pool_reachable probe n c p \<and> pool_step probe n p p')"
    by (rule wfp_if_convertible_to_nat [of _ pending]) (use pool_reachable_inv pool_step_pending in blast)
next
  fix p assume p: "pool_reachable probe n c p \<and> (\<nexists>p'. pool_step probe n p p')"
  show idle: "idle p"
    unfolding idle_def
  proof (rule ballI, rule ccontr)
    fix x assume "x \<in> set (working p)" "x \<noteq> None"
    then obtain w i where "w < length (working p)" "working p ! w = Some i" by (auto simp: in_set_conv_nth)
    with p show False using pool_step.finish by blast
  qed
  show "None \<notin> set (results p)" using idle_results [OF _ idle] p by auto
qed

lemma urlTest_terminates_witness: "idle three_done \<and> None \<notin> set (results three_done)"
proof -
  have "\<nexists>p'. pool_step three_probes 3 three_done p'"
    by (auto simp: three_done_def less_Suc_eq elim!: pool_stepE)
  with three_done_reachable show ?thesis using urlTest_terminates [of three_probes 3 "Some 2"] by blast
qed

text \<open>
  With a \<open>fetch\<close> that heeds the abort signal a server is reachable exactly when the fetch settles,
  with a response or with a protocol error, before the timeout, and its latency is the rounded time
  of that; whatever the \<open>fetch\<close> does, the slot is free before \<open>timeoutMs + 250\<close> and a latency is never
  negative.
\<close>

theorem measure_reachability:
  "(heeds_abort f \<longrightarrow> measure_latency timeoutMs f = (case settles f of
      Some (t, ok) \<Rightarrow> if t < timeoutMs then Some (max 0 (js_round t)) else None | None \<Rightarrow> None))
   \<and> (\<forall>l. measure_latency timeoutMs f = Some l \<longrightarrow> 0 \<le> l \<and> l \<le> max 0 (js_round (timeoutMs + 250)))"
proof (intro conjI allI impI)
  assume "heeds_abort f"
  then show "measure_latency timeoutMs f = (case settles f of
      Some (t, ok) \<Rightarrow> if t < timeoutMs then Some (max 0 (js_round t)) else None | None \<Rightarrow> None)"
    by (auto simp: measure_latency_def run_race_heeding split: option.splits)
next
  fix l assume l: "measure_latency timeoutMs f = Some l"
  have mono: "t < timeoutMs + 250 \<Longrightarrow> js_round t \<le> js_round (timeoutMs + 250)" for t
    unfolding js_round_def by (rule floor_mono) simp
  have "\<exists>t. t < timeoutMs + 250 \<and> l = max 0 (js_round t)"
    using l by (auto simp: measure_latency_def run_race_def Let_def split: option.splits if_splits prod.splits intro!: exI)
  with mono show "0 \<le> l" "l \<le> max 0 (js_round (timeoutMs + 250))" by fastforce+
qed

lemma measure_reachability_witness:
  "measure_latency 100 \<lparr>heeds_abort = True, settles = Some (99, False)\<rparr> = Some 99
   \<and> measure_latency 100 \<lparr>heeds_abort = True, settles = Some (100, True)\<rparr> = None"
  using measure_reachability [of "\<lparr>heeds_abort = True, settles = Some (99, False)\<rparr>" 100]
    measure_reachability [of "\<lparr>heeds_abort = True, settles = Some (100, True)\<rparr>" 100]
  by simp

text \<open>
  A \<open>fetch\<close> that ignores the signal and answers in the last 250 milliseconds counts as reachable with
  a latency above the timeout, while one that fails then does not.
\<close>

lemma late_response_counts:
  "measure_latency 100 \<lparr>heeds_abort = False, settles = Some (200, True)\<rparr> = Some 200
   \<and> measure_latency 100 \<lparr>heeds_abort = False, settles = Some (200, False)\<rparr> = None"
  by (simp add: measure_latency_def run_race_def)

subsection \<open>The function with its options\<close>

record url_test_options =
  ut_timeoutMs :: "rat option"
  ut_concurrency :: "int option"
  ut_probeUrl :: "(server \<Rightarrow> exn + jstring) option"

definition no_test_options :: url_test_options where
  "no_test_options = \<lparr>ut_timeoutMs = None, ut_concurrency = None, ut_probeUrl = None\<rparr>"

definition probe_url :: "url_test_options \<Rightarrow> server \<Rightarrow> exn + jstring" where
  "probe_url options = coalesce (ut_probeUrl options) default_probe_url"

text \<open>How the promise settles: with the ranking once the pool is idle, or with what \<open>probeUrl\<close> threw for
  some server, since the worker that meets it rejects and \<open>Promise.all\<close> with it.\<close>

inductive urlTest :: "url_test_options \<Rightarrow> (jstring \<Rightarrow> fetch_run) \<Rightarrow> server list \<Rightarrow> exn + (server \<times> int option) list \<Rightarrow> bool"
  for options net servers where
  resolves: "\<forall>s \<in> set servers. probe_url options s = Inr (url s) \<Longrightarrow>
    pool_reachable (probe_of url net (ut_timeoutMs options) servers) (length servers) (ut_concurrency options) p \<Longrightarrow> idle p \<Longrightarrow>
    urlTest options net servers (Inr (urlTest_result servers p))"
| rejects: "s \<in> set servers \<Longrightarrow> probe_url options s = Inl e \<Longrightarrow> urlTest options net servers (Inl e)"

lemma pool_ends: "pool_reachable probe n c p \<Longrightarrow> \<exists>q. pool_reachable probe n c q \<and> idle q"
proof (induction "pending p" arbitrary: p rule: less_induct)
  case less
  show ?case
  proof (cases "idle p")
    case True
    with less.prems show ?thesis by blast
  next
    case False
    then obtain w i where "w < length (working p)" "working p ! w = Some i" unfolding idle_def by (force simp: in_set_conv_nth)
    then obtain p' where p': "pool_step probe n p p'" using pool_step.finish by blast
    have "pending p' < pending p" using pool_step_pending [OF p'] pool_reachable_inv [OF less.prems] by blast
    then show ?thesis using less.hyps pool_reachable.step [OF less.prems p'] by blast
  qed
qed

text \<open>It always settles; it resolves exactly when no URL throws, and then there is only one ranking.\<close>

lemma urlTest_settles: "\<exists>x. urlTest options net servers x"
proof (cases "\<exists>s \<in> set servers. \<exists>e. probe_url options s = Inl e")
  case True
  then show ?thesis using urlTest.rejects by blast
next
  case False
  define url where "url s = projr (probe_url options s)" for s
  from False have url: "\<forall>s \<in> set servers. probe_url options s = Inr (url s)"
    by (metis sum.collapse(2) sum.disc(1) sum.exhaust_disc sum.collapse(1) url_def)
  obtain p where "pool_reachable (probe_of url net (ut_timeoutMs options) servers) (length servers) (ut_concurrency options) p" "idle p"
    using pool_ends [OF pool_reachable.start] by blast
  with url show ?thesis using urlTest.resolves by blast
qed

lemma urlTest_outcome:
  assumes "urlTest options net servers x"
  shows "case x of Inl e \<Rightarrow> \<exists>s \<in> set servers. probe_url options s = Inl e
    | Inr ranked \<Rightarrow> (\<forall>s \<in> set servers. isl (probe_url options s) = False)
        \<and> ranked = sort_key (\<lambda>r. latency_of (snd r))
            (map (\<lambda>s. (s, measure_latency (coalesce (ut_timeoutMs options) 3000) (net (projr (probe_url options s))))) servers)"
  using assms
proof cases
  case (resolves url p)
  have m: "map (\<lambda>s. (s, measure_latency (coalesce (ut_timeoutMs options) 3000) (net (url s)))) servers
      = map (\<lambda>s. (s, measure_latency (coalesce (ut_timeoutMs options) 3000) (net (projr (probe_url options s))))) servers"
    using resolves(2) by simp
  have "isl (probe_url options s) = False" if "s \<in> set servers" for s using resolves(2) that by simp
  then show ?thesis
    unfolding resolves(1) urlTest_result_eq [OF resolves(3,4)] zip_probes m by simp
qed auto

end
