(* ===== verification/GeneratedFile.thy ===== *)
theory GeneratedFile
  imports Versions Json
begin

section \<open>The generated file (\<open>scripts/gen-core-versions.ts\<close>, \<open>src/generated/core-versions.ts\<close>)\<close>

text \<open>
  The text the generator writes for its versions, the committed file, and their agreement: the file in
  the repository is what the generator writes whenever the shipped binaries carry the module versions
  it names.  A line is a string without its line feed; the last line is followed by one too.
\<close>

definition file_of :: "jstring list \<Rightarrow> jstring" where
  "file_of ls = concat (map (\<lambda>l. l @ [LF]) ls)"

text \<open>The part of the template before the values.\<close>

definition source_head :: "jstring list" where
  \<open>source_head = [js ''// AUTO-GENERATED by scripts/gen-core-versions.ts '' @ [0x2014] @ js '' do not edit by hand.'',
     js ''// Extracted from the Go build-info table of the committed native artifacts,'',
     js ''// so these describe the binaries that actually ship, not go.mod's intent.'',
     js ''// Regenerate with `bun run gen:versions` after every Go rebuild.'',
     [],
     js ''/** Versions of the native cores linked into the shipped binaries. */'',
     js ''export interface CoreVersions {'',
     js ''  /** Xray-core, in `core.Version()` shape '' @ [0x2014] @ js '' e.g. "26.3.27". */'',
     js ''  xray: string'',
     js ''  /** Xray-core Go module version '' @ [0x2014] @ js '' e.g. "v1.260327.0". */'',
     js ''  xrayModule: string'',
     js ''  /**'',
     js ''   * olcrtc has no released semantic version; upstream is pinned by commit, so'',
     js ''   * the short commit hash is the only honest identifier '' @ [0x2014] @ js '' e.g. "1255cf8".'',
     js ''   */'',
     js ''  olcrtc: string'',
     js ''  /** olcrtc Go module pseudo-version '' @ [0x2014] @ js '' e.g. "v0.0.0-20260704192300-1255cf8248ee". */'',
     js ''  olcrtcModule: string'',
     js ''  /** Commit date behind the olcrtc pseudo-version, ISO `YYYY-MM-DD`. */'',
     js ''  olcrtcDate: string'',
     js ''}'',
     [],
     js ''export const CORE_VERSIONS: CoreVersions = {'']\<close>

definition version_line :: "string \<Rightarrow> jstring \<Rightarrow> jstring" where
  "version_line k v = js ''  '' @ js k @ js '': '' @ quote v @ js '',''"

definition core_versions_source :: "core_versions \<Rightarrow> jstring" where
  "core_versions_source v = file_of (source_head @ [version_line ''xray'' (cv_xray v),
     version_line ''xrayModule'' (cv_xrayModule v), version_line ''olcrtc'' (cv_olcrtc v),
     version_line ''olcrtcModule'' (cv_olcrtcModule v), version_line ''olcrtcDate'' (cv_olcrtcDate v), js ''}''])"

text \<open>What the script does with the artifacts: the file it writes, or the error it throws.\<close>

definition generate :: "jstring list \<Rightarrow> gen_error + jstring" where
  "generate artifacts = (case gen_core_versions artifacts of Inl e \<Rightarrow> Inl e | Inr v \<Rightarrow> Inr (core_versions_source v))"

text \<open>The committed file.\<close>

definition committed_source :: jstring where
  \<open>committed_source = file_of (source_head @ [js ''  xray: "26.7.28",'',
     js ''  xrayModule: "v1.260327.1-0.20260728075948-5ca6f4b7d4dc",'',
     js ''  olcrtc: "1255cf8",'',
     js ''  olcrtcModule: "v0.0.0-20260704192300-1255cf8248ee",'',
     js ''  olcrtcDate: "2026-07-04",'',
     js ''}''])\<close>

subsection \<open>The repository is up to date\<close>

lemma version_lines:
  \<open>version_line ''xray'' (cv_xray CORE_VERSIONS) = js ''  xray: "26.7.28",''\<close>
  \<open>version_line ''xrayModule'' (cv_xrayModule CORE_VERSIONS)
     = js ''  xrayModule: "v1.260327.1-0.20260728075948-5ca6f4b7d4dc",''\<close>
  \<open>version_line ''olcrtc'' (cv_olcrtc CORE_VERSIONS) = js ''  olcrtc: "1255cf8",''\<close>
  \<open>version_line ''olcrtcModule'' (cv_olcrtcModule CORE_VERSIONS)
     = js ''  olcrtcModule: "v0.0.0-20260704192300-1255cf8248ee",''\<close>
  \<open>version_line ''olcrtcDate'' (cv_olcrtcDate CORE_VERSIONS) = js ''  olcrtcDate: "2026-07-04",''\<close>
  by (simp_all add: version_line_def CORE_VERSIONS_def quote_def quote_cu_def is_high_def is_low_def)

lemma committed_is_source: "core_versions_source CORE_VERSIONS = committed_source"
  unfolding core_versions_source_def committed_source_def version_lines ..

text \<open>
  The committed file is up to date: when every shipped binary carries the two module versions it names, the
  generator writes exactly the file that is in the repository.
\<close>

theorem generated_file_current:
  assumes "artifacts \<noteq> []"
    and "\<forall>buf \<in> set artifacts. findDepVersion buf XRAY_MODULE = Some (cv_xrayModule CORE_VERSIONS)
      \<and> findDepVersion buf OLCRTC_MODULE = Some (cv_olcrtcModule CORE_VERSIONS)"
  shows "generate artifacts = Inr committed_source"
proof -
  have "gen_core_versions artifacts = Inr CORE_VERSIONS"
    using assms core_versions_consistent by (simp add: gen_core_versions_Inr list_all_iff)
  then show ?thesis by (simp add: generate_def committed_is_source)
qed

definition sample_artifact :: jstring where
  "sample_artifact = dep_needle XRAY_MODULE @ cv_xrayModule CORE_VERSIONS @ LF # dep_needle OLCRTC_MODULE @ cv_olcrtcModule CORE_VERSIONS @ [LF]"

lemma sample_artifact_versions:
  "findDepVersion sample_artifact XRAY_MODULE = Some (cv_xrayModule CORE_VERSIONS)"
  "findDepVersion sample_artifact OLCRTC_MODULE = Some (cv_olcrtcModule CORE_VERSIONS)"
  by code_simp+

lemma generated_file_current_witness: "generate [sample_artifact, sample_artifact] = Inr committed_source"
  by (rule generated_file_current) (simp_all add: sample_artifact_versions)

end
