(* ===== verification/GenScript.thy ===== *)
theory GenScript
  imports GeneratedFile XrayErrors "HOL-Library.AList"
begin

section \<open>The generator as a script (\<open>scripts/gen-core-versions.ts\<close>)\<close>

text \<open>
  The top level of the script, loop by loop: the artifacts it reads, the maps it fills, the errors it
  throws with their texts, and what it does to the file system once nothing can fail any more.
  Reading a file is an argument.  A \<open>Map\<close> is an association list in insertion order.
\<close>

definition ARTIFACTS :: "string list" where
  "ARTIFACTS = [''android/src/main/jniLibs/arm64-v8a/libxray.so'',
     ''android/src/main/jniLibs/armeabi-v7a/libxray.so'',
     ''ios/Xray.xcframework/ios-arm64/libxray.a'',
     ''ios/Xray.xcframework/ios-arm64-simulator/libxray.a'']"

definition MODULES :: "(string \<times> jstring) list" where
  "MODULES = [(''xray'', XRAY_MODULE), (''olcrtc'', OLCRTC_MODULE)]"

definition OUT :: string where
  "OUT = ''src/generated/core-versions.ts''"

type_synonym by_version = "(jstring \<times> string list) list"
type_synonym seen = "(string \<times> by_version) list"

definition missing_entry :: "jstring \<Rightarrow> string \<Rightarrow> thrown" where
  "missing_entry mdl rel = ThrownError (js ''gen-core-versions: no build-info entry for '' @ mdl @ js '' in '' @ js rel
     @ js ''. Was this artifact built from go-core/, or is the Go build-info table stripped?'')"

definition disagreement :: "jstring \<Rightarrow> by_version \<Rightarrow> thrown" where
  "disagreement mdl byVersion =
     (let detail = join [LF] (map (\<lambda>(v, files). js ''  '' @ v @ [LF] @ join [LF] (map (\<lambda>f. js ''    '' @ js f) files)) byVersion)
      in ThrownError (js ''gen-core-versions: shipped artifacts disagree on '' @ mdl @ js '':'' @ [LF] @ detail @ [LF]
        @ js ''Rebuild both platforms (go-core/build_android.sh and go-core/build_ios.sh) so they match.''))"

definition record_version :: "string \<Rightarrow> jstring \<Rightarrow> string \<Rightarrow> seen \<Rightarrow> seen" where
  "record_version key version rel seen =
     (let perKey = coalesce (map_of seen key) [];
          files = coalesce (map_of perKey version) []
      in AList.update key (AList.update version (files @ [rel]) perKey) seen)"

fun scan_modules :: "jstring \<Rightarrow> string \<Rightarrow> (string \<times> jstring) list \<Rightarrow> seen \<Rightarrow> thrown + seen" where
  "scan_modules buf rel [] seen = Inr seen"
| "scan_modules buf rel ((key, mdl) # ms) seen = (case findDepVersion buf mdl of
     None \<Rightarrow> Inl (missing_entry mdl rel)
   | Some version \<Rightarrow> scan_modules buf rel ms (record_version key version rel seen))"

fun scan_artifacts :: "(string \<Rightarrow> thrown + jstring) \<Rightarrow> string list \<Rightarrow> seen \<Rightarrow> thrown + seen" where
  "scan_artifacts readFile [] seen = Inr seen"
| "scan_artifacts readFile (rel # rels) seen = (case readFile rel of Inl e \<Rightarrow> Inl e
   | Inr buf \<Rightarrow> (case scan_modules buf rel MODULES seen of Inl e \<Rightarrow> Inl e
       | Inr seen' \<Rightarrow> scan_artifacts readFile rels seen'))"

fun resolve_versions :: "seen \<Rightarrow> (string \<rightharpoonup> jstring) \<Rightarrow> thrown + (string \<rightharpoonup> jstring)" where
  "resolve_versions [] resolved = Inr resolved"
| "resolve_versions ((key, byVersion) # rest) resolved =
     (if length byVersion \<noteq> 1 then Inl (disagreement (the (map_of MODULES key)) byVersion)
      else resolve_versions rest (resolved(key \<mapsto> fst (hd byVersion))))"

definition versions_of :: "jstring \<Rightarrow> jstring \<Rightarrow> core_versions" where
  "versions_of xrayModule olcrtcModule = (let ident = pseudoVersionIdentity olcrtcModule in
     \<lparr>cv_xray = coalesce (xrayDisplayVersion xrayModule) xrayModule, cv_xrayModule = xrayModule,
       cv_olcrtc = pi_commit ident, cv_olcrtcModule = olcrtcModule, cv_olcrtcDate = pi_date ident\<rparr>)"

datatype action = MakeDirectory string | WriteFile string jstring | ConsoleLog jstring

definition script_actions :: "core_versions \<Rightarrow> action list" where
  "script_actions v = [MakeDirectory ''src/generated'', WriteFile OUT (core_versions_source v),
     ConsoleLog (js ''gen-core-versions: xray '' @ cv_xray v @ js '' ('' @ cv_xrayModule v @ js ''), olcrtc '' @ cv_olcrtc v
       @ js '' ('' @ cv_olcrtcDate v @ js '') '' @ [0x2014] @ js '' '' @ nat_digits (length ARTIFACTS) @ js '' artifacts agree'')]"

definition gen_script :: "(string \<Rightarrow> thrown + jstring) \<Rightarrow> thrown + action list" where
  "gen_script readFile = (case scan_artifacts readFile ARTIFACTS [] of Inl e \<Rightarrow> Inl e
     | Inr seen \<Rightarrow> (case resolve_versions seen Map.empty of Inl e \<Rightarrow> Inl e
         | Inr resolved \<Rightarrow> Inr (script_actions (versions_of (the (resolved ''xray'')) (the (resolved ''olcrtc''))))))"

subsection \<open>Files by version\<close>

text \<open>Values in the order of their first occurrence, and the files that have each.\<close>

definition first_seen :: "'a list \<Rightarrow> 'a list" where
  "first_seen xs = rev (remdups (rev xs))"

definition group_by :: "(string \<Rightarrow> jstring) \<Rightarrow> string list \<Rightarrow> by_version" where
  "group_by f rels = map (\<lambda>v. (v, filter (\<lambda>rel. f rel = v) rels)) (first_seen (map f rels))"

lemma first_seen_simps [simp]:
  "first_seen [] = []" "first_seen (xs @ [x]) = (if x \<in> set xs then first_seen xs else first_seen xs @ [x])"
  "set (first_seen xs) = set xs" "distinct (first_seen xs)"
  by (simp_all add: first_seen_def)

lemma length_first_seen: "length (first_seen xs) = card (set xs)"
  using distinct_card [of "first_seen xs"] by simp

lemma update_tabulated:
  "distinct vs \<Longrightarrow> AList.update v y (map (\<lambda>u. (u, g u)) vs)
     = (if v \<in> set vs then map (\<lambda>u. (u, if u = v then y else g u)) vs else map (\<lambda>u. (u, g u)) vs @ [(v, y)])"
  by (induction vs) auto

lemma map_of_tabulated: "map_of (map (\<lambda>u. (u, g u)) vs) v = (if v \<in> set vs then Some (g v) else None)"
  by (induction vs) auto

lemma group_by_snoc:
  "AList.update (f rel) (coalesce (map_of (group_by f rels) (f rel)) [] @ [rel]) (group_by f rels) = group_by f (rels @ [rel])"
  by (auto simp: group_by_def update_tabulated map_of_tabulated coalesce_def filter_empty_conv) (metis imageI)

definition seen_of :: "(jstring \<Rightarrow> string \<Rightarrow> jstring) \<Rightarrow> string list \<Rightarrow> seen" where
  "seen_of f rels = (if rels = [] then [] else map (\<lambda>(key, mdl). (key, group_by (f mdl) rels)) MODULES)"

text \<open>\<open>f\<close> says which version of a module an artifact carries.\<close>

definition carries :: "(string \<Rightarrow> thrown + jstring) \<Rightarrow> (jstring \<Rightarrow> string \<Rightarrow> jstring) \<Rightarrow> string \<Rightarrow> bool" where
  "carries readFile f rel \<longleftrightarrow> (\<exists>buf. readFile rel = Inr buf \<and> (\<forall>(key, mdl) \<in> set MODULES. findDepVersion buf mdl = Some (f mdl rel)))"

lemma scan_one:
  assumes "\<forall>(key, mdl) \<in> set MODULES. findDepVersion buf mdl = Some (f mdl rel)"
  shows "scan_modules buf rel MODULES (seen_of f rels) = Inr (seen_of f (rels @ [rel]))"
proof -
  have g: "AList.update (f mdl rel) [rel] [] = group_by (f mdl) [rel]" for mdl
    using group_by_snoc [of "f mdl" rel "[]"] by (simp add: group_by_def coalesce_def)
  show ?thesis
    using assms g by (cases "rels = []")
      (simp_all add: MODULES_def seen_of_def record_version_def coalesce_def Let_def flip: group_by_snoc)
qed

lemma scan_all:
  "\<forall>rel \<in> set rels. carries readFile f rel \<Longrightarrow> scan_artifacts readFile rels (seen_of f rels0) = Inr (seen_of f (rels0 @ rels))"
proof (induction rels arbitrary: rels0)
  case (Cons rel rels)
  then obtain buf where buf: "readFile rel = Inr buf" "\<forall>(key, mdl) \<in> set MODULES. findDepVersion buf mdl = Some (f mdl rel)"
    unfolding carries_def by auto
  with Cons.IH [of "rels0 @ [rel]"] Cons.prems show ?case by (simp add: scan_one)
qed simp

lemma scan_modules_found:
  "scan_modules buf rel ms seen = Inr seen' \<Longrightarrow> \<forall>(key, mdl) \<in> set ms. findDepVersion buf mdl \<noteq> None"
  by (induction buf rel ms seen rule: scan_modules.induct) (auto split: option.splits)

lemma scan_carries:
  "scan_artifacts readFile rels seen = Inr seen' \<Longrightarrow>
   \<forall>rel \<in> set rels. carries readFile (\<lambda>mdl rel. the (findDepVersion (projr (readFile rel)) mdl)) rel"
proof (induction rels arbitrary: seen)
  case (Cons rel rels)
  then obtain buf seen1 where b: "readFile rel = Inr buf" "scan_modules buf rel MODULES seen = Inr seen1"
    "scan_artifacts readFile rels seen1 = Inr seen'" by (auto split: sum.splits)
  have "carries readFile (\<lambda>mdl rel. the (findDepVersion (projr (readFile rel)) mdl)) rel"
    using scan_modules_found [OF b(2)] b(1) by (auto simp: carries_def)
  with Cons.IH [OF b(3)] show ?case by simp
qed simp

lemma group_by_single: "rels \<noteq> [] \<Longrightarrow> length (group_by f rels) = 1 \<longleftrightarrow> (\<exists>v. \<forall>rel \<in> set rels. f rel = v)"
proof -
  assume ne: "rels \<noteq> []"
  have "length (group_by f rels) = card (f ` set rels)" by (simp add: group_by_def length_first_seen)
  then have "length (group_by f rels) = 1 \<longleftrightarrow> (\<exists>v. f ` set rels = {v})" by (simp add: card_1_singleton_iff)
  also have "\<dots> \<longleftrightarrow> (\<exists>v. \<forall>rel \<in> set rels. f rel = v)" proof
    assume "\<exists>v. \<forall>rel \<in> set rels. f rel = v"
    moreover from ne have "set rels \<noteq> {}" by simp
    ultimately show "\<exists>v. f ` set rels = {v}" by (metis image_constant_conv image_cong)
  qed blast
  finally show ?thesis .
qed

lemma group_by_hd: "rels \<noteq> [] \<Longrightarrow> \<forall>rel \<in> set rels. f rel = v \<Longrightarrow> group_by f rels = [(v, rels)]"
proof (induction rels rule: rev_induct)
  case (snoc rel rels)
  then show ?case
    by (cases "rels = []") (auto simp: group_by_def first_seen_def neq_Nil_conv)
qed simp

lemma resolve_seen:
  assumes "rels \<noteq> []"
  shows "resolve_versions (seen_of f rels) Map.empty =
    (if \<not> (\<exists>v. \<forall>rel \<in> set rels. f XRAY_MODULE rel = v) then Inl (disagreement XRAY_MODULE (group_by (f XRAY_MODULE) rels))
     else if \<not> (\<exists>v. \<forall>rel \<in> set rels. f OLCRTC_MODULE rel = v) then Inl (disagreement OLCRTC_MODULE (group_by (f OLCRTC_MODULE) rels))
     else Inr [''xray'' \<mapsto> f XRAY_MODULE (hd rels), ''olcrtc'' \<mapsto> f OLCRTC_MODULE (hd rels)])"
proof -
  have h: "fst (hd (group_by g rels)) = g (hd rels)" if "\<exists>v. \<forall>rel \<in> set rels. g rel = v" for g
  proof -
    from that obtain v where v: "\<forall>rel \<in> set rels. g rel = v" ..
    with group_by_hd [OF assms v] assms show ?thesis by simp
  qed
  show ?thesis
    using assms group_by_single [OF assms] h by (auto simp: seen_of_def MODULES_def)
qed

subsection \<open>What the script does\<close>

text \<open>When the artifacts disagree the error names each version with the artifacts that carry it, in the order of
  the list.\<close>

lemma gen_script_disagrees:
  assumes "\<forall>rel \<in> set ARTIFACTS. carries readFile f rel" "rel \<in> set ARTIFACTS" "rel' \<in> set ARTIFACTS"
    and "f XRAY_MODULE rel \<noteq> f XRAY_MODULE rel'"
  shows "gen_script readFile = Inl (disagreement XRAY_MODULE (group_by (f XRAY_MODULE) ARTIFACTS))"
proof -
  have "scan_artifacts readFile ARTIFACTS [] = Inr (seen_of f ARTIFACTS)"
    using scan_all [OF assms(1), of "[]"] by (simp add: seen_of_def)
  moreover have "ARTIFACTS \<noteq> []" by (simp add: ARTIFACTS_def)
  moreover have "\<not> (\<exists>v. \<forall>r \<in> set ARTIFACTS. f XRAY_MODULE r = v)" using assms(2-4) by metis
  ultimately show ?thesis by (simp add: gen_script_def resolve_seen)
qed

lemma gen_script_Inr:
  "gen_script readFile = Inr acts \<longleftrightarrow> (\<exists>x ol. (\<forall>rel \<in> set ARTIFACTS. \<exists>buf. readFile rel = Inr buf
       \<and> findDepVersion buf XRAY_MODULE = Some x \<and> findDepVersion buf OLCRTC_MODULE = Some ol)
     \<and> acts = script_actions (versions_of x ol))"
proof
  assume g: "gen_script readFile = Inr acts"
  define f where "f mdl rel = the (findDepVersion (projr (readFile rel)) mdl)" for mdl rel
  obtain seen where "scan_artifacts readFile ARTIFACTS [] = Inr seen" using g by (auto simp: gen_script_def split: sum.splits)
  then have c: "\<forall>rel \<in> set ARTIFACTS. carries readFile f rel" using scan_carries unfolding f_def by blast
  then have s: "scan_artifacts readFile ARTIFACTS [] = Inr (seen_of f ARTIFACTS)"
    using scan_all [OF c, of "[]"] by (simp add: seen_of_def)
  have ne: "ARTIFACTS \<noteq> []" by (simp add: ARTIFACTS_def)
  from g obtain x ol where v: "\<forall>rel \<in> set ARTIFACTS. f XRAY_MODULE rel = x" "\<forall>rel \<in> set ARTIFACTS. f OLCRTC_MODULE rel = ol"
    by (auto simp: gen_script_def s resolve_seen [OF ne] split: if_splits)
  have "acts = script_actions (versions_of (f XRAY_MODULE (hd ARTIFACTS)) (f OLCRTC_MODULE (hd ARTIFACTS)))"
    using g v by (auto simp: gen_script_def s resolve_seen [OF ne] split: if_splits)
  moreover have "hd ARTIFACTS \<in> set ARTIFACTS" using ne by (rule hd_in_set)
  ultimately have "acts = script_actions (versions_of x ol)" using v by simp
  with c v show "\<exists>x ol. (\<forall>rel \<in> set ARTIFACTS. \<exists>buf. readFile rel = Inr buf
       \<and> findDepVersion buf XRAY_MODULE = Some x \<and> findDepVersion buf OLCRTC_MODULE = Some ol)
     \<and> acts = script_actions (versions_of x ol)"
    by (intro exI [of _ x] exI [of _ ol]) (fastforce simp: carries_def MODULES_def)
next
  assume "\<exists>x ol. (\<forall>rel \<in> set ARTIFACTS. \<exists>buf. readFile rel = Inr buf
       \<and> findDepVersion buf XRAY_MODULE = Some x \<and> findDepVersion buf OLCRTC_MODULE = Some ol)
     \<and> acts = script_actions (versions_of x ol)"
  then obtain x ol where a: "\<forall>rel \<in> set ARTIFACTS. \<exists>buf. readFile rel = Inr buf
       \<and> findDepVersion buf XRAY_MODULE = Some x \<and> findDepVersion buf OLCRTC_MODULE = Some ol"
    "acts = script_actions (versions_of x ol)" by blast
  define f where "f mdl rel = (if mdl = XRAY_MODULE then x else ol)" for mdl :: jstring and rel :: string
  have ne: "ARTIFACTS \<noteq> []" "XRAY_MODULE \<noteq> OLCRTC_MODULE" by (simp_all add: ARTIFACTS_def XRAY_MODULE_def OLCRTC_MODULE_def)
  have "\<forall>rel \<in> set ARTIFACTS. carries readFile f rel"
    using a(1) ne(2) by (fastforce simp: carries_def MODULES_def f_def)
  from scan_all [OF this, of "[]"] have "scan_artifacts readFile ARTIFACTS [] = Inr (seen_of f ARTIFACTS)"
    by (simp add: seen_of_def)
  then show "gen_script readFile = Inr acts"
    using ne(2) by (simp add: gen_script_def resolve_seen [OF ne(1)] f_def a(2))
qed

text \<open>It agrees with the pure generator on the contents of the artifacts.\<close>

lemma gen_script_generates:
  assumes "map readFile ARTIFACTS = map Inr bufs"
  shows "gen_script readFile = Inr acts \<longleftrightarrow> (\<exists>v. gen_core_versions bufs = Inr v \<and> acts = script_actions v)"
proof -
  have s: "Inr ` set bufs = readFile ` set ARTIFACTS" using assms by (metis set_map)
  have ne: "bufs \<noteq> []" using assms by (auto simp: ARTIFACTS_def)
  have all: "(\<forall>rel \<in> set ARTIFACTS. \<exists>buf. readFile rel = Inr buf \<and> P buf) \<longleftrightarrow> (\<forall>buf \<in> set bufs. P buf)" for P
  proof -
    have "(\<forall>rel \<in> set ARTIFACTS. \<exists>buf. readFile rel = Inr buf \<and> P buf) \<longleftrightarrow> (\<forall>y \<in> readFile ` set ARTIFACTS. \<exists>buf. y = Inr buf \<and> P buf)"
      by simp
    also have "\<dots> \<longleftrightarrow> (\<forall>buf \<in> set bufs. P buf)" unfolding s [symmetric] by simp
    finally show ?thesis .
  qed
  have g: "gen_core_versions bufs = Inr v \<longleftrightarrow> (\<exists>x ol. (\<forall>buf \<in> set bufs. findDepVersion buf XRAY_MODULE = Some x
      \<and> findDepVersion buf OLCRTC_MODULE = Some ol) \<and> v = versions_of x ol)" for v
    using ne by (cases v) (auto simp: gen_core_versions_Inr versions_of_def list_all_iff Let_def)
  then show ?thesis unfolding gen_script_Inr all g by blast
qed

text \<open>
  C40: the script writes the file exactly when all four artifacts can be read and carry one and the same
  version of both modules, and then it writes the text of these versions and nothing else; in every
  other case it throws before it has touched the file system.
\<close>

theorem gen_script_writes:
  "gen_script readFile = Inr acts \<longleftrightarrow> (\<exists>x ol. (\<forall>rel \<in> set ARTIFACTS. \<exists>buf. readFile rel = Inr buf
       \<and> findDepVersion buf XRAY_MODULE = Some x \<and> findDepVersion buf OLCRTC_MODULE = Some ol)
     \<and> acts = script_actions (versions_of x ol))"
  by (rule gen_script_Inr)

lemma gen_script_writes_witness:
  "\<exists>acts. gen_script (\<lambda>_. Inr sample_artifact) = Inr acts \<and> WriteFile OUT committed_source \<in> set acts"
proof -
  have "versions_of (cv_xrayModule CORE_VERSIONS) (cv_olcrtcModule CORE_VERSIONS) = CORE_VERSIONS"
    using core_versions_consistent by (simp add: versions_of_def Let_def)
  then have "WriteFile OUT committed_source
      \<in> set (script_actions (versions_of (cv_xrayModule CORE_VERSIONS) (cv_olcrtcModule CORE_VERSIONS)))"
    by (simp add: script_actions_def committed_is_source)
  then show ?thesis
    using gen_script_writes [of "\<lambda>_. Inr sample_artifact"] by (simp add: sample_artifact_versions) blast
qed

end
