(* ===== verification/Handlers.thy ===== *)
theory Handlers
  imports XrayErrors "HOL-Library.Multiset"
begin

section \<open>Asynchronous handlers\<close>

text \<open>
  An \<open>async\<close> function of the application as a resumption: what it does to the state, one step after
  the other, until it ends, throws, or waits for a promise.  \<open>SetState\<close> is a React state setter (with
  its updater function), \<open>Read\<close> reads a ref, \<open>Ask\<close> is a synchronous call and \<open>Await\<close> an awaited one,
  each with the continuation of its answer; \<open>Fork\<close> starts a promise or a timer that nobody awaits and
  goes on.  One definition of a handler thus serves both the interleaved semantics of this theory and
  a run against a model of what answers the requests.
\<close>

datatype ('s, 'r, 'a) prog =
    Done
  | Throw thrown
  | SetState "'s \<Rightarrow> 's" "('s, 'r, 'a) prog"
  | Read "'s \<Rightarrow> ('s, 'r, 'a) prog"
  | Ask 'r "thrown + 'a \<Rightarrow> ('s, 'r, 'a) prog"
  | Await 'r "thrown + 'a \<Rightarrow> ('s, 'r, 'a) prog"
  | Fork "('s, 'r, 'a) prog" "('s, 'r, 'a) prog"

subsection \<open>Sequencing, \<open>try\<close> and \<open>finally\<close>\<close>

primrec seq :: "('s, 'r, 'a) prog \<Rightarrow> ('s, 'r, 'a) prog \<Rightarrow> ('s, 'r, 'a) prog" where
  "seq Done q = q"
| "seq (Throw e) q = Throw e"
| "seq (SetState f p) q = SetState f (seq p q)"
| "seq (Read k) q = Read (\<lambda>s. seq (k s) q)"
| "seq (Ask r k) q = Ask r (\<lambda>x. seq (k x) q)"
| "seq (Await r k) q = Await r (\<lambda>x. seq (k x) q)"
| "seq (Fork b p) q = Fork b (seq p q)"

primrec try_catch :: "('s, 'r, 'a) prog \<Rightarrow> (thrown \<Rightarrow> ('s, 'r, 'a) prog) \<Rightarrow> ('s, 'r, 'a) prog" where
  "try_catch Done h = Done"
| "try_catch (Throw e) h = h e"
| "try_catch (SetState f p) h = SetState f (try_catch p h)"
| "try_catch (Read k) h = Read (\<lambda>s. try_catch (k s) h)"
| "try_catch (Ask r k) h = Ask r (\<lambda>x. try_catch (k x) h)"
| "try_catch (Await r k) h = Await r (\<lambda>x. try_catch (k x) h)"
| "try_catch (Fork b p) h = Fork b (try_catch p h)"

primrec finally_do :: "('s, 'r, 'a) prog \<Rightarrow> ('s, 'r, 'a) prog \<Rightarrow> ('s, 'r, 'a) prog" where
  "finally_do Done q = q"
| "finally_do (Throw e) q = seq q (Throw e)"
| "finally_do (SetState f p) q = SetState f (finally_do p q)"
| "finally_do (Read k) q = Read (\<lambda>s. finally_do (k s) q)"
| "finally_do (Ask r k) q = Ask r (\<lambda>x. finally_do (k x) q)"
| "finally_do (Await r k) q = Await r (\<lambda>x. finally_do (k x) q)"
| "finally_do (Fork b p) q = Fork b (finally_do p q)"

text \<open>\<open>await r\<close> and a synchronous call: a rejection is thrown at the place of the call.\<close>

definition or_throw :: "('a \<Rightarrow> ('s, 'r, 'a) prog) \<Rightarrow> thrown + 'a \<Rightarrow> ('s, 'r, 'a) prog" where
  "or_throw k x = (case x of Inl e \<Rightarrow> Throw e | Inr a \<Rightarrow> k a)"

abbreviation awaiting :: "'r \<Rightarrow> ('a \<Rightarrow> ('s, 'r, 'a) prog) \<Rightarrow> ('s, 'r, 'a) prog" where
  "awaiting r k \<equiv> Await r (or_throw k)"

abbreviation asking :: "'r \<Rightarrow> ('a \<Rightarrow> ('s, 'r, 'a) prog) \<Rightarrow> ('s, 'r, 'a) prog" where
  "asking r k \<equiv> Ask r (or_throw k)"

definition only_if :: "bool \<Rightarrow> ('s, 'r, 'a) prog \<Rightarrow> ('s, 'r, 'a) prog" where
  "only_if c p = (if c then p else Done)"

named_theorems prog_simps

lemma or_throw_simps [simp, prog_simps]: "or_throw k (Inr a) = k a" "or_throw k (Inl e) = Throw e"
  by (simp_all add: or_throw_def)

lemma only_if_simps [simp, prog_simps]: "only_if True p = p" "only_if False p = Done"
  by (simp_all add: only_if_def)

subsection \<open>Running up to the next \<open>await\<close>\<close>

text \<open>
  What a handler does in one go: the new state, the continuation that waits if it does, and the
  detached ones.  The rest of the program is a state of its own; \<open>ask\<close> answers the synchronous calls
  and may change it.  A value that is thrown to the top ends the handler.
\<close>

type_synonym ('c, 'r, 'a) server_of_calls = "'r \<Rightarrow> 'c \<Rightarrow> (thrown + 'a) \<times> 'c"

primrec run_on :: "('c, 'r, 'a) server_of_calls \<Rightarrow> ('s, 'r, 'a) prog \<Rightarrow> 's \<times> 'c \<Rightarrow>
    ('s \<times> 'c) \<times> ('s, 'r, 'a) prog option \<times> ('s, 'r, 'a) prog list" where
  "run_on ask Done sc = (sc, None, [])"
| "run_on ask (Throw e) sc = (sc, None, [])"
| "run_on ask (SetState f p) sc = run_on ask p (f (fst sc), snd sc)"
| "run_on ask (Read k) sc = run_on ask (k (fst sc)) sc"
| "run_on ask (Ask r k) sc = run_on ask (k (fst (ask r (snd sc)))) (fst sc, snd (ask r (snd sc)))"
| "run_on ask (Await r k) sc = (sc, Some (Await r k), [])"
| "run_on ask (Fork b p) sc = (case run_on ask b sc of (sc1, m1, d1) \<Rightarrow>
     (case run_on ask p sc1 of (sc2, m2, d2) \<Rightarrow> (sc2, m2, (case m1 of None \<Rightarrow> [] | Some w \<Rightarrow> [w]) @ d1 @ d2)))"

subsection \<open>The pool of handlers\<close>

text \<open>
  \<open>current\<close> is the state with every update applied, \<open>visible\<close> the one of the last rendering, which the
  handlers of the screen close over; \<open>outer\<close> is the rest of the program; \<open>waiting\<close> has the
  continuations in flight, with the handler they belong to, or none for a detached one.
\<close>

record ('s, 'c, 'r, 'a, 'l) world =
  current :: 's
  visible :: 's
  outer :: 'c
  waiting :: "('l option \<times> ('s, 'r, 'a) prog) list"

definition owned :: "'l option \<Rightarrow> ('s, 'r, 'a) prog option \<Rightarrow> ('l option \<times> ('s, 'r, 'a) prog) list" where
  "owned l m = (case m of None \<Rightarrow> [] | Some w \<Rightarrow> [(l, w)])"

definition spawn :: "('c, 'r, 'a) server_of_calls \<Rightarrow> 'l option \<Rightarrow> ('s, 'r, 'a) prog \<Rightarrow>
    ('s, 'c, 'r, 'a, 'l, 'z) world_scheme \<Rightarrow> ('s, 'c, 'r, 'a, 'l, 'z) world_scheme" where
  "spawn ask l p w = (case run_on ask p (current w, outer w) of ((s, c), m, ds) \<Rightarrow>
     w\<lparr>current := s, outer := c, waiting := waiting w @ owned l m @ map (Pair None) ds\<rparr>)"

text \<open>The promise that continuation \<open>i\<close> awaits is settled with \<open>x\<close>.\<close>

definition resume :: "('c, 'r, 'a) server_of_calls \<Rightarrow> nat \<Rightarrow> thrown + 'a \<Rightarrow>
    ('s, 'c, 'r, 'a, 'l, 'z) world_scheme \<Rightarrow> ('s, 'c, 'r, 'a, 'l, 'z) world_scheme" where
  "resume ask i x w = (case waiting w ! i of (l, p) \<Rightarrow> (case p of
     Await r k \<Rightarrow> (case run_on ask (k x) (current w, outer w) of ((s, c), m, ds) \<Rightarrow>
       w\<lparr>current := s, outer := c, waiting := take i (waiting w) @ owned l m @ drop (Suc i) (waiting w) @ map (Pair None) ds\<rparr>)
   | _ \<Rightarrow> w))"

subsection \<open>Handlers that keep a property of the state\<close>

text \<open>Every update of the handler keeps \<open>P\<close>, whatever is answered to it.\<close>

primrec steady :: "('s \<Rightarrow> bool) \<Rightarrow> ('s, 'r, 'a) prog \<Rightarrow> bool" where
  "steady P Done = True"
| "steady P (Throw e) = True"
| "steady P (SetState f p) = ((\<forall>s. P s \<longrightarrow> P (f s)) \<and> steady P p)"
| "steady P (Read k) = (\<forall>s. steady P (k s))"
| "steady P (Ask r k) = (\<forall>x. steady P (k x))"
| "steady P (Await r k) = (\<forall>x. steady P (k x))"
| "steady P (Fork b p) = (steady P b \<and> steady P p)"

lemma steady_or_throw [simp]: "steady P (or_throw k x) = (\<forall>a. x = Inr a \<longrightarrow> steady P (k a))"
  by (cases x) simp_all

lemma steady_seq: "steady P p \<Longrightarrow> steady P q \<Longrightarrow> steady P (seq p q)"
  by (induction p) auto

lemma steady_try_catch: "steady P p \<Longrightarrow> (\<And>e. steady P (h e)) \<Longrightarrow> steady P (try_catch p h)"
  by (induction p) auto

lemma steady_finally_do: "steady P p \<Longrightarrow> steady P q \<Longrightarrow> steady P (finally_do p q)"
  by (induction p) (auto intro: steady_seq)

lemma steady_only_if [simp]: "steady P (only_if c p) = (c \<longrightarrow> steady P p)"
  by (cases c) simp_all

lemmas steady_combine = steady_seq steady_try_catch steady_finally_do

text \<open>A part of the state that no update touches.\<close>

definition frames :: "('s \<Rightarrow> 'b) \<Rightarrow> ('s, 'r, 'a) prog \<Rightarrow> bool" where
  "frames g p \<longleftrightarrow> (\<forall>v. steady (\<lambda>s. g s = v) p)"

lemma frames_simps [simp]:
  "frames g Done" "frames g (Throw e)" "frames g (SetState f p) = ((\<forall>s. g (f s) = g s) \<and> frames g p)"
  "frames g (Read k) = (\<forall>s. frames g (k s))" "frames g (Ask r k') = (\<forall>x. frames g (k' x))"
  "frames g (Await r k') = (\<forall>x. frames g (k' x))" "frames g (Fork b p) = (frames g b \<and> frames g p)"
  "frames g (or_throw k'' x) = (\<forall>a. x = Inr a \<longrightarrow> frames g (k'' a))"
  "frames g (only_if c p) = (c \<longrightarrow> frames g p)"
  by (auto simp: frames_def split: sum.splits)

lemma frames_combine:
  "frames g p \<Longrightarrow> frames g q \<Longrightarrow> frames g (seq p q)"
  "frames g p \<Longrightarrow> (\<And>e. frames g (h e)) \<Longrightarrow> frames g (try_catch p h)"
  "frames g p \<Longrightarrow> frames g q \<Longrightarrow> frames g (finally_do p q)"
  by (auto simp: frames_def intro: steady_combine)

text \<open>The two halves of a fork.\<close>

lemma run_Fork:
  assumes "run_on ask (Fork b p) s = (s', m, ds)"
  obtains s1 m1 d1 d2 where "run_on ask b s = (s1, m1, d1)" "run_on ask p s1 = (s', m, d2)"
    "set ds = set_option m1 \<union> set d1 \<union> set d2"
proof (cases "run_on ask b s" rule: prod_cases3)
  case b: (fields s1 m1 d1)
  show thesis
  proof (cases "run_on ask p s1" rule: prod_cases3)
    case p: (fields s2 m2 d2)
    have eq: "(s2, m2, (case m1 of None \<Rightarrow> [] | Some w \<Rightarrow> [w]) @ d1 @ d2) = (s', m, ds)"
      using assms unfolding run_on.simps b p prod.case .
    then have "run_on ask p s1 = (s', m, d2)" using p by blast
    moreover have "set ds = set_option m1 \<union> set d1 \<union> set d2" using eq by (cases m1) auto
    ultimately show thesis by (rule that [OF b])
  qed
qed

definition frames_all :: "('s \<Rightarrow> 'b) \<Rightarrow> ('s, 'r, 'a) prog set \<Rightarrow> bool" where
  "frames_all g ps \<longleftrightarrow> (\<forall>p \<in> ps. frames g p)"

lemma frames_all_simps [simp]: "frames_all g {}" "frames_all g (insert p ps) = (frames g p \<and> frames_all g ps)"
  "frames_all g (ps \<union> qs) = (frames_all g ps \<and> frames_all g qs)"
  by (auto simp: frames_all_def)

lemma steady_run:
  "steady P p \<Longrightarrow> run_on ask p s = (s', m, ds) \<Longrightarrow>
   (P (fst s) \<longrightarrow> P (fst s')) \<and> (\<forall>q \<in> set_option m \<union> set ds. steady P q)"
proof (induction p arbitrary: s s' m ds)
  case (Fork b p)
  from Fork.prems(2) obtain s1 m1 d1 d2 where r: "run_on ask b s = (s1, m1, d1)" "run_on ask p s1 = (s', m, d2)"
    "set ds = set_option m1 \<union> set d1 \<union> set d2" by (rule run_Fork)
  have p: "steady P b" "steady P p" using Fork.prems(1) by simp_all
  note a = Fork.IH(1) [OF p(1) r(1)] and b = Fork.IH(2) [OF p(2) r(2)]
  show ?case unfolding r(3) using a b by (simp add: ball_Un)
next
  case (SetState f p)
  from SetState.IH [of "(f (fst s), snd s)" s' m ds] SetState.prems show ?case by simp
next
  case (Read k)
  from Read.IH [of "k (fst s)" s s' m ds] Read.prems show ?case by simp
next
  case (Ask r k)
  from Ask.IH [of "k (fst (ask r (snd s)))" "(fst s, snd (ask r (snd s)))" s' m ds] Ask.prems show ?case by simp
qed auto

lemma frames_run:
  assumes "frames g p" "run_on ask p s = (s', m, ds)"
  shows "g (fst s') = g (fst s) \<and> frames_all g (set_option m) \<and> frames_all g (set ds)"
proof -
  have st: "(g (fst s) = v \<longrightarrow> g (fst s') = v) \<and> (\<forall>q \<in> set_option m \<union> set ds. steady (\<lambda>s. g s = v) q)" for v
  proof -
    have "steady (\<lambda>s. g s = v) p" using assms(1) unfolding frames_def by (rule spec)
    from steady_run [OF this assms(2)] show ?thesis .
  qed
  have "g (fst s') = g (fst s)" using st [of "g (fst s)"] by simp
  moreover have "frames g q" if "q \<in> set_option m \<union> set ds" for q
    unfolding frames_def using st that by blast
  ultimately show ?thesis unfolding frames_all_def by blast
qed

text \<open>The same for a whole pool.\<close>

definition pool_steady :: "('s \<Rightarrow> bool) \<Rightarrow> ('s, 'c, 'r, 'a, 'l, 'z) world_scheme \<Rightarrow> bool" where
  "pool_steady P w \<longleftrightarrow> P (current w) \<and> (\<forall>x \<in> set (waiting w). steady P (snd x))"

lemma pool_steady_spawn:
  assumes "pool_steady P w" "steady P p"
  shows "pool_steady P (spawn ask l p w)"
proof -
  obtain s c m ds where run: "run_on ask p (current w, outer w) = ((s, c), m, ds)" by (metis prod.exhaust)
  from steady_run [OF assms(2) run] assms(1) show ?thesis
    by (auto simp: pool_steady_def spawn_def run owned_def split: option.splits)
qed

lemma pool_steady_resume:
  assumes "pool_steady P w" "i < length (waiting w)"
  shows "pool_steady P (resume ask i x w)"
proof (cases "\<exists>l r k. waiting w ! i = (l, Await r k)")
  case True
  then obtain l r k where w: "waiting w ! i = (l, Await r k)" by blast
  obtain s c m ds where run: "run_on ask (k x) (current w, outer w) = ((s, c), m, ds)" by (metis prod.exhaust)
  have "steady P (snd (waiting w ! i))" using assms nth_mem unfolding pool_steady_def by blast
  then have "steady P (k x)" by (simp add: w)
  from steady_run [OF this run] assms(1) show ?thesis
    by (auto simp: pool_steady_def resume_def w run owned_def split: option.splits dest: in_set_takeD in_set_dropD)
next
  case False
  then have "resume ask i x w = w" by (auto simp: resume_def split: prod.splits prog.splits)
  with assms show ?thesis by simp
qed

subsection \<open>Termination\<close>

text \<open>Each answered request leaves less of a handler to be done.\<close>

inductive part :: "('s, 'r, 'a) prog \<Rightarrow> ('s, 'r, 'a) prog \<Rightarrow> bool" where
  "part p (SetState f p)"
| "part (k s) (Read k)"
| "part (k x) (Ask r k)"
| "part (k x) (Await r k)"
| "part b (Fork b p)"
| "part p (Fork b p)"

inductive_cases partE [elim!]: "part q Done" "part q (Throw e)" "part q (SetState f p)" "part q (Read k)"
  "part q (Ask r k)" "part q (Await r k)" "part q (Fork b p)"

lemma wfp_part: "wfP (part :: ('s, 'r, 'a) prog \<Rightarrow> ('s, 'r, 'a) prog \<Rightarrow> bool)"
proof (rule wfpUNIVI)
  fix P and p :: "('s, 'r, 'a) prog"
  assume H: "\<forall>x :: ('s, 'r, 'a) prog. (\<forall>y. part y x \<longrightarrow> P y) \<longrightarrow> P x"
  show "P p" by (induction p) (rule H [rule_format], blast)+
qed

lemma run_parts:
  "run_on ask p s = (s', m, ds) \<Longrightarrow> w \<in> set_option m \<union> set ds \<Longrightarrow> part\<^sup>*\<^sup>* w p"
proof (induction p arbitrary: s s' m ds)
  case (SetState f p)
  then have "part\<^sup>*\<^sup>* w p" by (metis run_on.simps(3))
  then show ?case using part.intros(1) by (rule rtranclp.rtrancl_into_rtrancl)
next
  case (Read k)
  then have "part\<^sup>*\<^sup>* w (k (fst s))" by (metis rangeI run_on.simps(4))
  then show ?case using part.intros(2) by (rule rtranclp.rtrancl_into_rtrancl)
next
  case (Ask r k)
  then have "part\<^sup>*\<^sup>* w (k (fst (ask r (snd s))))" by (metis rangeI run_on.simps(5))
  then show ?case using part.intros(3) by (rule rtranclp.rtrancl_into_rtrancl)
next
  case (Fork b p)
  from Fork.prems(1) obtain s1 m1 d1 d2 where r: "run_on ask b s = (s1, m1, d1)" "run_on ask p s1 = (s', m, d2)"
    "set ds = set_option m1 \<union> set d1 \<union> set d2" by (rule run_Fork)
  with Fork.prems(2) consider "w \<in> set_option m1 \<union> set d1" | "w \<in> set_option m \<union> set d2" by blast
  then show ?case
  proof cases
    case 1
    then have "part\<^sup>*\<^sup>* w b" by (rule Fork.IH(1) [OF r(1)])
    then show ?thesis using part.intros(5) by (rule rtranclp.rtrancl_into_rtrancl)
  next
    case 2
    then have "part\<^sup>*\<^sup>* w p" by (rule Fork.IH(2) [OF r(2)])
    then show ?thesis using part.intros(6) by (rule rtranclp.rtrancl_into_rtrancl)
  qed
qed auto

definition left_to_do :: "('s, 'c, 'r, 'a, 'l, 'z) world_scheme \<Rightarrow> ('s, 'r, 'a) prog multiset" where
  "left_to_do w = mset (map snd (waiting w))"

definition less_to_do :: "(('s, 'r, 'a) prog multiset \<times> ('s, 'r, 'a) prog multiset) set" where
  "less_to_do = mult {(q, p). part\<^sup>+\<^sup>+ q p}"

lemma wf_less_to_do: "wf less_to_do"
  unfolding less_to_do_def using wfp_tranclp [OF wfp_part] by (intro wf_mult) (simp add: wfp_def)

lemma resume_less:
  assumes "i < length (waiting w)" "snd (waiting w ! i) = Await r k"
  shows "(left_to_do (resume ask i x w), left_to_do w) \<in> less_to_do"
proof -
  obtain l where i: "waiting w ! i = (l, Await r k)" using assms(2) by (cases "waiting w ! i") simp
  obtain s c m ds where run: "run_on ask (k x) (current w, outer w) = ((s, c), m, ds)" by (metis prod.exhaust)
  let ?I = "mset (map snd (take i (waiting w))) + mset (map snd (drop (Suc i) (waiting w)))"
  let ?K = "mset (map snd (owned l m)) + mset ds"
  have w: "left_to_do w = ?I + {#Await r k#}"
    using arg_cong [OF id_take_nth_drop [OF assms(1)], of "\<lambda>ws. mset (map snd ws)"] by (simp add: left_to_do_def i)
  have res: "left_to_do (resume ask i x w) = ?I + ?K"
    by (simp add: left_to_do_def resume_def i run o_def)
  have "part\<^sup>+\<^sup>+ q (Await r k)" if "q \<in># ?K" for q
  proof -
    have "q \<in> set_option m \<union> set ds" using that by (auto simp: owned_def split: option.splits)
    then have "part\<^sup>*\<^sup>* q (k x)" by (rule run_parts [OF run])
    then show ?thesis using part.intros(4) [of k x r] by (rule rtranclp_into_tranclp1)
  qed
  then show ?thesis
    unfolding w res less_to_do_def by (intro one_step_implies_mult) auto
qed

subsection \<open>A handler that guards itself with a flag\<close>

text \<open>
  The pattern of the handlers that refuse to run twice: return when the flag of the rendered screen is
  set, else set it, do the work, and clear it in a \<open>finally\<close>.  \<open>guard_ok\<close> is the invariant of the pool
  for one such handler.
\<close>

definition releasing :: "('s \<Rightarrow> bool) \<Rightarrow> ('s \<Rightarrow> 's) \<Rightarrow> ('s, 'r, 'a) prog \<Rightarrow> bool" where
  "releasing flag release p \<longleftrightarrow> (\<exists>body. p = finally_do body (SetState release Done) \<and> frames flag body)"

definition member_ok :: "('s \<Rightarrow> bool) \<Rightarrow> ('s \<Rightarrow> 's) \<Rightarrow> 'l \<Rightarrow> 'l option \<times> ('s, 'r, 'a) prog \<Rightarrow> bool" where
  "member_ok flag release me x = (if fst x = Some me then releasing flag release (snd x) else frames flag (snd x))"

lemma member_ok_pair [simp]:
  "member_ok flag release me (l, p) = (if l = Some me then releasing flag release p else frames flag p)"
  by (simp add: member_ok_def)

definition in_flight :: "'l \<Rightarrow> ('s, 'c, 'r, 'a, 'l, 'z) world_scheme \<Rightarrow> nat" where
  "in_flight me w = length (filter (\<lambda>x. fst x = Some me) (waiting w))"

definition guard_ok :: "('s \<Rightarrow> bool) \<Rightarrow> ('s \<Rightarrow> 's) \<Rightarrow> 'l \<Rightarrow> ('s, 'c, 'r, 'a, 'l, 'z) world_scheme \<Rightarrow> bool" where
  "guard_ok flag release me w \<longleftrightarrow> in_flight me w = (if flag (current w) then 1 else 0)
     \<and> (flag (current w) \<longrightarrow> flag (visible w))
     \<and> (\<forall>x \<in> set (waiting w). member_ok flag release me x)"

locale guarded_handler =
  fixes flag :: "'s \<Rightarrow> bool" and acquire release :: "'s \<Rightarrow> 's" and me :: 'l
  assumes acquired: "flag (acquire s)"
    and released: "\<not> flag (release s)"
begin

lemma releasing_run:
  "frames flag body \<Longrightarrow> run_on ask (finally_do body (SetState release Done)) s = (s', m, ds) \<Longrightarrow>
   (case m of None \<Rightarrow> \<not> flag (fst s') | Some w \<Rightarrow> flag (fst s') = flag (fst s) \<and> releasing flag release w) \<and> frames_all flag (set ds)"
proof (induction body arbitrary: s s' m ds)
  case (Await r k)
  then have "releasing flag release (finally_do (Await r k) (SetState release Done))"
    unfolding releasing_def by blast
  with Await.prems(2) show ?case by auto
next
  case (SetState f p)
  from SetState.IH [of "(f (fst s), snd s)" s' m ds] SetState.prems show ?case by (cases m) simp_all
next
  case (Read k)
  from Read.IH [of "k (fst s)" s s' m ds] Read.prems show ?case by simp
next
  case (Ask r k)
  from Ask.IH [of "k (fst (ask r (snd s)))" "(fst s, snd (ask r (snd s)))" s' m ds] Ask.prems show ?case by (cases m) simp_all
next
  case (Fork b p)
  from Fork.prems(2) obtain s1 m1 d1 d2 where r: "run_on ask b s = (s1, m1, d1)"
    "run_on ask (finally_do p (SetState release Done)) s1 = (s', m, d2)"
    "set ds = set_option m1 \<union> set d1 \<union> set d2" unfolding finally_do.simps by (rule run_Fork)
  from frames_run [OF _ r(1), of flag] Fork.IH(2) [OF _ r(2)] Fork.prems(1) show ?case
    by (cases m) (simp_all add: r(3))
qed (auto simp: released)

lemma in_flight_nth:
  assumes "in_flight me w \<le> 1" "i < length (waiting w)" "fst (waiting w ! i) = Some me"
  shows "filter (\<lambda>x. fst x = Some me) (take i (waiting w)) = []"
    "filter (\<lambda>x. fst x = Some me) (drop (Suc i) (waiting w)) = []" "in_flight me w = 1"
proof -
  have "filter (\<lambda>x. fst x = Some me) (waiting w) = filter (\<lambda>x. fst x = Some me) (take i (waiting w))
      @ waiting w ! i # filter (\<lambda>x. fst x = Some me) (drop (Suc i) (waiting w))"
    using arg_cong [OF id_take_nth_drop [OF assms(2)], of "filter (\<lambda>x. fst x = Some me)"] assms(3) by simp
  with assms(1) show "filter (\<lambda>x. fst x = Some me) (take i (waiting w)) = []"
    "filter (\<lambda>x. fst x = Some me) (drop (Suc i) (waiting w)) = []" "in_flight me w = 1"
    by (simp_all add: in_flight_def)
qed

text \<open>Another handler, or a detached one, leaves the flag alone.\<close>

lemma spawn_other:
  assumes "guard_ok flag release me w" "frames flag p" "l \<noteq> Some me"
  shows "guard_ok flag release me (spawn ask l p w)"
proof -
  obtain s c m ds where run: "run_on ask p (current w, outer w) = ((s, c), m, ds)" by (metis prod.exhaust)
  from frames_run [OF assms(2) run] assms(1,3) show ?thesis
    by (auto simp: guard_ok_def spawn_def run in_flight_def owned_def o_def frames_all_def split: option.splits)
qed

text \<open>The handler itself, started from the rendered screen and rendered at once.\<close>

lemma spawn_me:
  assumes "guard_ok flag release me w" "\<not> flag (visible w)" "frames flag body"
  shows "guard_ok flag release me ((\<lambda>w. w\<lparr>visible := current w\<rparr>)
    (spawn ask (Some me) (SetState acquire (finally_do body (SetState release Done))) w))"
proof -
  let ?p = "finally_do body (SetState release Done)"
  obtain s c m ds where run: "run_on ask ?p (acquire (current w), outer w) = ((s, c), m, ds)"
    by (metis prod.exhaust)
  from releasing_run [OF assms(3) run] assms(1,2) acquired show ?thesis
    by (auto simp: guard_ok_def spawn_def run in_flight_def owned_def o_def frames_all_def split: option.splits)
qed

text \<open>The members of the pool after a continuation was replaced by what came of it.\<close>

lemma replaced:
  assumes "guard_ok flag release me w" "frames_all flag (set ds)"
    and "\<forall>x \<in> set (owned l m). member_ok flag release me x" "flag s \<longrightarrow> flag (visible w)"
    and "length (filter (\<lambda>x. fst x = Some me) (take i (waiting w) @ owned l m @ drop (Suc i) (waiting w))) = (if flag s then 1 else 0)"
  shows "guard_ok flag release me
    (w\<lparr>current := s, outer := c, waiting := take i (waiting w) @ owned l m @ drop (Suc i) (waiting w) @ map (Pair None) ds\<rparr>)"
proof -
  have "member_ok flag release me x" if "x \<in> set (take i (waiting w)) \<or> x \<in> set (drop (Suc i) (waiting w))" for x
    using assms(1) that by (auto simp: guard_ok_def dest: in_set_takeD in_set_dropD)
  moreover have "member_ok flag release me x" if "x \<in> set (map (Pair None) ds)" for x
    using assms(2) that by (auto simp: frames_all_def)
  moreover have "filter (\<lambda>x. fst x = Some me) (map (Pair None) ds) = []"
    by (simp add: filter_empty_conv)
  ultimately have "\<forall>x \<in> set (take i (waiting w) @ owned l m @ drop (Suc i) (waiting w) @ map (Pair None) ds).
      member_ok flag release me x" using assms(3) unfolding set_append by blast
  with assms(4,5) show ?thesis using \<open>filter _ (map _ ds) = []\<close> by (simp add: guard_ok_def in_flight_def)
qed

lemma resume_any:
  assumes g: "guard_ok flag release me w" and i: "i < length (waiting w)"
  shows "guard_ok flag release me (resume ask i x w)"
proof (cases "\<exists>l r k. waiting w ! i = (l, Await r k)")
  case True
  then obtain l r k where w: "waiting w ! i = (l, Await r k)" by blast
  obtain s c m ds where run: "run_on ask (k x) (current w, outer w) = ((s, c), m, ds)"
    by (metis prod.exhaust)
  have mem: "member_ok flag release me (l, Await r k)" 
  proof -
    have "member_ok flag release me (waiting w ! i)" using g nth_mem [OF i] unfolding guard_ok_def by blast
    then show ?thesis by (simp only: w)
  qed
  have eq: "resume ask i x w = w\<lparr>current := s, outer := c, waiting := take i (waiting w) @ owned l m @ drop (Suc i) (waiting w) @ map (Pair None) ds\<rparr>"
    by (simp add: resume_def w run)
  have n: "in_flight me w = (if flag (current w) then 1 else 0)" "flag (current w) \<longrightarrow> flag (visible w)"
    using g by (simp_all add: guard_ok_def)
  show ?thesis
  proof (cases "l = Some me")
    case False
    with mem have "frames flag (k x)" by simp
    note fr = frames_run [OF this run]
    have o: "filter (\<lambda>x. fst x = Some me) (owned l m) = []" using False by (cases m) (simp_all add: owned_def)
    have "filter (\<lambda>x. fst x = Some me) (waiting w)
        = filter (\<lambda>x. fst x = Some me) (take i (waiting w) @ owned l m @ drop (Suc i) (waiting w))"
      using arg_cong [OF id_take_nth_drop [OF i], of "filter (\<lambda>x. fst x = Some me)"] False by (simp add: w o)
    with n(1) fr have "length (filter (\<lambda>x. fst x = Some me) (take i (waiting w) @ owned l m @ drop (Suc i) (waiting w)))
        = (if flag s then 1 else 0)" by (simp add: in_flight_def)
    with fr n(2) False show ?thesis
      unfolding eq by (intro replaced [OF g]) (auto simp: owned_def frames_all_def split: option.splits)
  next
    case True
    have le: "in_flight me w \<le> 1" using n(1) by simp
    note one = in_flight_nth [OF le i, unfolded w fst_conv, OF True]
    have fl: "flag (current w)" using n(1) unfolding one(3) by (rule contrapos_pp) simp
    from mem True obtain body where body: "Await r k = finally_do body (SetState release Done)" "frames flag body"
      by (auto simp: releasing_def)
    then obtain k' where k': "body = Await r k'" "k = (\<lambda>x. finally_do (k' x) (SetState release Done))"
      by (cases body) auto
    have "frames flag (k' x)" using body(2) k'(1) by simp
    moreover have "run_on ask (finally_do (k' x) (SetState release Done)) (current w, outer w) = ((s, c), m, ds)"
      using run unfolding k'(2) .
    ultimately have rr: "(case m of None \<Rightarrow> \<not> flag s | Some p \<Rightarrow> flag s = flag (current w) \<and> releasing flag release p)
        \<and> frames_all flag (set ds)" using releasing_run [of "k' x" ask "(current w, outer w)" "(s, c)" m ds] by (simp only: fst_conv)
    have o: "\<forall>y \<in> set (owned l m). member_ok flag release me y"
      using rr True by (cases m) (simp_all add: owned_def)
    have len: "length (filter (\<lambda>y. fst y = Some me) (take i (waiting w) @ owned l m @ drop (Suc i) (waiting w))) = (if flag s then 1 else 0)"
      using rr fl True by (cases m) (simp_all add: owned_def one(1,2))
    show ?thesis
      unfolding eq using rr n(2) fl by (intro replaced [OF g _ o _ len]) simp_all
  qed
next
  case False
  then have "resume ask i x w = w" by (auto simp: resume_def split: prod.splits prog.splits)
  with g show ?thesis by simp
qed

lemma rendered: "guard_ok flag release me w \<Longrightarrow> flag (f (current w)) = flag (current w) \<Longrightarrow>
    guard_ok flag release me (w\<lparr>visible := current w, current := f (current w)\<rparr>)"
  by (auto simp: guard_ok_def in_flight_def)

end

end
