(* ===== verification/AppText.thy ===== *)
theory AppText
  imports ServerTypes XrayErrors
begin

section \<open>The texts of the example application (\<open>example/App.tsx\<close>)\<close>

text \<open>
  \<open>formatBytes\<close>, \<open>errStr\<close> and \<open>formatExpiry\<close>, on top of the arithmetic of doubles and \<open>toFixed\<close> as the
  language specifies them.  What the platform decides (the stack of an error, its name, the rendering
  of a value as JSON, the local form of a date) is a record of functions.
\<close>

subsection \<open>Arithmetic\<close>

fun js_add :: "jsnum \<Rightarrow> jsnum \<Rightarrow> jsnum" where
  "js_add (Fin a) (Fin b) = dbl (a + b)"
| "js_add NaN _ = NaN"
| "js_add _ NaN = NaN"
| "js_add PosInf NegInf = NaN"
| "js_add NegInf PosInf = NaN"
| "js_add PosInf _ = PosInf"
| "js_add NegInf _ = NegInf"
| "js_add (Fin _) x = x"

text \<open>Multiplication and division by a positive constant.\<close>

fun js_mul :: "jsnum \<Rightarrow> rat \<Rightarrow> jsnum" where
  "js_mul (Fin q) k = dbl (q * k)"
| "js_mul x k = x"

definition js_div :: "jsnum \<Rightarrow> rat \<Rightarrow> jsnum" where
  "js_div x k = js_mul x (1 / k)"

fun js_neg :: "jsnum \<Rightarrow> jsnum" where
  "js_neg (Fin q) = Fin (- q)"
| "js_neg PosInf = NegInf"
| "js_neg NegInf = PosInf"
| "js_neg NaN = NaN"

fun js_less :: "jsnum \<Rightarrow> rat \<Rightarrow> bool" where
  "js_less (Fin q) r = (q < r)"
| "js_less NegInf r = True"
| "js_less _ r = False"

fun js_ceil :: "jsnum \<Rightarrow> jsnum" where
  "js_ceil (Fin q) = Fin (of_int \<lceil>q\<rceil>)"
| "js_ceil x = x"

subsection \<open>\<open>toFixed\<close>\<close>

text \<open>The digits of \<open>k\<close> with the decimal point before the last \<open>f\<close> of them.\<close>

definition fixed_text :: "nat \<Rightarrow> nat \<Rightarrow> jstring" where
  "fixed_text f k = (let ds = zeros (f + 1 - length (nat_digits k)) @ nat_digits k; m = length ds - f
     in take m ds @ js ''.'' @ drop m ds)"

text \<open>The nearest multiple, the larger of two; from 10 to the 21st the plain conversion.\<close>

definition fixed_pos :: "nat \<Rightarrow> rat \<Rightarrow> jstring" where
  "fixed_pos f q = (if 10 ^ 21 \<le> q then num_to_string (Fin q) else fixed_text f (nat \<lfloor>q * 10 ^ f + 1 / 2\<rfloor>))"

fun to_fixed :: "nat \<Rightarrow> jsnum \<Rightarrow> jstring" where
  "to_fixed f (Fin q) = (if q < 0 then js ''-'' @ fixed_pos f (- q) else fixed_pos f q)"
| "to_fixed f x = num_to_string x"

subsection \<open>The functions of the application\<close>

definition formatBytes :: "jsnum \<Rightarrow> jstring" where
  "formatBytes n =
     (if js_less n 1024 then num_to_string n @ js '' B''
      else if js_less n (1024 * 1024) then to_fixed 1 (js_div n 1024) @ js '' KB''
      else if js_less n (1024 * 1024 * 1024) then to_fixed 2 (js_div (js_div n 1024) 1024) @ js '' MB''
      else to_fixed 2 (js_div (js_div (js_div n 1024) 1024) 1024) @ js '' GB'')"

record platform =
  pf_stack :: "thrown \<Rightarrow> jstring option"
  pf_name :: "thrown \<Rightarrow> jstring"
  pf_json :: "thrown \<Rightarrow> jstring option"
  pf_date :: "jsnum \<Rightarrow> jstring"

text \<open>\<open>pf_json\<close> is \<open>None\<close> for a value that is no object and for one \<open>JSON.stringify\<close> throws on.\<close>

definition errStr :: "platform \<Rightarrow> thrown \<Rightarrow> jstring" where
  "errStr pf e = (case e of
     ThrownOther text \<Rightarrow> coalesce (pf_json pf e) text
   | _ \<Rightarrow> (let message = thrown_text e; name = (case e of ThrownXray _ \<Rightarrow> js ''XrayError'' | _ \<Rightarrow> pf_name pf e) in
       case str_or_undef (pf_stack pf e) of
         Some stack \<Rightarrow> message @ [LF] @ stack
       | None \<Rightarrow> str_or (Some message) name))"

text \<open>\<open>new Date(ms)\<close>: the milliseconds as an integer, or an invalid date.\<close>

fun date_value :: "jsnum \<Rightarrow> jsnum" where
  "date_value (Fin q) = (if \<bar>q\<bar> \<le> 8640000000000000 then Fin (of_int (if 0 \<le> q then \<lfloor>q\<rfloor> else \<lceil>q\<rceil>)) else NaN)"
| "date_value _ = NaN"

definition days_left :: "jsnum \<Rightarrow> jsnum \<Rightarrow> jsnum" where
  "days_left date now = js_ceil (js_div (js_add date (js_neg now)) 86400000)"

fun at_least_0 :: "jsnum \<Rightarrow> bool" where
  "at_least_0 (Fin q) = (0 \<le> q)"
| "at_least_0 PosInf = True"
| "at_least_0 _ = False"

definition formatExpiry :: "platform \<Rightarrow> jsnum \<Rightarrow> jsnum \<Rightarrow> jstring" where
  "formatExpiry pf now expire =
     (let date = date_value (js_mul expire 1000); daysLeft = days_left date now; dateStr = pf_date pf date in
      if at_least_0 daysLeft then dateStr @ js '' ('' @ num_to_string daysLeft @ js '' d left)''
      else dateStr @ js '' (expired)'')"

subsection \<open>Division by a power of two is exact\<close>

lemma p2_powi: "p2 e = 2 powi e"
  by (simp add: p2_def power_int_def power_inverse inverse_eq_divide power_one_over)

lemma bitlen_lower: "0 < n \<Longrightarrow> 2 ^ (bitlen n - 1) \<le> n"
proof (induction n rule: bitlen.induct)
  case (1 n)
  show ?case
  proof (cases "n div 2 = 0")
    case True
    with 1 show ?thesis by (subst bitlen.simps) (simp add: bitlen.simps)
  next
    case False
    then have "bitlen (n div 2) \<noteq> 0" by (subst bitlen.simps) simp
    then have "bitlen (n div 2) = Suc (bitlen (n div 2) - 1)" by simp
    then have "2 ^ bitlen (n div 2) = 2 * 2 ^ (bitlen (n div 2) - 1)" by (metis power_Suc)
    also have "\<dots> \<le> 2 * (n div 2)" using 1 False by simp
    also have "\<dots> \<le> n" by simp
    finally show ?thesis using 1 by (subst bitlen.simps) simp
  qed
qed

lemma bitlen_upper: "n < 2 ^ bitlen n"
proof (induction n rule: bitlen.induct)
  case (1 n)
  then show ?case by (cases "n = 0") (auto simp: bitlen.simps [of n])
qed

lemma exponent_lower:
  assumes "0 < q"
  shows "p2 (exponent q) \<le> q"
proof -
  obtain a b where ab: "quotient_of q = (a, b)" by (cases "quotient_of q")
  have b: "0 < b" using quotient_of_denom_pos [OF ab] .
  have q: "q = of_int a / of_int b" using quotient_of_div [OF ab] .
  have a: "0 < a" using assms b unfolding q by (simp add: zero_less_divide_iff)
  let ?m = "bitlen (nat a)" and ?n = "bitlen (nat b)"
  have m0: "0 < ?m" using a by (subst bitlen.simps) simp
  have "2 ^ (?m - 1) \<le> nat a" by (rule bitlen_lower) (use a in simp)
  then have lo: "(2 :: rat) ^ (?m - 1) \<le> of_int a"
    using a by (metis of_nat_le_iff of_nat_numeral of_nat_power of_int_of_nat_eq int_nat_eq less_imp_le)
  have "nat b < 2 ^ ?n" by (rule bitlen_upper)
  then have hi: "of_int b < (2 :: rat) ^ ?n"
    using b by (metis of_nat_less_iff of_nat_numeral of_nat_power of_int_of_nat_eq int_nat_eq less_imp_le)
  have "p2 (int ?m - int ?n - 1) = 2 ^ (?m - 1) / (2 :: rat) ^ ?n"
  proof -
    have "int ?m - int ?n - 1 = int (?m - 1) - int ?n" using m0 by simp
    then show ?thesis unfolding p2_powi by (simp only: power_int_diff power_int_of_nat numeral_neq_zero simp_thms)
  qed
  also have "\<dots> \<le> of_int a / of_int b"
    using lo hi a b by (intro frac_le) simp_all
  finally have "p2 (int ?m - int ?n - 1) \<le> q" by (simp only: q)
  then show ?thesis by (simp add: exponent_def ab Let_def)
qed

lemma dbl_dyadic:
  assumes "n < 2 ^ 53" "k \<le> 1000"
  shows "dbl (of_nat n / 2 ^ k) = Fin (of_nat n / 2 ^ k)"
proof (cases "n = 0")
  case True
  then show ?thesis by (simp add: dbl_def)
next
  case False
  define q :: rat where "q = of_nat n / 2 ^ k"
  have q: "0 < q" using False by (simp add: q_def)
  have "(of_nat n :: rat) < of_nat (2 ^ 53)" using assms(1) by (simp only: of_nat_less_iff)
  then have "q < 2 ^ 53 / 2 ^ k" by (simp add: q_def divide_strict_right_mono)
  also have "\<dots> = p2 (53 - int k)" by (simp add: p2_powi power_int_diff)
  finally have "p2 (exponent q) < p2 (53 - int k)" using exponent_lower [OF q] by simp
  then have "exponent q < 53 - int k"
    unfolding p2_powi by (metis linorder_not_le one_le_numeral power_int_increasing)
  moreover define u where "u = max (exponent q - 52) (- 1074)"
  ultimately have u: "u \<le> - int k" using assms(2) by simp
  then obtain j where j: "nat (- u) = j + k" by (metis add.commute le_Suc_ex nat_le_iff nat_int neg_le_iff_le minus_minus nat_mono)
  have pu: "p2 u = 1 / 2 ^ (j + k)" using u j by (cases "u = 0") (auto simp: p2_def)
  have "q / p2 u = of_int (int n * 2 ^ j)" by (simp add: q_def pu power_add)
  then have m: "round_half_even (q / p2 u) = int n * 2 ^ j" by (metis round_half_even_int)
  have v: "of_int (round_half_even (q / p2 u)) * p2 u = q"
    unfolding m by (simp add: q_def pu power_add)
  have "q < p2 1024"
  proof -
    have "(of_nat n :: rat) * 1 \<le> of_nat n * 2 ^ k" by (intro mult_left_mono) simp_all
    then have "q \<le> of_nat n" by (simp add: q_def divide_le_eq)
    also have "(of_nat n :: rat) < 2 ^ 53" using \<open>of_nat n < of_nat (2 ^ 53)\<close> by simp
    also have "\<dots> < p2 1024" by (simp add: p2_def)
    finally show ?thesis .
  qed
  then show ?thesis
    using q v by (simp add: dbl_def Let_def flip: u_def q_def)
qed

subsection \<open>What \<open>formatBytes\<close> shows\<close>

lemma js_div_dyadic:
  assumes "n < 2 ^ 53" "i + 10 \<le> 1000"
  shows "js_div (Fin (of_nat n / 2 ^ i)) 1024 = Fin (of_nat n / 2 ^ (i + 10))"
proof -
  have "of_nat n / 2 ^ i * (1 / 1024) = (of_nat n / 2 ^ (i + 10) :: rat)" by (simp add: power_add)
  then show ?thesis unfolding js_div_def js_mul.simps by (simp only: dbl_dyadic [OF assms])
qed

lemma js_div_units:
  assumes "n < 2 ^ 53"
  shows "js_div (Fin (of_nat n)) 1024 = Fin (of_nat n / 2 ^ 10)"
    and "js_div (Fin (of_nat n / 1024)) 1024 = Fin (of_nat n / 2 ^ 20)"
    and "js_div (Fin (of_nat n / 1048576)) 1024 = Fin (of_nat n / 2 ^ 30)"
  using js_div_dyadic [OF assms, of 0] js_div_dyadic [OF assms, of 10] js_div_dyadic [OF assms, of 20]
  by simp_all

lemma digits_val_zeros: "digits_val (zeros j @ ds) = digits_val ds"
proof (induction j)
  case (Suc j)
  have "digit_val (ch (CHR ''0'')) = 0" by (simp add: digit_val_def)
  then have "digits_val (ch (CHR ''0'') # zeros j @ ds) = digits_val (zeros j @ ds)" by (simp add: digits_val_def)
  with Suc show ?case by (simp add: zeros_def)
qed (simp add: zeros_def)

text \<open>The text is a decimal number with \<open>f\<close> places that has the digits of \<open>k\<close>.\<close>

definition decimal_of :: "nat \<Rightarrow> nat \<Rightarrow> jstring \<Rightarrow> bool" where
  "decimal_of f k t \<longleftrightarrow> (\<exists>a b. t = a @ js ''.'' @ b \<and> a \<noteq> [] \<and> length b = f \<and> (\<forall>c \<in> set (a @ b). is_digit c)
     \<and> digits_val (a @ b) = k)"

lemma decimal_fixed_text: "decimal_of f k (fixed_text f k)"
proof -
  let ?ds = "zeros (f + 1 - length (nat_digits k)) @ nat_digits k"
  let ?a = "take (length ?ds - f) ?ds" and ?b = "drop (length ?ds - f) ?ds"
  have l: "f < length ?ds" by (simp add: zeros_def)
  have d: "\<forall>c \<in> set ?ds. is_digit c"
    using nat_digits_digits [of k] by (auto simp: zeros_def is_digit_def)
  have ab: "?a @ ?b = ?ds" by (rule append_take_drop_id)
  have "fixed_text f k = ?a @ js ''.'' @ ?b" by (simp only: fixed_text_def Let_def)
  moreover have "take (length ds - f) ds \<noteq> []" "length (drop (length ds - f) ds) = f" if "f < length ds" for ds :: jstring
    using that by auto
  note this [OF l]
  moreover have "digits_val (?a @ ?b) = k" unfolding ab by (simp only: digits_val_zeros digits_val_nat_digits)
  moreover have "\<forall>c \<in> set (?a @ ?b). is_digit c" unfolding ab by (rule d)
  ultimately show ?thesis unfolding decimal_of_def by blast
qed

text \<open>The unit of a count of bytes: the decimals shown, its size in bytes and its name.\<close>

definition byte_unit :: "nat \<Rightarrow> nat \<times> nat \<times> string" where
  "byte_unit n = (if n < 2 ^ 20 then (1, 2 ^ 10, '' KB'') else if n < 2 ^ 30 then (2, 2 ^ 20, '' MB'') else (2, 2 ^ 30, '' GB''))"

lemma floor_half_near:
  fixes x :: rat
  assumes "0 \<le> x"
  shows "\<bar>of_nat (nat \<lfloor>x + 1 / 2\<rfloor>) - x\<bar> * 2 \<le> 1"
proof -
  have f: "of_int \<lfloor>x + 1 / 2\<rfloor> \<le> x + 1 / 2" "x + 1 / 2 < of_int \<lfloor>x + 1 / 2\<rfloor> + 1" by linarith+
  have "0 \<le> \<lfloor>x + 1 / 2\<rfloor>" using assms by simp
  then have "(of_nat (nat \<lfloor>x + 1 / 2\<rfloor>) :: rat) = of_int \<lfloor>x + 1 / 2\<rfloor>" by simp
  moreover have "\<bar>y - x\<bar> \<le> 1 / 2" if "y \<le> x + 1 / 2" "x + 1 / 2 < y + 1" for y
    using that by linarith
  ultimately show ?thesis using f by fastforce
qed

lemma to_fixed_near:
  assumes "n < 2 ^ 53" "0 < u"
  shows "\<exists>k. to_fixed f (Fin (of_nat n / of_nat u)) = fixed_text f k
    \<and> \<bar>of_nat k * of_nat u - of_nat n * 10 ^ f\<bar> * 2 \<le> (of_nat u :: rat)"
proof -
  let ?q = "of_nat n / of_nat u :: rat" and ?k = "nat \<lfloor>of_nat n / of_nat u * 10 ^ f + 1 / 2 :: rat\<rfloor>"
  have "(of_nat n :: rat) < of_nat (2 ^ 53)" using assms(1) by (simp only: of_nat_less_iff)
  then have "(of_nat n :: rat) < 10 ^ 21 * 1" by simp
  also have "\<dots> \<le> 10 ^ 21 * of_nat u" using assms(2) by (intro mult_left_mono) simp_all
  finally have "?q < 10 ^ 21" using assms(2) by (simp add: divide_less_eq)
  moreover have "\<not> ?q < 0" by (simp add: divide_less_0_iff)
  ultimately have t: "to_fixed f (Fin ?q) = fixed_text f ?k" by (simp add: fixed_pos_def)
  have "\<bar>of_nat ?k - ?q * 10 ^ f\<bar> * 2 \<le> 1" by (rule floor_half_near) simp
  then have "\<bar>of_nat ?k - ?q * 10 ^ f\<bar> * 2 * of_nat u \<le> 1 * of_nat u" by (rule mult_right_mono) simp
  moreover have "\<bar>of_nat ?k - ?q * 10 ^ f\<bar> * of_nat u = \<bar>of_nat ?k * of_nat u - of_nat n * 10 ^ f\<bar>"
    using assms(2) by (simp add: abs_mult_pos left_diff_distrib)
  ultimately have "\<bar>of_nat ?k * of_nat u - of_nat n * 10 ^ f\<bar> * 2 \<le> (of_nat u :: rat)" by (simp add: mult.commute mult.left_commute)
  with t show ?thesis by blast
qed

text \<open>
  C36: \<open>formatBytes\<close> shows a count of bytes below 1024 exactly, and any other in the largest fitting unit
  up to GB, rounded to its last decimal place: the error is at most half of it.
\<close>

theorem formatBytes_accurate:
  assumes "n < 2 ^ 53"
  shows "case byte_unit n of (f, u, name) \<Rightarrow>
    if n < 1024 then formatBytes (Fin (of_nat n)) = nat_digits n @ js '' B''
    else \<exists>t k. formatBytes (Fin (of_nat n)) = t @ js name \<and> decimal_of f k t
      \<and> \<bar>of_nat k * of_nat u - of_nat n * 10 ^ f\<bar> * 2 \<le> (of_nat u :: rat)"
proof -
  have less: "js_less (Fin (of_nat n)) (of_nat m) \<longleftrightarrow> n < m" for m by simp
  note le = less [of 1024, simplified] less [of 1048576, simplified] less [of 1073741824, simplified]
  note near = to_fixed_near [OF assms, of "2 ^ 10" 1] to_fixed_near [OF assms, of "2 ^ 20" 2] to_fixed_near [OF assms, of "2 ^ 30" 2]
  consider "n < 1024" | "1024 \<le> n" "n < 2 ^ 20" | "2 ^ 20 \<le> n" "n < 2 ^ 30" | "2 ^ 30 \<le> n" by linarith
  then show ?thesis
  proof cases
    case 1
    then show ?thesis using num_to_string_nat [OF assms]
      by (simp add: formatBytes_def byte_unit_def del: num_to_string.simps)
  next
    case 2
    then have "formatBytes (Fin (of_nat n)) = to_fixed 1 (Fin (of_nat n / of_nat (2 ^ 10))) @ js '' KB''"
      by (simp add: formatBytes_def js_div_units [OF assms])
    with 2 near(1) show ?thesis by (auto simp: byte_unit_def simp del: to_fixed.simps) (metis decimal_fixed_text)
  next
    case 3
    then have "formatBytes (Fin (of_nat n)) = to_fixed 2 (Fin (of_nat n / of_nat (2 ^ 20))) @ js '' MB''"
      by (simp add: formatBytes_def js_div_units [OF assms])
    with 3 near(2) show ?thesis by (auto simp: byte_unit_def simp del: to_fixed.simps) (metis decimal_fixed_text)
  next
    case 4
    then have "formatBytes (Fin (of_nat n)) = to_fixed 2 (Fin (of_nat n / of_nat (2 ^ 30))) @ js '' GB''"
      by (simp add: formatBytes_def js_div_units [OF assms])
    with 4 near(3) show ?thesis by (auto simp: byte_unit_def simp del: to_fixed.simps) (metis decimal_fixed_text)
  qed
qed

lemma formatBytes_accurate_witness:
  "\<exists>t k. formatBytes (Fin 1536) = t @ js '' KB'' \<and> decimal_of 1 k t \<and> \<bar>of_nat k * 1024 - 15360\<bar> * 2 \<le> (1024 :: rat)"
  using formatBytes_accurate [of 1536] by (simp add: byte_unit_def)

subsection \<open>When a date counts as expired\<close>

lemma round_half_even_ge: "of_int n \<le> q \<Longrightarrow> n \<le> round_half_even q"
proof -
  assume "of_int n \<le> q"
  then have "n \<le> \<lfloor>q\<rfloor>" by (simp only: le_floor_iff)
  then show ?thesis by (auto simp: round_half_even_def Let_def)
qed

lemma round_half_even_le: "of_int (round_half_even q) \<le> q + 1 / 2"
proof -
  have a: "y \<le> q + 1 / 2" if "y \<le> q" for y using that by simp
  have b: "of_int (f + 1) \<le> q + 1 / 2" if "\<not> q - of_int f < 1 / 2" for f using that by simp
  show ?thesis using a [OF of_int_floor_le [of q]] b [of "\<lfloor>q\<rfloor>"] by (auto simp: round_half_even_def Let_def)
qed

text \<open>A negative quotient is rounded to at most \<open>-1\<close> exactly when it is.\<close>

lemma dbl_below_1:
  assumes "0 < a" "a \<le> 1 - 1 / 2 ^ 53"
  obtains v where "dbl (- a) = Fin (- v)" "0 \<le> v" "v < 1"
proof -
  define u where "u = max (exponent a - 52) (- 1074)"
  define v where "v = of_int (round_half_even (a / p2 u)) * p2 u"
  have pu: "0 < p2 u" by (simp add: p2_powi)
  have "p2 (exponent a) < p2 0" using exponent_lower [OF assms(1)] assms(2) by (simp add: p2_def)
  then have "exponent a < 0" unfolding p2_powi by (metis linorder_not_le one_le_numeral power_int_increasing)
  then have "u \<le> - 53" by (simp add: u_def)
  then have "p2 u \<le> p2 (- 53)" unfolding p2_powi by (intro power_int_increasing) simp_all
  then have small: "p2 u \<le> 1 / 2 ^ 53" by (simp add: p2_def)
  have "v \<le> (a / p2 u + 1 / 2) * p2 u"
    unfolding v_def using pu by (intro mult_right_mono round_half_even_le) simp
  also have "\<dots> = a + p2 u / 2" using pu by (simp add: field_simps)
  also have "\<dots> < 1" using small assms(2) by simp
  finally have v1: "v < 1" .
  have "0 \<le> round_half_even (a / p2 u)" using assms(1) pu by (intro round_half_even_ge) simp
  then have v0: "0 \<le> v" using pu by (simp add: v_def)
  have "\<not> p2 1024 \<le> v" using v1 by (simp add: p2_def)
  then have "dbl (- a) = Fin (- v)"
    using assms(1) by (simp add: dbl_def Let_def v_def u_def)
  then show thesis using v0 v1 by (rule that)
qed

lemma dbl_above_1:
  assumes "1 \<le> a"
  shows "dbl (- a) = NegInf \<or> (\<exists>v \<ge> 1. dbl (- a) = Fin (- v))"
proof -
  define u where "u = max (exponent a - 52) (- 1074)"
  define v where "v = of_int (round_half_even (a / p2 u)) * p2 u"
  have pu: "0 < p2 u" by (simp add: p2_powi)
  have "1 \<le> v"
  proof (cases "0 \<le> u")
    case True
    then have e: "exponent a = u + 52" by (simp add: u_def)
    have "p2 u \<le> p2 (exponent a)" unfolding e p2_powi by (intro power_int_increasing) simp_all
    also have "\<dots> \<le> a" using assms by (intro exponent_lower) simp
    finally have "1 \<le> a / p2 u" using pu by (simp add: le_divide_eq)
    then have "1 \<le> round_half_even (a / p2 u)" by (intro round_half_even_ge) simp
    moreover have "1 \<le> p2 u" using True by (simp add: p2_def)
    ultimately show ?thesis unfolding v_def by (metis mult_mono' mult_1 of_int_1 of_int_le_iff zero_le_one)
  next
    case False
    then have p: "p2 u = 1 / 2 ^ nat (- u)" by (simp add: p2_def)
    have "of_int (2 ^ nat (- u)) \<le> a / p2 u" using assms by (simp add: p mult_le_cancel_right1)
    then have "2 ^ nat (- u) \<le> round_half_even (a / p2 u)" by (rule round_half_even_ge)
    then have "of_int (2 ^ nat (- u)) * p2 u \<le> v" unfolding v_def using pu by (intro mult_right_mono) (simp_all only: of_int_le_iff less_imp_le)
    then show ?thesis by (simp add: p)
  qed
  moreover have "dbl (- a) = (if p2 1024 \<le> v then NegInf else Fin (- v))"
    using assms by (simp add: dbl_def Let_def v_def u_def)
  ultimately show ?thesis by auto
qed

lemma days_left_negative:
  assumes "\<bar>t - now\<bar> < 2 ^ 53"
  shows "at_least_0 (days_left (Fin (of_int t)) (Fin (of_int now))) \<longleftrightarrow> now < t + 86400000"
proof -
  define d where "d = t - now"
  have "js_add (Fin (of_int t)) (js_neg (Fin (of_int now))) = Fin (of_int d)"
    using dbl_int [of d] assms by (simp add: d_def)
  then have days: "days_left (Fin (of_int t)) (Fin (of_int now)) = js_ceil (dbl (of_int d / 86400000))"
    by (simp add: days_left_def js_div_def)
  consider "d \<le> - 86400000" | "- 86400000 < d" "d < 0" | "0 \<le> d" by linarith
  then show ?thesis
  proof cases
    case 1
    then have "(of_int d :: rat) \<le> of_int (- 86400000)" by (simp only: of_int_le_iff)
    then have "1 \<le> - (of_int d / 86400000 :: rat)" by simp
    from dbl_above_1 [OF this] have "\<not> at_least_0 (js_ceil (dbl (of_int d / 86400000)))" by auto
    with 1 show ?thesis by (simp add: days d_def)
  next
    case 2
    then have "- 86399999 \<le> d" by simp
    then have "of_int (- 86399999) \<le> (of_int d :: rat)" by (simp only: of_int_le_iff)
    then have hi: "- (of_int d / 86400000 :: rat) \<le> 1 - 1 / 2 ^ 53" by simp
    have "(of_int d :: rat) < of_int 0" using 2 by (simp only: of_int_less_iff)
    then have "0 < - (of_int d / 86400000 :: rat)" by simp
    from dbl_below_1 [OF this hi] obtain v where "dbl (of_int d / 86400000) = Fin (- v)" "0 \<le> v" "v < 1" by auto
    then have "at_least_0 (js_ceil (dbl (of_int d / 86400000)))" by (simp add: zero_le_ceiling)
    with 2 show ?thesis by (simp add: days d_def)
  next
    case 3
    have "at_least_0 (js_ceil (dbl q))" if "0 \<le> q" for q :: rat
    proof (cases "q = 0")
      case False
      define u where "u = max (exponent q - 52) (- 1074)"
      have "0 \<le> round_half_even (q / p2 u)"
        using that by (intro round_half_even_ge) (simp add: p2_powi)
      then have "0 \<le> of_int (round_half_even (q / p2 u)) * p2 u" by (simp add: p2_powi)
      then have "- 1 < of_int (round_half_even (q / p2 u)) * p2 u" by simp
      with that False show ?thesis by (auto simp: dbl_def Let_def zero_le_ceiling simp flip: u_def)
    qed (simp add: dbl_def)
    with 3 show ?thesis by (simp add: days d_def)
  qed
qed

text \<open>
  A date is shown as expired once a whole day has passed since: up to then the text says
  \<open>0 d left\<close>.
\<close>

lemma formatExpiry_expired:
  assumes "\<bar>expire * 1000\<bar> \<le> 8640000000000000" "\<bar>expire * 1000 - now\<bar> < 2 ^ 53"
  shows "formatExpiry pf (Fin (of_int now)) (Fin (of_int expire)) = pf_date pf (Fin (of_int (expire * 1000))) @
    (if expire * 1000 + 86400000 \<le> now then js '' (expired)''
     else js '' ('' @ num_to_string (days_left (Fin (of_int (expire * 1000))) (Fin (of_int now))) @ js '' d left)'')"
proof -
  have "\<bar>of_int (expire * 1000) :: rat\<bar> \<le> of_int 8640000000000000"
    using assms(1) by (simp only: of_int_le_iff flip: of_int_abs)
  then have b: "\<bar>of_int (expire * 1000) :: rat\<bar> \<le> 8640000000000000" by simp
  have "js_mul (Fin (of_int expire)) 1000 = Fin (of_int (expire * 1000))"
    using dbl_int [of "expire * 1000"] assms(1) by simp
  then have "date_value (js_mul (Fin (of_int expire)) 1000) = Fin (of_int (expire * 1000))"
    using b by simp
  then show ?thesis
    using days_left_negative [OF assms(2)] by (auto simp: formatExpiry_def Let_def)
qed

lemma just_expired: "formatExpiry pf (Fin 1003600000) (Fin 1000000) = pf_date pf (Fin 1000000000) @ js '' (0 d left)''"
proof -
  obtain v where v: "dbl (- (1 / 24)) = Fin (- v)" "0 \<le> v" "v < 1" by (rule dbl_below_1 [of "1 / 24"]) simp_all
  have "js_add (Fin 1000000000) (js_neg (Fin 1003600000)) = Fin (- 3600000)"
    using dbl_int [of "- 3600000"] by simp
  then have "days_left (Fin 1000000000) (Fin 1003600000) = js_ceil (Fin (- v))"
    by (simp add: days_left_def js_div_def v(1))
  moreover have "\<lceil>- v\<rceil> = 0" using v by (intro ceiling_unique) simp_all
  ultimately have d: "days_left (Fin (of_int 1000000000)) (Fin (of_int 1003600000)) = Fin 0" by simp
  have "formatExpiry pf (Fin (of_int 1003600000)) (Fin (of_int 1000000)) = pf_date pf (Fin (of_int (1000000 * 1000))) @ js '' (0 d left)''"
    using num_to_string_nat [of 0] d by (subst formatExpiry_expired) (simp_all add: nat_digits.simps [of 0] digit_cu_def)
  then show ?thesis by simp
qed

text \<open>A date beyond what the language can represent reads as an expired invalid date.\<close>

lemma far_future_expired: "formatExpiry pf (Fin (of_int now)) (Fin 8640000000001) = pf_date pf NaN @ js '' (expired)''"
proof -
  have "js_mul (Fin 8640000000001) 1000 = Fin 8640000000001000" using dbl_int [of 8640000000001000] by simp
  then show ?thesis by (simp add: formatExpiry_def Let_def days_left_def js_div_def)
qed

end
