(* ===== verification/OlcrtcTypes.thy ===== *)
theory OlcrtcTypes
  imports Client
begin

section \<open>The options of the olcrtc client (\<open>src/olcrtc/types.ts\<close>)\<close>

text \<open>
  \<open>OlcrtcClientConfig\<close> as a predicate on the JSON object a caller builds: the client serialises that
  object for the native side and reads three of its fields for the connection info.
\<close>

definition is_text :: "json \<Rightarrow> bool" where
  "is_text v \<longleftrightarrow> (case v of JStr _ \<Rightarrow> True | _ \<Rightarrow> False)"

definition is_number :: "json \<Rightarrow> bool" where
  "is_number v \<longleftrightarrow> (case v of JNum _ \<Rightarrow> True | _ \<Rightarrow> False)"

definition is_boolean :: "json \<Rightarrow> bool" where
  "is_boolean v \<longleftrightarrow> (case v of JBool _ \<Rightarrow> True | _ \<Rightarrow> False)"

definition required :: "(json \<Rightarrow> bool) \<Rightarrow> json \<Rightarrow> string \<Rightarrow> bool" where
  "required P c k = (case field k c of Some v \<Rightarrow> P v | None \<Rightarrow> False)"

definition optional :: "(json \<Rightarrow> bool) \<Rightarrow> json \<Rightarrow> string \<Rightarrow> bool" where
  "optional P c k = (case field k c of Some v \<Rightarrow> P v | None \<Rightarrow> True)"

definition OlcrtcClientConfig :: "json \<Rightarrow> bool" where
  "OlcrtcClientConfig c \<longleftrightarrow>
     (\<forall>k \<in> {''carrier'', ''roomId'', ''clientId'', ''keyHex''}. required is_text c k)
     \<and> (\<forall>k \<in> {''socksUser'', ''socksPass'', ''socksHost'', ''dnsServer'', ''transport''}. optional is_text c k)
     \<and> (\<forall>k \<in> {''socksPort'', ''readyTimeoutMs'', ''vp8Fps'', ''vp8BatchSize'', ''retries''}. optional is_number c k)
     \<and> optional is_boolean c ''debug''"

text \<open>What \<open>currentConnection\<close> later reports of such a side channel: three texts, the transport being the
  default of the native side when none is given.\<close>

lemma meta_of_config:
  assumes "OlcrtcClientConfig c" "armedOlcrtc s = Some c"
  shows "\<exists>carrier roomId transport. field ''carrier'' c = Some (JStr carrier) \<and> field ''roomId'' c = Some (JStr roomId)
    \<and> field ''transport'' c \<in> {None, Some (JStr transport)} \<and> (field ''transport'' c = None \<longrightarrow> transport = js ''vp8channel'')
    \<and> olcrtcMeta s = Some (obj [(''carrier'', JStr carrier), (''roomId'', JStr roomId), (''transport'', JStr transport)])"
proof -
  have r: "required is_text c ''carrier''" "required is_text c ''roomId''" "optional is_text c ''transport''"
    using assms(1) by (simp_all add: OlcrtcClientConfig_def)
  obtain carrier roomId where cr: "field ''carrier'' c = Some (JStr carrier)" "field ''roomId'' c = Some (JStr roomId)"
    using r(1,2) by (auto simp: required_def is_text_def split: option.splits json.splits)
  consider "field ''transport'' c = None" | t where "field ''transport'' c = Some (JStr t)"
    using r(3) by (auto simp: optional_def is_text_def split: option.splits json.splits)
  then show ?thesis
  proof cases
    case 1
    with cr show ?thesis
      by (simp add: olcrtcMeta_def assms(2) omitUndefined_def List.map_filter_simps nullish_def str_def)
  next
    case 2
    with cr show ?thesis
      by (simp add: olcrtcMeta_def assms(2) omitUndefined_def List.map_filter_simps nullish_def)
  qed
qed

end
