(* ===== verification/NativeTypes.thy ===== *)
theory NativeTypes
  imports OlcrtcTypes
begin

section \<open>Types of the native specification (\<open>src/specs/nitro-xray-core.nitro.ts\<close>)\<close>

text \<open>
  The states the engine reports, and the texts of the notification as a predicate on the object a
  caller builds.  The methods of the specification are the record \<open>nitro\<close> of \<open>ClientState\<close>.
\<close>

definition XrayState :: "jstring list" where
  "XrayState = map js [''disconnected'', ''connecting'', ''connected'', ''disconnecting'', ''error'',
     ''reconnecting'', ''blocked'']"

definition NotificationConfig :: "json \<Rightarrow> bool" where
  "NotificationConfig c \<longleftrightarrow>
     (\<forall>k \<in> {''title'', ''text'', ''disconnectLabel'', ''blockedText'', ''channelName''}. optional is_text c k)"

text \<open>Which of the states let the client's hook bank the counters, and which pass it by.\<close>

lemma hook_banks:
  assumes "st \<in> set XrayState"
  shows "session_hook st s = (if st = js ''connecting'' then on_sessions suspend s
    else if st \<in> {js ''disconnecting'', js ''reconnecting''} then s else on_sessions commitRestart s)"
  using assms by (auto simp: XrayState_def session_hook_def js_inject simp del: js_Cons)

end
