(* ===== verification/App.thy ===== *)
theory App
  imports SubscriptionFetch UrlTest Handlers AppText NativeTypes
begin

section \<open>The example application (\<open>example/App.tsx\<close>)\<close>

text \<open>
  The state of the component \<open>App\<close> and its handlers, in the order of the file.  What a handler asks of
  the library or of the platform is a \<open>request\<close>; the answer comes from whatever the handlers are run
  against.  \<open>ReqArmOlcrtc\<close> is the part of \<open>startOlcrtc\<close> and \<open>stopOlcrtc\<close> that runs at the call, before
  their promise.  Handlers of the screen take the rendered state they close over.  \<open>console.log\<close> is left out.
\<close>

subsection \<open>What handlers ask for\<close>

datatype request = ReqEnsurePermission | ReqOlcrtcPort | ReqOlcrtcRunning | ReqConnect server build_options
  | ReqOlcrtcOnly | ReqDisconnect | ReqStartOlcrtc olcrtc_config | ReqStopOlcrtc | ReqSetKillSwitch bool
  | ReqKillSwitchEnabled | ReqVersion | ReqConnection | ReqConnected | ReqStats | ReqSubscription jstring
  | ReqUrlTest "server list" | ReqVpnName jstring | ReqNotificationConfig json | ReqNotificationPermission
  | ReqArmOlcrtc "olcrtc_config option" | ReqOnState | ReqShare jstring | ReqSleep nat | ReqNow

datatype answer = Nothing | is_Flag: Flag (the_flag: bool) | is_Number: Number (the_number: int)
  | is_Text: Text (the_text: jstring) | is_Connection: Connection (the_connection: "json option")
  | is_Counters: Counters (the_counters: traffic_stats)
  | is_Loaded: Loaded (the_servers: "server list") (the_info: "subscription_info option")
  | is_Ranking: Ranking (the_ranking: "(server \<times> int option) list") | is_Clock: Clock (the_clock: jsnum)

text \<open>The type of an answer.\<close>

definition answer_fits :: "request \<Rightarrow> answer \<Rightarrow> bool" where
  "answer_fits r x = (case r of ReqOlcrtcPort \<Rightarrow> is_Number x | ReqOlcrtcRunning \<Rightarrow> is_Flag x
     | ReqKillSwitchEnabled \<Rightarrow> is_Flag x | ReqVersion \<Rightarrow> is_Text x | ReqConnection \<Rightarrow> is_Connection x
     | ReqConnected \<Rightarrow> is_Flag x | ReqStats \<Rightarrow> is_Counters x | ReqSubscription _ \<Rightarrow> is_Loaded x
     | ReqUrlTest _ \<Rightarrow> is_Ranking x | ReqNotificationPermission \<Rightarrow> is_Flag x | ReqNow \<Rightarrow> is_Clock x
     | _ \<Rightarrow> x = Nothing)"

subsection \<open>The state\<close>

datatype proxy_status = ProxyConnecting | ProxyReady | ProxyFailed

text \<open>The \<open>useState\<close> cells of the component, and last the ref \<open>prevDownRef\<close>.\<close>

record screen =
  ui_logs :: "jstring list"
  ui_servers :: "server list"
  ui_subInfo :: "subscription_info option"
  ui_activeTag :: "json option"
  ui_state :: jstring
  ui_proxyStatus :: "proxy_status option"
  ui_conn :: "json option"
  ui_up :: int
  ui_down :: int
  ui_version :: jstring
  ui_killSwitch :: bool
  ui_pinging :: bool
  ui_latencies :: "jstring \<rightharpoonup> int option"
  ui_olcrtcOn :: bool
  ui_olcrtcBusy :: bool
  ui_olcrtcPort :: int
  ui_vp8Fps :: nat
  ui_downRate :: int
  ui_prevDown :: int

definition initial_screen :: screen where
  "initial_screen = \<lparr>ui_logs = [], ui_servers = [], ui_subInfo = None, ui_activeTag = None,
     ui_state = js ''disconnected'', ui_proxyStatus = None, ui_conn = None, ui_up = 0, ui_down = 0,
     ui_version = [], ui_killSwitch = False, ui_pinging = False, ui_latencies = Map.empty,
     ui_olcrtcOn = False, ui_olcrtcBusy = False, ui_olcrtcPort = 0, ui_vp8Fps = 30, ui_downRate = 0, ui_prevDown = 0\<rparr>"

text \<open>The module \<open>@env\<close>.\<close>

record dotenv =
  SUB_URL :: jstring
  OLCRTC_ROOM_ID :: jstring
  OLCRTC_CLIENT_ID :: jstring
  OLCRTC_KEY_HEX :: jstring

text \<open>\<open>{ ...OLCRTC, vp8Fps }\<close>: the constant of the module with the frame rate replaced in its place.\<close>

definition OLCRTC :: "dotenv \<Rightarrow> nat \<Rightarrow> olcrtc_config" where
  "OLCRTC ev fps = obj [(''carrier'', str ''wbstream''), (''transport'', str ''vp8channel''),
     (''roomId'', JStr (OLCRTC_ROOM_ID ev)), (''clientId'', JStr (OLCRTC_CLIENT_ID ev)), (''keyHex'', JStr (OLCRTC_KEY_HEX ev)),
     (''vp8Fps'', num fps), (''vp8BatchSize'', num 64), (''readyTimeoutMs'', num 30000), (''debug'', JBool True)]"

lemma OLCRTC_typed: "OlcrtcClientConfig (OLCRTC ev fps)"
  by (simp add: OLCRTC_def OlcrtcClientConfig_def required_def optional_def is_text_def is_number_def is_boolean_def
      str_def num_def)

type_synonym app = "(screen, request, answer) prog"

subsection \<open>Logging\<close>

definition push_log :: "jstring \<Rightarrow> screen \<Rightarrow> screen" where
  "push_log msg u = u\<lparr>ui_logs := drop (length (ui_logs u) - 80) (ui_logs u) @ [msg]\<rparr>"

definition addLog :: "jstring \<Rightarrow> app \<Rightarrow> app" where
  "addLog msg p = SetState (push_log msg) p"

definition log_error :: "platform \<Rightarrow> string \<Rightarrow> thrown \<Rightarrow> app \<Rightarrow> app" where
  "log_error pf what e p = addLog (js what @ js '': '' @ errStr pf e) p"

definition shareLogs :: "platform \<Rightarrow> screen \<Rightarrow> app" where
  "shareLogs pf view = try_catch (awaiting (ReqShare (join [LF] (ui_logs view))) (\<lambda>_. Done))
     (\<lambda>e. log_error pf ''share error'' e Done)"

subsection \<open>Mounting\<close>

text \<open>The first effect registers two handlers for errors that nothing has caught; the handler of the
  platform, which the first one calls in the end, is left out.\<close>

definition on_uncaught :: "platform \<Rightarrow> bool \<Rightarrow> thrown \<Rightarrow> app" where
  "on_uncaught pf isFatal e =
     addLog (js ''UNCAUGHT'' @ (if isFatal then js '' (fatal)'' else []) @ js '': '' @ errStr pf e) Done"

definition on_rejection :: "platform \<Rightarrow> thrown \<Rightarrow> app" where
  "on_rejection pf reason = log_error pf ''UNHANDLED REJECTION'' reason Done"

text \<open>The second effect; its clean-up is not run, since the component stays mounted.\<close>

definition notification_config :: json where
  "notification_config = obj [(''title'', str ''Nitro VPN''),
     (''text'', JStr (js ''Connected '' @ [0x2014] @ js '' protecting your traffic'')), (''disconnectLabel'', str ''Disconnect'')]"

lemma notification_config_typed: "NotificationConfig notification_config"
  by (simp add: notification_config_def NotificationConfig_def optional_def is_text_def str_def)

definition mount :: "platform \<Rightarrow> app" where
  "mount pf =
     seq (try_catch (asking ReqVersion (\<lambda>v. SetState (\<lambda>u. u\<lparr>ui_version := the_text v\<rparr>) Done))
            (\<lambda>e. log_error pf ''version error'' e Done))
     (seq (try_catch (asking ReqKillSwitchEnabled (\<lambda>on. SetState (\<lambda>u. u\<lparr>ui_killSwitch := the_flag on\<rparr>) Done)) (\<lambda>_. Done))
     (seq (try_catch (asking (ReqVpnName (js ''Nitro VPN'')) (\<lambda>_. Done)) (\<lambda>_. Done))
     (seq (try_catch (asking (ReqNotificationConfig notification_config) (\<lambda>_. Done)) (\<lambda>_. Done))
     (Fork (try_catch (awaiting ReqNotificationPermission (\<lambda>granted.
              addLog (js ''Notification permission: '' @ (if the_flag granted then js ''granted'' else js ''denied'')) Done))
            (\<lambda>e. log_error pf ''Notification permission error'' e Done))
     (asking ReqConnected (\<lambda>up.
       seq (only_if (the_flag up) (SetState (\<lambda>u. u\<lparr>ui_state := js ''connected''\<rparr>)
              (asking ReqConnection (\<lambda>c. SetState (\<lambda>u. u\<lparr>ui_conn := the_connection c\<rparr>) Done))))
       (asking ReqOnState (\<lambda>_. Done))))))))"

text \<open>The listener.  The timer and the disconnect are started and not awaited.\<close>

definition refresh_connection :: app where
  "refresh_connection = asking ReqConnection (\<lambda>c. SetState (\<lambda>u. u\<lparr>ui_conn := the_connection c\<rparr>)
     (Fork (awaiting (ReqSleep 500) (\<lambda>_. asking ReqVersion (\<lambda>v. SetState (\<lambda>u. u\<lparr>ui_version := the_text v\<rparr>) Done))) Done))"

definition proxy_message :: "platform \<Rightarrow> jstring \<Rightarrow> app" where
  "proxy_message pf message =
     (if message = js ''proxy-connecting'' then SetState (\<lambda>u. u\<lparr>ui_proxyStatus := Some ProxyConnecting\<rparr>) Done
      else if message = js ''proxy-ready'' then SetState (\<lambda>u. u\<lparr>ui_proxyStatus := Some ProxyReady\<rparr>) Done
      else if message = js ''proxy-failed'' then
        SetState (\<lambda>u. u\<lparr>ui_proxyStatus := Some ProxyFailed\<rparr>)
        (addLog (js ''olcrtc failed '' @ [0x2014] @ js '' disconnecting'')
        (Fork (try_catch (awaiting ReqDisconnect (\<lambda>_. Done)) (\<lambda>e. log_error pf ''auto-disconnect error'' e Done)) Done))
      else Done)"

definition clear_connection :: "screen \<Rightarrow> screen" where
  "clear_connection u = u\<lparr>ui_activeTag := None, ui_up := 0, ui_down := 0, ui_proxyStatus := None, ui_conn := None\<rparr>"

definition on_state :: "platform \<Rightarrow> jstring \<Rightarrow> jstring \<Rightarrow> app" where
  "on_state pf s message =
     SetState (\<lambda>u. u\<lparr>ui_state := s\<rparr>)
     (addLog (js ''state '' @ [0x2192] @ js '' '' @ s @ (if message \<noteq> [] then js '' ('' @ message @ js '')'' else []))
     (seq (only_if (s = js ''connected'') refresh_connection)
     (seq (proxy_message pf message)
     (only_if (s = js ''disconnected'' \<or> s = js ''error'') (SetState clear_connection Done)))))"

text \<open>One tick of the interval.\<close>

definition poll :: app where
  "poll = try_catch
     (awaiting ReqStats (\<lambda>x. let s = the_counters x in
        SetState (\<lambda>u. u\<lparr>ui_up := uplink s, ui_down := downlink s\<rparr>)
        (Read (\<lambda>u. seq (only_if (0 < ui_prevDown u) (SetState (\<lambda>v. v\<lparr>ui_downRate := max 0 (downlink s - ui_prevDown u)\<rparr>) Done))
          (SetState (\<lambda>v. v\<lparr>ui_prevDown := downlink s\<rparr>) Done)))))
     (\<lambda>_. Done)"

subsection \<open>The handlers of the screen\<close>

definition quota_used :: "subscription_info \<Rightarrow> jsnum" where
  "quota_used info = js_add (coalesce (si_upload info) (Fin 0)) (coalesce (si_download info) (Fin 0))"

definition quota_text :: "subscription_info \<Rightarrow> jstring" where
  "quota_text info = js ''Quota: '' @ formatBytes (quota_used info)
     @ (case si_total info of None \<Rightarrow> [] | Some quota \<Rightarrow> js '' / '' @ formatBytes quota)"

definition loadSubscription :: "platform \<Rightarrow> dotenv \<Rightarrow> app" where
  "loadSubscription pf ev = try_catch
     (addLog (js ''Loading subscription'' @ [0x2026])
     (awaiting (ReqSubscription (SUB_URL ev)) (\<lambda>x.
        SetState (\<lambda>u. u\<lparr>ui_servers := the_servers x, ui_subInfo := the_info x\<rparr>)
        (addLog (js ''Loaded '' @ nat_digits (length (the_servers x)) @ js '' servers.'')
        (case the_info x of None \<Rightarrow> Done
         | Some info \<Rightarrow> (case si_expire info of None \<Rightarrow> addLog (quota_text info) Done
             | Some expire \<Rightarrow> asking ReqNow (\<lambda>now.
                 addLog (quota_text info @ js '' '' @ [0xB7] @ js '' until '' @ formatExpiry pf (the_clock now) expire) Done))))))) 
     (\<lambda>e. log_error pf ''Subscription error'' e Done)"

definition int_text :: "int \<Rightarrow> jstring" where
  "int_text n = num_to_string (Fin (of_int n))"

definition set_busy :: "screen \<Rightarrow> screen" where
  "set_busy u = u\<lparr>ui_olcrtcBusy := True\<rparr>"

definition clear_busy :: "screen \<Rightarrow> screen" where
  "clear_busy u = u\<lparr>ui_olcrtcBusy := False\<rparr>"

definition olcrtc_body :: "platform \<Rightarrow> dotenv \<Rightarrow> screen \<Rightarrow> bool \<Rightarrow> app" where
  "olcrtc_body pf ev view enabled =
     SetState (\<lambda>u. u\<lparr>ui_olcrtcOn := enabled\<rparr>)
     (try_catch
       (if enabled then
          addLog (js ''Ensuring VPN permission'' @ [0x2026])
          (awaiting ReqEnsurePermission (\<lambda>_.
          addLog (js ''Starting olcrtc (wbstream/vp8channel, vp8 fps='' @ nat_digits (ui_vp8Fps view) @ js '')'' @ [0x2026])
          (asking (ReqArmOlcrtc (Some (OLCRTC ev (ui_vp8Fps view)))) (\<lambda>_.
          awaiting (ReqStartOlcrtc (OLCRTC ev (ui_vp8Fps view))) (\<lambda>_.
          asking ReqOlcrtcPort (\<lambda>port.
          SetState (\<lambda>u. u\<lparr>ui_olcrtcPort := the_number port\<rparr>)
          (addLog (js ''olcrtc up '' @ [0x2014] @ js '' SOCKS5 on :'' @ int_text (the_number port)) Done)))))))
        else asking (ReqArmOlcrtc None) (\<lambda>_.
          awaiting ReqStopOlcrtc (\<lambda>_. SetState (\<lambda>u. u\<lparr>ui_olcrtcPort := 0\<rparr>) (addLog (js ''olcrtc stopped.'') Done))))
       (\<lambda>e. SetState (\<lambda>u. u\<lparr>ui_olcrtcOn := \<not> enabled\<rparr>) (log_error pf ''olcrtc error'' e Done)))"

definition toggleOlcrtc :: "platform \<Rightarrow> dotenv \<Rightarrow> screen \<Rightarrow> bool \<Rightarrow> app" where
  "toggleOlcrtc pf ev view enabled =
     (if ui_olcrtcBusy view then Done
      else SetState set_busy (finally_do (olcrtc_body pf ev view enabled) (SetState clear_busy Done)))"

text \<open>A template literal around a tag, which may have come from a JSON document.\<close>

definition template :: "json \<Rightarrow> (jstring \<Rightarrow> app) \<Rightarrow> app" where
  "template v k = (case to_text v of
     Inl _ \<Rightarrow> Throw (ThrownError (js ''Cannot convert object to primitive value'')) | Inr t \<Rightarrow> k t)"

definition quoted :: "jstring \<Rightarrow> jstring" where
  "quoted t = [0x22] @ t @ [0x22]"

definition connect_options :: "int \<Rightarrow> build_options" where
  "connect_options port = \<lparr>bo_proxyTag = None, bo_dns = None, bo_tunName = None, bo_mtu = None, bo_logLevel = None,
     bo_enableStats = None,
     bo_olcrtc = (if 0 < port then Some \<lparr>oc_socksPort = Fin (of_int port), oc_socksHost = None, oc_tag = None\<rparr> else None)\<rparr>"

definition app_connect :: "platform \<Rightarrow> server \<Rightarrow> app" where
  "app_connect pf server = try_catch
     (addLog (js ''Ensuring VPN permission'' @ [0x2026])
     (awaiting ReqEnsurePermission (\<lambda>_.
     asking ReqOlcrtcPort (\<lambda>port.
     template (ps_tag server) (\<lambda>tag.
     addLog (js ''Connecting to '' @ quoted tag
       @ (if 0 < the_number port then js '' via olcrtc :'' @ int_text (the_number port) else []) @ [0x2026])
     (SetState (\<lambda>u. u\<lparr>ui_activeTag := Some (ps_tag server)\<rparr>)
     (awaiting (ReqConnect server (connect_options (the_number port))) (\<lambda>_.
     template (ps_tag server) (\<lambda>tag. addLog (js ''Connected to '' @ quoted tag @ js ''.'') Done)))))))))
     (\<lambda>e. log_error pf ''Connect error'' e (SetState (\<lambda>u. u\<lparr>ui_activeTag := None\<rparr>) Done))"

definition app_connectOlcrtcOnly :: "platform \<Rightarrow> app" where
  "app_connectOlcrtcOnly pf = try_catch
     (asking ReqOlcrtcRunning (\<lambda>running.
      if \<not> the_flag running then addLog (js ''Turn on the olcrtc toggle first.'') Done
      else
        addLog (js ''Ensuring VPN permission'' @ [0x2026])
        (awaiting ReqEnsurePermission (\<lambda>_.
        addLog (js ''Connecting via olcrtc only (no VLESS)'' @ [0x2026])
        (SetState (\<lambda>u. u\<lparr>ui_activeTag := Some (str ''olcrtc-only'')\<rparr>)
        (awaiting ReqOlcrtcOnly (\<lambda>_. addLog (js ''Connected via olcrtc only.'') Done)))))))
     (\<lambda>e. log_error pf ''olcrtc-only connect error'' e (SetState (\<lambda>u. u\<lparr>ui_activeTag := None\<rparr>) Done))"

definition toggleKillSwitch :: "platform \<Rightarrow> bool \<Rightarrow> app" where
  "toggleKillSwitch pf enabled =
     SetState (\<lambda>u. u\<lparr>ui_killSwitch := enabled\<rparr>)
     (try_catch
       (awaiting (ReqSetKillSwitch enabled) (\<lambda>_.
          addLog (js ''Kill switch '' @ (if enabled then js ''ON'' else js ''OFF'') @ js ''.'') Done))
       (\<lambda>e. SetState (\<lambda>u. u\<lparr>ui_killSwitch := \<not> enabled\<rparr>) (log_error pf ''Kill switch error'' e Done)))"

definition byRaw :: "(server \<times> int option) list \<Rightarrow> jstring \<rightharpoonup> int option" where
  "byRaw ranked = fold (\<lambda>(s, l) m. m(ps_raw s \<mapsto> l)) ranked Map.empty"

definition set_pinging :: "screen \<Rightarrow> screen" where
  "set_pinging u = u\<lparr>ui_pinging := True\<rparr>"

definition clear_pinging :: "screen \<Rightarrow> screen" where
  "clear_pinging u = u\<lparr>ui_pinging := False\<rparr>"

definition ping_body :: "platform \<Rightarrow> screen \<Rightarrow> app" where
  "ping_body pf view =
     addLog (js ''Pinging '' @ nat_digits (length (ui_servers view)) @ js '' servers'' @ [0x2026])
     (try_catch
       (awaiting (ReqUrlTest (ui_servers view)) (\<lambda>x. let ranked = the_ranking x in
          SetState (\<lambda>u. u\<lparr>ui_servers := map fst ranked, ui_latencies := byRaw ranked\<rparr>)
          (addLog (js ''Ping done: '' @ nat_digits (length (filter (\<lambda>r. snd r \<noteq> None) ranked)) @ js ''/''
             @ nat_digits (length ranked) @ js '' reachable.'') Done)))
       (\<lambda>e. log_error pf ''Ping error'' e Done))"

definition pingAll :: "platform \<Rightarrow> screen \<Rightarrow> app" where
  "pingAll pf view =
     (if ui_servers view = [] \<or> ui_pinging view then Done
      else SetState set_pinging (finally_do (ping_body pf view) (SetState clear_pinging Done)))"

definition app_disconnect :: "platform \<Rightarrow> app" where
  "app_disconnect pf = try_catch
     (addLog (js ''Disconnecting'' @ [0x2026]) (awaiting ReqDisconnect (\<lambda>_. Done)))
     (\<lambda>e. log_error pf ''Disconnect error'' e Done)"

subsection \<open>What can be tapped\<close>

datatype tap = TapLoad | TapPing | TapDisconnect | TapKillSwitch bool | TapOlcrtc bool | TapFps nat
  | TapOlcrtcOnly | TapServer server | TapShare | TapClear

text \<open>The elements of the rendered screen and their \<open>disabled\<close> attributes.\<close>

fun enabled :: "screen \<Rightarrow> tap \<Rightarrow> bool" where
  "enabled view TapPing = (\<not> (ui_pinging view \<or> ui_servers view = []))"
| "enabled view (TapOlcrtc _) = (\<not> ui_olcrtcBusy view)"
| "enabled view (TapFps f) = (f \<in> {30, 60, 90})"
| "enabled view TapOlcrtcOnly = (\<not> (\<not> ui_olcrtcOn view \<or> ui_olcrtcPort view = 0))"
| "enabled view (TapServer s) = (s \<in> set (ui_servers view))"
| "enabled view TapShare = (ui_logs view \<noteq> [])"
| "enabled view _ = True"

fun handler :: "platform \<Rightarrow> dotenv \<Rightarrow> screen \<Rightarrow> tap \<Rightarrow> app" where
  "handler pf ev view TapLoad = loadSubscription pf ev"
| "handler pf ev view TapPing = pingAll pf view"
| "handler pf ev view TapDisconnect = app_disconnect pf"
| "handler pf ev view (TapKillSwitch on) = toggleKillSwitch pf on"
| "handler pf ev view (TapOlcrtc on) = toggleOlcrtc pf ev view on"
| "handler pf ev view (TapFps f) = SetState (\<lambda>u. u\<lparr>ui_vp8Fps := f\<rparr>) Done"
| "handler pf ev view TapOlcrtcOnly = app_connectOlcrtcOnly pf"
| "handler pf ev view (TapServer s) = app_connect pf s"
| "handler pf ev view TapShare = shareLogs pf view"
| "handler pf ev view TapClear = SetState (\<lambda>u. u\<lparr>ui_logs := []\<rparr>) Done"

end
