(* ===== verification/AppRun.thy ===== *)
theory AppRun
  imports App
begin

section \<open>The application running\<close>

text \<open>
  The component with all its handlers in flight.  A tap reaches the handler of the rendered screen and
  its updates are rendered before the next tap, as React does for such events; what an \<open>await\<close>
  continues with is rendered later, at any time.  State events, ticks of the interval, uncaught errors and answers come
  in any order.  The rest of the program is an environment: its synchronous calls, its answers, and
  its own steps.  Everything here holds for every environment.
\<close>

subsection \<open>Steps\<close>

record 'c environment =
  asked :: "(('c, request, answer) server_of_calls)"
  replies :: "request \<Rightarrow> 'c \<Rightarrow> thrown + answer \<Rightarrow> 'c \<Rightarrow> bool"
  moves :: "'c \<Rightarrow> 'c \<Rightarrow> bool"

datatype owner = OlcrtcToggle | PingButton | OtherHandler

fun owner_of :: "tap \<Rightarrow> owner" where
  "owner_of (TapOlcrtc _) = OlcrtcToggle"
| "owner_of TapPing = PingButton"
| "owner_of _ = OtherHandler"

record 'c app_world = "(screen, 'c, request, answer, owner) world" +
  polling :: bool

text \<open>A rendering, and the polling effect when the state shown has changed: its clean-up clears the
  interval, and a connected state starts one with the ref at zero.\<close>

definition reset_ref :: "bool \<Rightarrow> screen \<Rightarrow> screen" where
  "reset_ref c u = (if c then u\<lparr>ui_prevDown := 0\<rparr> else u)"

definition commit :: "'c app_world \<Rightarrow> 'c app_world" where
  "commit w = (let changed = ui_state (visible w) \<noteq> ui_state (current w); connected = ui_state (current w) = js ''connected'' in
     w\<lparr>visible := current w, current := reset_ref (changed \<and> connected) (current w),
       polling := if changed then connected else polling w\<rparr>)"

definition app_start :: "platform \<Rightarrow> 'c environment \<Rightarrow> 'c \<Rightarrow> 'c app_world" where
  "app_start pf env c = commit (spawn (asked env) None (mount pf)
     \<lparr>current = initial_screen, visible = initial_screen, outer = c, waiting = [], polling = False\<rparr>)"

inductive app_step :: "platform \<Rightarrow> dotenv \<Rightarrow> 'c environment \<Rightarrow> 'c app_world \<Rightarrow> 'c app_world \<Rightarrow> bool" for pf ev env where
  tapped: "enabled (visible w) t \<Longrightarrow>
    app_step pf ev env w (commit (spawn (asked env) (Some (owner_of t)) (handler pf ev (visible w) t) w))"
| settled: "i < length (waiting w) \<Longrightarrow> snd (waiting w ! i) = Await r k \<Longrightarrow> replies env r (outer w) x c \<Longrightarrow>
    app_step pf ev env w (resume (asked env) i x (w\<lparr>outer := c\<rparr>))"
| state_event: "app_step pf ev env w (spawn (asked env) None (on_state pf s message) w)"
| tick: "polling w \<Longrightarrow> app_step pf ev env w (spawn (asked env) None poll w)"
| uncaught: "app_step pf ev env w (spawn (asked env) None (on_uncaught pf isFatal e) w)"
| rejection: "app_step pf ev env w (spawn (asked env) None (on_rejection pf e) w)"
| rendered: "app_step pf ev env w (commit w)"
| elsewhere: "moves env (outer w) c \<Longrightarrow> app_step pf ev env w (w\<lparr>outer := c\<rparr>)"

inductive app_reachable :: "platform \<Rightarrow> dotenv \<Rightarrow> 'c environment \<Rightarrow> 'c app_world \<Rightarrow> bool" for pf ev env where
  start: "app_reachable pf ev env (app_start pf env c)"
| step: "app_reachable pf ev env w \<Longrightarrow> app_step pf ev env w w' \<Longrightarrow> app_reachable pf ev env w'"

inductive_cases app_stepE: "app_step pf ev env w w'"

subsection \<open>What the handlers leave alone\<close>

lemmas handler_defs = shareLogs_def mount_def refresh_connection_def proxy_message_def on_state_def poll_def
  loadSubscription_def app_connect_def app_connectOlcrtcOnly_def toggleKillSwitch_def app_disconnect_def
  log_error_def addLog_def template_def

lemma field_frames:
  "ui_olcrtcBusy (push_log m u) = ui_olcrtcBusy u" "ui_pinging (push_log m u) = ui_pinging u"
  "ui_olcrtcBusy (clear_connection u) = ui_olcrtcBusy u" "ui_pinging (clear_connection u) = ui_pinging u"
  "ui_olcrtcBusy (set_pinging u) = ui_olcrtcBusy u" "ui_olcrtcBusy (clear_pinging u) = ui_olcrtcBusy u"
  "ui_pinging (set_busy u) = ui_pinging u" "ui_pinging (clear_busy u) = ui_pinging u"
  "ui_olcrtcBusy (reset_ref b u) = ui_olcrtcBusy u" "ui_pinging (reset_ref b u) = ui_pinging u"
  by (simp_all add: push_log_def clear_connection_def set_pinging_def clear_pinging_def set_busy_def
      clear_busy_def reset_ref_def)

lemmas frame_rules = frames_combine field_frames Let_def

lemma frames_olcrtc_body: "frames ui_olcrtcBusy (olcrtc_body pf ev view on)" "frames ui_pinging (olcrtc_body pf ev view on)"
  by (simp_all add: olcrtc_body_def addLog_def log_error_def frame_rules
      del: try_catch.simps seq.simps finally_do.simps js_Cons)

lemma frames_ping_body: "frames ui_olcrtcBusy (ping_body pf view)" "frames ui_pinging (ping_body pf view)"
  by (simp_all add: ping_body_def addLog_def log_error_def frame_rules
      del: try_catch.simps seq.simps finally_do.simps js_Cons)

lemma frames_poll: "frames ui_olcrtcBusy poll" "frames ui_pinging poll"
  by (simp_all add: poll_def frame_rules
      del: try_catch.simps seq.simps finally_do.simps js_Cons)

lemma frames_on_state: "frames ui_olcrtcBusy (on_state pf s m)" "frames ui_pinging (on_state pf s m)"
  by (simp_all add: on_state_def refresh_connection_def proxy_message_def addLog_def log_error_def frame_rules
      del: try_catch.simps seq.simps finally_do.simps js_Cons)

lemma frames_errors:
  "frames ui_olcrtcBusy (on_uncaught pf f e)" "frames ui_pinging (on_uncaught pf f e)"
  "frames ui_olcrtcBusy (on_rejection pf e)" "frames ui_pinging (on_rejection pf e)"
  by (simp_all add: on_uncaught_def on_rejection_def addLog_def log_error_def frame_rules del: js_Cons)

lemma frames_mount: "frames ui_olcrtcBusy (mount pf)" "frames ui_pinging (mount pf)"
  by (simp_all add: mount_def addLog_def log_error_def frame_rules
      del: try_catch.simps seq.simps finally_do.simps js_Cons)

lemma frames_handlers:
  "owner_of t \<noteq> OlcrtcToggle \<Longrightarrow> frames ui_olcrtcBusy (handler pf ev view t)"
  "owner_of t \<noteq> PingButton \<Longrightarrow> frames ui_pinging (handler pf ev view t)"
proof -
  show "owner_of t \<noteq> OlcrtcToggle \<Longrightarrow> frames ui_olcrtcBusy (handler pf ev view t)"
    by (cases t) (simp_all add: handler_defs pingAll_def frames_ping_body frame_rules split: option.split sum.split
        del: try_catch.simps seq.simps finally_do.simps js_Cons)
  show "owner_of t \<noteq> PingButton \<Longrightarrow> frames ui_pinging (handler pf ev view t)"
    by (cases t) (simp_all add: handler_defs toggleOlcrtc_def frames_olcrtc_body frame_rules split: option.split sum.split
        del: try_catch.simps seq.simps finally_do.simps js_Cons)
qed

subsection \<open>The two handlers that guard themselves\<close>

text \<open>What a guarded handler of this application looks like; everything else leaves its flag alone.\<close>

locale app_guard = guarded_handler flag acquire release me
  for flag :: "screen \<Rightarrow> bool" and acquire release :: "screen \<Rightarrow> screen" and me :: owner +
  assumes own: "owner_of t = me \<Longrightarrow> enabled view t \<Longrightarrow> \<not> flag view \<and>
      (\<exists>body. handler pf ev view t = SetState acquire (finally_do body (SetState release Done)) \<and> frames flag body)"
    and other_handlers: "owner_of t \<noteq> me \<Longrightarrow> frames flag (handler pf ev view t)"
    and other_programs: "frames flag (mount pf)" "frames flag (on_state pf s m)" "frames flag poll"
      "frames flag (on_uncaught pf fatal e)" "frames flag (on_rejection pf e)"
    and not_by_ref: "flag (reset_ref b u) = flag u"
    and initially: "\<not> flag initial_screen"
begin

lemma commit_ok: "guard_ok flag release me (w\<lparr>visible := current w\<rparr>) \<Longrightarrow> guard_ok flag release me (commit w)"
  by (simp add: guard_ok_def in_flight_def commit_def Let_def not_by_ref)

lemma render_ok: "guard_ok flag release me w \<Longrightarrow> guard_ok flag release me (commit w)"
  by (rule commit_ok) (auto simp: guard_ok_def in_flight_def)

lemma outer_ok: "guard_ok flag release me w \<Longrightarrow> guard_ok flag release me (w\<lparr>outer := c\<rparr>)"
  by (simp add: guard_ok_def in_flight_def)

lemma step_ok:
  assumes "app_step pf ev env w w'" "guard_ok flag release me w"
  shows "guard_ok flag release me w'"
  using assms(1)
proof (cases rule: app_step.cases)
  case (tapped t)
  show ?thesis
  proof (cases "owner_of t = me")
    case True
    obtain body where body: "\<not> flag (visible w)" "frames flag body"
      "handler pf ev (visible w) t = SetState acquire (finally_do body (SetState release Done))"
      using own [OF True tapped(2)] by blast
    show ?thesis
      unfolding tapped(1) body(3) True by (rule commit_ok) (rule spawn_me [OF assms(2) body(1,2)])
  next
    case False
    show ?thesis
      unfolding tapped(1) by (intro render_ok spawn_other [OF assms(2)] other_handlers) (use False in simp_all)
  qed
next
  case (settled i r k x c)
  show ?thesis unfolding settled(1) by (rule resume_any [OF outer_ok [OF assms(2)]]) (use settled(2) in simp)
next
  case (state_event s message)
  then show ?thesis using spawn_other [OF assms(2) other_programs(2)] by simp
next
  case tick
  then show ?thesis using spawn_other [OF assms(2) other_programs(3)] by simp
next
  case (uncaught fatal e)
  then show ?thesis using spawn_other [OF assms(2) other_programs(4)] by simp
next
  case (rejection e)
  then show ?thesis using spawn_other [OF assms(2) other_programs(5)] by simp
next
  case rendered
  then show ?thesis using render_ok [OF assms(2)] by simp
next
  case (elsewhere c)
  then show ?thesis using outer_ok [OF assms(2)] by simp
qed

lemma start_ok: "guard_ok flag release me (app_start pf env c)"
  unfolding app_start_def
  by (intro render_ok spawn_other other_programs) (simp_all add: guard_ok_def in_flight_def initially)

lemma reachable_ok: "app_reachable pf ev env w \<Longrightarrow> guard_ok flag release me w"
  by (induction rule: app_reachable.induct) (auto intro: start_ok step_ok)

lemma exclusive: "app_reachable pf ev env w \<Longrightarrow> in_flight me w = (if flag (current w) then 1 else 0)"
  using reachable_ok unfolding guard_ok_def by blast

end

interpretation olcrtc_guard: app_guard ui_olcrtcBusy set_busy clear_busy OlcrtcToggle
proof unfold_locales
  fix t view pf ev
  assume "owner_of t = OlcrtcToggle" "enabled view t"
  then show "\<not> ui_olcrtcBusy view \<and>
      (\<exists>body. handler pf ev view t = SetState set_busy (finally_do body (SetState clear_busy Done)) \<and> frames ui_olcrtcBusy body)"
    by (cases t) (auto simp: toggleOlcrtc_def intro: frames_olcrtc_body)
qed (simp_all add: set_busy_def clear_busy_def frames_handlers frames_mount frames_on_state frames_poll frames_errors field_frames
    initial_screen_def)

interpretation ping_guard: app_guard ui_pinging set_pinging clear_pinging PingButton
proof unfold_locales
  fix t view pf ev
  assume "owner_of t = PingButton" "enabled view t"
  then show "\<not> ui_pinging view \<and>
      (\<exists>body. handler pf ev view t = SetState set_pinging (finally_do body (SetState clear_pinging Done)) \<and> frames ui_pinging body)"
    by (cases t) (auto simp: pingAll_def intro: frames_ping_body)
qed (simp_all add: set_pinging_def clear_pinging_def frames_handlers frames_mount frames_on_state frames_poll frames_errors field_frames
    initial_screen_def)

subsection \<open>What holds of every screen\<close>

definition screen_ok :: "screen \<Rightarrow> bool" where
  "screen_ok u \<longleftrightarrow> length (ui_logs u) \<le> 81 \<and> ui_vp8Fps u \<in> {30, 60, 90} \<and> 0 \<le> ui_downRate u"

lemma screen_ok_updates [simp]:
  "screen_ok u \<Longrightarrow> screen_ok (push_log m u)" "screen_ok (set_busy u) = screen_ok u" "screen_ok (clear_busy u) = screen_ok u"
  "screen_ok (set_pinging u) = screen_ok u" "screen_ok (clear_pinging u) = screen_ok u"
  "screen_ok (clear_connection u) = screen_ok u" "screen_ok (reset_ref b u) = screen_ok u"
  by (auto simp: screen_ok_def push_log_def set_busy_def clear_busy_def set_pinging_def clear_pinging_def
      clear_connection_def reset_ref_def)

lemma screen_ok_fields [simp]:
  "screen_ok (ui_servers_update f u) = screen_ok u" "screen_ok (ui_subInfo_update f2 u) = screen_ok u"
  "screen_ok (ui_activeTag_update f3 u) = screen_ok u" "screen_ok (ui_state_update f4 u) = screen_ok u"
  "screen_ok (ui_proxyStatus_update f5 u) = screen_ok u" "screen_ok (ui_conn_update f3 u) = screen_ok u"
  "screen_ok (ui_up_update g u) = screen_ok u" "screen_ok (ui_down_update g u) = screen_ok u"
  "screen_ok (ui_version_update f4 u) = screen_ok u" "screen_ok (ui_killSwitch_update b u) = screen_ok u"
  "screen_ok (ui_latencies_update l u) = screen_ok u" "screen_ok (ui_olcrtcOn_update b u) = screen_ok u"
  "screen_ok (ui_olcrtcPort_update g u) = screen_ok u" "screen_ok (ui_prevDown_update g u) = screen_ok u"
  by (simp_all add: screen_ok_def)

lemma screen_ok_bounded [simp]:
  "screen_ok u \<Longrightarrow> 0 \<le> r \<Longrightarrow> screen_ok (u\<lparr>ui_downRate := r\<rparr>)"
  "screen_ok u \<Longrightarrow> f \<in> {30, 60, 90} \<Longrightarrow> screen_ok (u\<lparr>ui_vp8Fps := f\<rparr>)"
  "screen_ok u \<Longrightarrow> screen_ok (u\<lparr>ui_logs := []\<rparr>)"
  by (simp_all add: screen_ok_def)

lemma steady_programs:
  "steady screen_ok (mount pf)" "steady screen_ok (on_state pf s m)" "steady screen_ok poll"
  "steady screen_ok (on_uncaught pf fatal e)" "steady screen_ok (on_rejection pf e)"
  by (simp_all add: on_uncaught_def on_rejection_def mount_def on_state_def refresh_connection_def proxy_message_def poll_def addLog_def log_error_def
      steady_combine Let_def del: try_catch.simps seq.simps finally_do.simps js_Cons)

lemma steady_handlers:
  assumes "enabled view t"
  shows "steady screen_ok (handler pf ev view t)"
  using assms
  by (cases t) (simp_all add: handler_defs toggleOlcrtc_def olcrtc_body_def pingAll_def ping_body_def steady_combine Let_def
      split: option.split sum.split del: try_catch.simps seq.simps finally_do.simps js_Cons)

lemma steady_mounted:
  "pool_steady screen_ok (spawn ask None (mount pf)
     (\<lparr>current = initial_screen, visible = initial_screen, outer = c, waiting = [], polling = False\<rparr> :: 'c app_world))"
  by (rule pool_steady_spawn [OF _ steady_programs(1)]) (simp add: pool_steady_def screen_ok_def initial_screen_def)

lemma steady_commit: "pool_steady screen_ok w \<Longrightarrow> pool_steady screen_ok (commit w)"
  by (simp add: commit_def Let_def pool_steady_def)

lemma visible_commit: "pool_steady screen_ok w \<Longrightarrow> screen_ok (visible (commit w))"
  by (simp add: commit_def Let_def pool_steady_def)

lemma steady_step:
  assumes "app_step pf ev env w w'" "pool_steady screen_ok w"
  shows "pool_steady screen_ok w'"
  using assms(1)
proof (cases rule: app_step.cases)
  case (tapped t)
  show ?thesis unfolding tapped(1)
    by (intro steady_commit pool_steady_spawn [OF assms(2)] steady_handlers) (fact tapped(2))
next
  case (settled i r k x c)
  have "pool_steady screen_ok (w\<lparr>outer := c\<rparr>)" using assms(2) by (simp add: pool_steady_def)
  then show ?thesis unfolding settled(1) by (rule pool_steady_resume) (use settled(2) in simp)
next
  case (elsewhere c)
  then show ?thesis using assms(2) by (simp add: pool_steady_def)
qed (use steady_commit pool_steady_spawn [OF assms(2)] steady_programs assms(2) in simp_all)

lemma visible_step:
  assumes "app_step pf ev env w w'" "pool_steady screen_ok w" "screen_ok (visible w)"
  shows "screen_ok (visible w')"
  using assms(1)
proof (cases rule: app_step.cases)
  case (tapped t)
  have "pool_steady screen_ok (spawn (asked env) (Some (owner_of t)) (handler pf ev (visible w) t) w)"
    using tapped(2) by (intro pool_steady_spawn [OF assms(2)] steady_handlers)
  then show ?thesis unfolding tapped(1) by (rule visible_commit)
next
  case (settled i r k x c)
  have "visible (resume ask i x w) = visible w" for ask and w :: "'a app_world"
    by (simp add: resume_def split: prod.split prog.split)
  with assms(3) show ?thesis by (simp add: settled(1))
next
  case rendered
  then show ?thesis using assms(2) by (simp add: commit_def Let_def pool_steady_def)
qed (use assms(3) in \<open>simp_all add: spawn_def split: prod.split\<close>)

text \<open>The screen shown and the state behind it, whatever happened.\<close>

lemma reachable_screens:
  "app_reachable pf ev env w \<Longrightarrow> pool_steady screen_ok w \<and> screen_ok (visible w)"
proof (induction rule: app_reachable.induct)
  case (start c)
  show ?case
    unfolding app_start_def
    by (rule conjI, rule steady_commit, rule steady_mounted, rule visible_commit, rule steady_mounted)
next
  case (step w w')
  then show ?case using steady_step visible_step by blast
qed

subsection \<open>Handlers end\<close>

text \<open>What waits is waiting for an answer.\<close>

definition is_await :: "('s, 'r, 'a) prog \<Rightarrow> bool" where
  "is_await p \<longleftrightarrow> (\<exists>r k. p = Await r k)"

lemma run_await:
  "run_on ask p s = (s', m, ds) \<Longrightarrow> q \<in> set_option m \<union> set ds \<Longrightarrow> is_await q"
proof (induction p arbitrary: s s' m ds)
  case (Fork b p)
  from Fork.prems(1) obtain s1 m1 d1 d2 where r: "run_on ask b s = (s1, m1, d1)" "run_on ask p s1 = (s', m, d2)"
    "set ds = set_option m1 \<union> set d1 \<union> set d2" by (rule run_Fork)
  show ?case using Fork.IH(1) [OF r(1)] Fork.IH(2) [OF r(2)] Fork.prems(2) unfolding r(3) by blast
next
  case (SetState f p)
  then show ?case by (metis run_on.simps(3))
next
  case (Read k)
  then show ?case by (metis rangeI run_on.simps(4))
next
  case (Ask r k)
  then show ?case by (metis rangeI run_on.simps(5))
qed (auto simp: is_await_def)

definition all_await :: "'c app_world \<Rightarrow> bool" where
  "all_await w \<longleftrightarrow> (\<forall>x \<in> set (waiting w). is_await (snd x))"

lemma all_await_spawn: "all_await w \<Longrightarrow> all_await (spawn ask l p w)"
proof -
  assume w: "all_await w"
  obtain s c m ds where run: "run_on ask p (current w, outer w) = ((s, c), m, ds)" by (metis prod.exhaust)
  from run_await [OF run] w show ?thesis
    by (auto simp: all_await_def spawn_def run owned_def split: option.splits)
qed

lemma all_await_resume: "all_await w \<Longrightarrow> all_await (resume ask i x w)"
proof -
  assume w: "all_await w"
  show ?thesis
  proof (cases "\<exists>l r k. waiting w ! i = (l, Await r k)")
    case True
    then obtain l r k where i: "waiting w ! i = (l, Await r k)" by blast
    obtain s c m ds where run: "run_on ask (k x) (current w, outer w) = ((s, c), m, ds)" by (metis prod.exhaust)
    from run_await [OF run] w show ?thesis
      by (auto simp: all_await_def resume_def i run owned_def split: option.splits dest: in_set_takeD in_set_dropD)
  next
    case False
    then have "resume ask i x w = w" by (auto simp: resume_def split: prod.splits prog.splits)
    with w show ?thesis by simp
  qed
qed

lemma all_await_commit: "all_await (commit w) = all_await w"
  by (simp add: all_await_def commit_def Let_def)

lemma reachable_await: "app_reachable pf ev env w \<Longrightarrow> all_await w"
proof (induction rule: app_reachable.induct)
  case (start c)
  show ?case unfolding app_start_def all_await_commit by (rule all_await_spawn) (simp add: all_await_def)
next
  case (step w w')
  from step(2) show ?case
  proof (cases rule: app_step.cases)
    case (settled i r k x c)
    have "all_await (w\<lparr>outer := c\<rparr>)" using step.IH by (simp add: all_await_def)
    then show ?thesis unfolding settled(1) by (rule all_await_resume)
  next
    case (elsewhere c)
    then show ?thesis using step.IH by (simp add: all_await_def)
  qed (use step.IH in \<open>auto simp: all_await_commit intro: all_await_spawn\<close>)
qed

text \<open>The step that answers one request.\<close>

definition answered :: "'c environment \<Rightarrow> 'c app_world \<Rightarrow> 'c app_world \<Rightarrow> bool" where
  "answered env w w' \<longleftrightarrow> (\<exists>i r k x c. i < length (waiting w) \<and> snd (waiting w ! i) = Await r k
     \<and> replies env r (outer w) x c \<and> w' = resume (asked env) i x (w\<lparr>outer := c\<rparr>))"

lemma answered_step: "answered env w w' \<Longrightarrow> app_step pf ev env w w'"
  by (auto simp: answered_def intro: app_step.settled)

lemma answered_less: "answered env w w' \<Longrightarrow> (left_to_do w', left_to_do w) \<in> less_to_do"
proof -
  assume "answered env w w'"
  then obtain i r k x c where a: "i < length (waiting w)" "snd (waiting w ! i) = Await r k"
    "w' = resume (asked env) i x (w\<lparr>outer := c\<rparr>)" unfolding answered_def by blast
  have "(left_to_do w', left_to_do (w\<lparr>outer := c\<rparr>)) \<in> less_to_do"
    unfolding a(3) by (rule resume_less [where r = r and k = k]) (use a in simp_all)
  then show ?thesis by (simp add: left_to_do_def)
qed

lemma answered_wf: "wfP (\<lambda>w' w. answered env w w')"
  unfolding wfp_def
  by (rule wf_subset [OF wf_inv_image [OF wf_less_to_do, of left_to_do]]) (auto simp: answered_less)

subsection \<open>Properties\<close>

text \<open>
  C9: whatever is tapped and in whatever order the answers come, at most one run of the olcrtc toggle and
  at most one ping is in flight, and the flag that disables its button is set exactly while one is.
\<close>

theorem handlers_exclusive:
  assumes "app_reachable pf ev env w"
  shows "in_flight OlcrtcToggle w = (if ui_olcrtcBusy (current w) then 1 else 0)
    \<and> in_flight PingButton w = (if ui_pinging (current w) then 1 else 0)"
  using olcrtc_guard.exclusive [OF assms] ping_guard.exclusive [OF assms] by blast


text \<open>
  C37: every screen that is ever shown has at most 81 log lines, a frame rate its buttons offer and a
  download rate that is not negative.
\<close>

theorem screens_bounded:
  assumes "app_reachable pf ev env w"
  shows "length (ui_logs (visible w)) \<le> 81 \<and> ui_vp8Fps (visible w) \<in> {30, 60, 90} \<and> 0 \<le> ui_downRate (visible w)"
  using reachable_screens [OF assms] unfolding screen_ok_def by blast

end
