(* ===== verification/AppView.thy ===== *)
theory AppView
  imports AppRun
begin

section \<open>The screen of the example application\<close>

text \<open>
  The texts the component \<open>App\<close> renders from its state (\<open>example/App.tsx\<close>, the value it returns); styles
  and layout are left out.  Line breaks between JSX expressions add no characters.
\<close>

definition middot :: jstring where
  "middot = js '' '' @ [0xB7] @ js '' ''"

definition status_line :: "screen \<Rightarrow> jstring" where
  "status_line u = (if ui_version u \<noteq> [] then js ''xray '' @ ui_version u @ middot else []) @ ui_state u
     @ (case ui_proxyStatus u of Some ProxyConnecting \<Rightarrow> middot @ js ''establishing bypass'' @ [0x2026]
        | Some ProxyReady \<Rightarrow> middot @ js ''bypass ready'' | Some ProxyFailed \<Rightarrow> middot @ js ''bypass failed'' | None \<Rightarrow> [])"

definition traffic_line :: "screen \<Rightarrow> jstring" where
  "traffic_line u = [0x2191] @ js '' '' @ formatBytes (Fin (of_int (ui_up u))) @ js ''   '' @ [0x2193] @ js '' ''
     @ formatBytes (Fin (of_int (ui_down u)))"

definition rate_line :: "screen \<Rightarrow> jstring" where
  "rate_line u = [0x25BC] @ js '' '' @ formatBytes (Fin (of_int (ui_downRate u))) @ js ''/s''"

text \<open>\<open>!!x\<close> of a number that may be \<open>undefined\<close>.\<close>

definition number_set :: "jsnum option \<Rightarrow> bool" where
  "number_set x \<longleftrightarrow> x \<noteq> None \<and> x \<noteq> Some (Fin 0) \<and> x \<noteq> Some NaN"

definition quota_row :: "subscription_info \<Rightarrow> jstring option" where
  "quota_row info = (if si_upload info \<noteq> None \<or> si_download info \<noteq> None \<or> si_total info \<noteq> None
     then Some (js ''Quota: '' @ formatBytes (quota_used info)
       @ (if number_set (si_total info) then js '' / '' @ formatBytes (the (si_total info)) else js '' / '' @ [0x221E]))
     else None)"

definition expires_row :: "platform \<Rightarrow> jsnum \<Rightarrow> subscription_info \<Rightarrow> jstring option" where
  "expires_row pf now info = (if number_set (si_expire info)
     then Some (js ''Expires: '' @ formatExpiry pf now (the (si_expire info))) else None)"

definition ping_title :: "screen \<Rightarrow> jstring" where
  "ping_title u = (if ui_pinging u then js ''Pinging'' @ [0x2026] else js ''Ping all'')"

definition olcrtc_label :: "screen \<Rightarrow> jstring" where
  "olcrtc_label u = js ''olcrtc bypass (WebRTC side-channel)''
     @ (if ui_olcrtcOn u \<and> 0 < ui_olcrtcPort u then middot @ js ''SOCKS :'' @ int_text (ui_olcrtcPort u) else [])"

definition latency_text :: "int option \<Rightarrow> jstring" where
  "latency_text l = (case l of None \<Rightarrow> [0xD7] | Some ms \<Rightarrow> int_text ms @ js '' ms'')"

definition row_latency :: "screen \<Rightarrow> server \<Rightarrow> jstring option" where
  "row_latency u s = map_option latency_text (ui_latencies u (ps_raw s))"

definition row_active :: "screen \<Rightarrow> server \<Rightarrow> bool" where
  "row_active u s \<longleftrightarrow> ui_activeTag u = Some (ps_tag s)"

definition chip_active :: "screen \<Rightarrow> nat \<Rightarrow> bool" where
  "chip_active u f \<longleftrightarrow> ui_vp8Fps u = f"

definition latency_dead :: "screen \<Rightarrow> server \<Rightarrow> bool" where
  "latency_dead u s \<longleftrightarrow> ui_latencies u (ps_raw s) = Some None"

definition hint :: "screen \<Rightarrow> jstring option" where
  "hint u = (if length (ui_servers u) = 0 then Some (js ''Tap '' @ quoted (js ''Load subscription'') @ js '' to fetch servers.'') else None)"

text \<open>A JSON value as a child of an element: React leaves out \<open>null\<close> and booleans and throws on objects.\<close>

fun child :: "json \<Rightarrow> jstring option" where
  "child JNull = Some []"
| "child (JBool b) = Some []"
| "child (JNum x) = Some (num_to_string x)"
| "child (JStr t) = Some t"
| "child (JArr vs) = map_option concat (those (map child vs))"
| "child (JObj kvs) = None"

definition row_title :: "server \<Rightarrow> jstring option" where
  "row_title s = child (ps_tag s)"

definition row_meta :: "server \<Rightarrow> jstring option" where
  "row_meta s = (case (child (ps_network s), child (ps_address s)) of
     (Some network, Some address) \<Rightarrow> Some (xrayProtocol (ps_protocol s) @ js ''/'' @ network @ js ''/'' @ ps_security s
       @ middot @ address @ js '':'' @ num_to_string (ps_port s))
   | _ \<Rightarrow> None)"

text \<open>
  The line of the connection, for the value \<open>currentConnection\<close> gave; \<open>None\<close> when rendering throws.
  \<open>to_upper\<close> is \<open>toUpperCase\<close> on ASCII text, which the names of the protocols are.
\<close>

definition to_upper :: "jstring \<Rightarrow> jstring" where
  "to_upper t = map (\<lambda>c. if 0x61 \<le> c \<and> c \<le> 0x7A then c - 0x20 else c) t"

definition prop_text :: "string \<Rightarrow> json \<Rightarrow> jstring option" where
  "prop_text k v = (case field k v of None \<Rightarrow> Some (js ''undefined'')
     | Some x \<Rightarrow> (case to_text x of Inl _ \<Rightarrow> None | Inr t \<Rightarrow> Some t))"

definition prop_truthy :: "string \<Rightarrow> json \<Rightarrow> json option" where
  "prop_truthy k v = (case field k v of Some x \<Rightarrow> if truthy x then Some x else None | None \<Rightarrow> None)"

definition conn_name :: "json \<Rightarrow> jstring option" where
  "conn_name conn = (if field ''mode'' conn = Some (str ''olcrtc-only'') then Some (js ''olcrtc-only'')
     else case prop_truthy ''server'' conn of
       Some s \<Rightarrow> (case (field ''protocol'' s, prop_text ''tag'' s) of
           (Some (JStr p), Some tag) \<Rightarrow> Some (to_upper p @ middot @ tag) | _ \<Rightarrow> None)
     | None \<Rightarrow> (case field ''mode'' conn of Some m \<Rightarrow> child m | None \<Rightarrow> Some []))"

definition conn_bypass :: "json \<Rightarrow> jstring option" where
  "conn_bypass conn = (case prop_truthy ''olcrtc'' conn of
       Some meta \<Rightarrow> (case (prop_text ''carrier'' meta, prop_text ''transport'' meta) of
           (Some carrier, Some transport) \<Rightarrow> Some (middot @ js ''olcrtc('' @ carrier @ js ''/'' @ transport @ js '')'') | _ \<Rightarrow> None)
     | None \<Rightarrow> Some [])"

definition conn_line :: "json \<Rightarrow> jstring option" where
  "conn_line conn = (case (conn_name conn, conn_bypass conn) of (Some name, Some bypass) \<Rightarrow> Some (name @ bypass) | _ \<Rightarrow> None)"

definition log_title :: "screen \<Rightarrow> jstring" where
  "log_title u = js ''Logs ('' @ nat_digits (length (ui_logs u)) @ js '')''"

definition log_text :: "screen \<Rightarrow> jstring" where
  "log_text u = join [LF] (ui_logs u)"

subsection \<open>After a ping\<close>

lemma byRaw_lookup:
  "(s, l) \<in> set rs \<Longrightarrow> \<forall>(s', l') \<in> set rs. ps_raw s' = ps_raw s \<longrightarrow> l' = l \<Longrightarrow> byRaw rs (ps_raw s) = Some l"
proof (induction rs rule: rev_induct)
  case (snoc x rs)
  obtain s' l' where x: "x = (s', l')" by (cases x)
  show ?case
  proof (cases "ps_raw s' = ps_raw s")
    case True
    then show ?thesis using snoc.prems by (simp add: byRaw_def x)
  next
    case False
    then have "(s, l) \<in> set rs" using snoc.prems(1) by (auto simp: x)
    then have "byRaw rs (ps_raw s) = Some l" using snoc by simp
    with False show ?thesis by (simp add: byRaw_def x)
  qed
qed simp

definition measured :: "(server \<Rightarrow> 'u) \<Rightarrow> ('u \<Rightarrow> fetch_run) \<Rightarrow> server \<Rightarrow> int option" where
  "measured probeUrl net s = measure_latency 3000 (net (probeUrl s))"

lemma pool_ranking:
  assumes "pool_reachable (probe_of probeUrl net None ss) (length ss) c p" "idle p"
  shows "urlTest_result ss p = sort_key (\<lambda>r. latency_of (snd r)) (map (\<lambda>s. (s, measured probeUrl net s)) ss)"
  using urlTest_result_eq [OF assms] by (simp add: zip_probes measured_def coalesce_def)

text \<open>
  C21: a tap on the ping button shows every server with its own latency: whatever else has changed in
  between and in whatever order the probes ended, once the test resolves the button is enabled again,
  the list is a permutation of the one pinged with the fastest first and the unreachable last, and the
  row of each server has the latency that was measured for it, provided their links are different.
\<close>

theorem ping_shows_latencies:
  assumes "ui_servers view \<noteq> []" "\<not> ui_pinging view"
    and "pool_reachable (probe_of probeUrl net None (ui_servers view)) (length (ui_servers view)) None p" "idle p"
  shows "\<exists>u k. run_on ask (pingAll pf view) (u0, c0) = ((u, c0), Some (Await (ReqUrlTest (ui_servers view)) k), []) \<and> ui_pinging u
    \<and> (\<forall>u1 c1. \<exists>u2. run_on ask (k (Inr (Ranking (urlTest_result (ui_servers view) p)))) (u1, c1) = ((u2, c1), None, [])
      \<and> \<not> ui_pinging u2 \<and> mset (ui_servers u2) = mset (ui_servers view)
      \<and> sorted (map (\<lambda>s. latency_of (measured probeUrl net s)) (ui_servers u2))
      \<and> (inj_on ps_raw (set (ui_servers view)) \<longrightarrow>
          (\<forall>s \<in> set (ui_servers u2). row_latency u2 s = Some (latency_text (measured probeUrl net s)))))"
proof -
  let ?m = "measured probeUrl net" and ?ss = "ui_servers view"
  define rs where "rs = urlTest_result ?ss p"
  define k where "k = (\<lambda>x. finally_do (try_catch (or_throw (\<lambda>x. SetState (\<lambda>u. u\<lparr>ui_servers := map fst (the_ranking x), ui_latencies := byRaw (the_ranking x)\<rparr>)
          (addLog (js ''Ping done: '' @ nat_digits (length (filter (\<lambda>r. snd r \<noteq> None) (the_ranking x))) @ js ''/''
             @ nat_digits (length (the_ranking x)) @ js '' reachable.'') Done)) x) (\<lambda>e. log_error pf ''Ping error'' e Done)) (SetState clear_pinging Done))"
  have rs: "rs = sort_key (\<lambda>r. latency_of (snd r)) (map (\<lambda>s. (s, ?m s)) ?ss)"
    unfolding rs_def by (rule pool_ranking [OF assms(3,4)])
  have set: "set rs = (\<lambda>s. (s, ?m s)) ` set ?ss" by (simp add: rs)
  have snd: "map (\<lambda>s. latency_of (?m s)) (map fst rs) = map (\<lambda>r. latency_of (snd r)) rs"
    using set by (auto simp: image_iff)
  have a: "\<exists>u. run_on ask (pingAll pf view) (u0, c0) = ((u, c0), Some (Await (ReqUrlTest ?ss) k), []) \<and> ui_pinging u"
    using assms(1,2) by (simp add: pingAll_def ping_body_def addLog_def k_def Let_def push_log_def set_pinging_def)
  have b: "\<exists>u2. run_on ask (k (Inr (Ranking rs))) (u1, c1) = ((u2, c1), None, []) \<and> \<not> ui_pinging u2 \<and> mset (ui_servers u2) = mset ?ss
      \<and> sorted (map (\<lambda>s. latency_of (?m s)) (ui_servers u2))
      \<and> (inj_on ps_raw (set ?ss) \<longrightarrow> (\<forall>s \<in> set (ui_servers u2). row_latency u2 s = Some (latency_text (?m s))))" for u1 c1
  proof -
    obtain u2 where u2: "run_on ask (k (Inr (Ranking rs))) (u1, c1) = ((u2, c1), None, [])" "\<not> ui_pinging u2"
      "ui_servers u2 = map fst rs" "ui_latencies u2 = byRaw rs"
      by (simp add: k_def addLog_def push_log_def clear_pinging_def)
    have "mset (map fst rs) = image_mset fst (image_mset (\<lambda>s. (s, ?m s)) (mset ?ss))" by (simp add: rs)
    then have "mset (map fst rs) = mset ?ss" by (simp add: image_mset.compositionality o_def)
    moreover have "sorted (map (\<lambda>r. latency_of (snd r)) rs)" by (simp add: rs)
    moreover have "row_latency u2 s = Some (latency_text (?m s))" if "inj_on ps_raw (set ?ss)" "s \<in> set (map fst rs)" for s
    proof -
      have s: "s \<in> set ?ss" using that(2) set by force
      have "byRaw rs (ps_raw s) = Some (?m s)"
        by (rule byRaw_lookup) (use s that(1) set in \<open>auto dest: inj_onD\<close>)
      then show ?thesis by (simp add: row_latency_def u2(4))
    qed
    ultimately show ?thesis using u2 snd by metis
  qed
  show ?thesis using a b unfolding rs_def by blast
qed

subsection \<open>No expiry\<close>

text \<open>A quota without an end, by the convention of the view an \<open>expire\<close> of zero: the view leaves the row
  out, and the log of the same subscription says that it ended in 1970.\<close>

lemma zero_expiry_logged:
  assumes "si_expire info = Some (Fin 0)"
  shows "expires_row pf now info = None
    \<and> (\<exists>u k. run_on ask (loadSubscription pf ev) (u0, c0) = ((u, c0), Some (Await (ReqSubscription (SUB_URL ev)) k), [])
      \<and> (\<forall>u1 c1. fst (ask ReqNow c1) = Inr (Clock now) \<longrightarrow>
          (\<exists>u2. run_on ask (k (Inr (Loaded ss (Some info)))) (u1, c1) = ((u2, snd (ask ReqNow c1)), None, [])
            \<and> last (ui_logs u2) = quota_text info @ js '' '' @ [0xB7] @ js '' until '' @ formatExpiry pf now (Fin 0))))"
  using assms by (simp add: expires_row_def number_set_def loadSubscription_def addLog_def push_log_def del: js_Cons)

end
