(* ===== verification/AppClient.thy ===== *)
theory AppClient
  imports AppView ClientSpec
begin

section \<open>The example application over the client\<close>

text \<open>
  The environment of the application made of the modelled library: the synchronous calls and the
  methods act on the client over any native object, a subscription is fetched over any network, a ping
  is any schedule of the latency test.  A method takes effect as a whole when its promise settles,
  which is where the lock puts it, except for the assignment that \<open>startOlcrtc\<close> and \<open>stopOlcrtc\<close> make
  at the call; what else happens meanwhile is an event of the client.
\<close>

definition answering :: "('a \<Rightarrow> answer) \<Rightarrow> ('n client, 'a) act \<Rightarrow> ('n client, answer) act" where
  "answering f m = andThen m (\<lambda>x. ret (f x))"

definition answering_unit :: "('n client, unit) act \<Rightarrow> ('n client, answer) act" where
  "answering_unit m = answering (\<lambda>_. Nothing) m"

definition client_calls :: "'n nitro \<Rightarrow> request \<Rightarrow> ('n client, answer) act" where
  "client_calls native r = (case r of
     ReqEnsurePermission \<Rightarrow> answering_unit (ensurePermission native)
   | ReqOlcrtcPort \<Rightarrow> answering Number (getOlcrtcSocksPort native)
   | ReqOlcrtcRunning \<Rightarrow> answering Flag (isOlcrtcRunning native)
   | ReqConnect server options \<Rightarrow> answering_unit (connect native server options)
   | ReqOlcrtcOnly \<Rightarrow> answering_unit (connectOlcrtcOnly native (connect_options 0) None)
   | ReqDisconnect \<Rightarrow> answering_unit (disconnect native)
   | ReqStartOlcrtc config \<Rightarrow> answering_unit (startOlcrtc_locked native config)
   | ReqStopOlcrtc \<Rightarrow> answering_unit (stopOlcrtc_locked native)
   | ReqArmOlcrtc config \<Rightarrow> answering_unit (modify (js_step (Arm config)))
   | ReqSetKillSwitch on \<Rightarrow> answering_unit (setKillSwitch native on)
   | ReqKillSwitchEnabled \<Rightarrow> answering Flag (isKillSwitchEnabled native)
   | ReqVersion \<Rightarrow> answering Text (version native)
   | ReqConnection \<Rightarrow> answering Connection (currentConnection native)
   | ReqConnected \<Rightarrow> answering Flag (isConnected native)
   | ReqStats \<Rightarrow> answering Counters (stats native None)
   | ReqVpnName name \<Rightarrow> answering_unit (setVpnName native name)
   | ReqNotificationConfig config \<Rightarrow> answering_unit (setNotificationConfig native config)
   | ReqNotificationPermission \<Rightarrow> answering Flag (requestNotificationPermission native)
   | ReqOnState \<Rightarrow> answering_unit (onState 0)
   | _ \<Rightarrow> ret Nothing)"

definition of_client :: "request \<Rightarrow> bool" where
  "of_client r = (case r of ReqSubscription _ \<Rightarrow> False | ReqUrlTest _ \<Rightarrow> False | ReqShare _ \<Rightarrow> False
     | ReqSleep _ \<Rightarrow> False | ReqNow \<Rightarrow> False | _ \<Rightarrow> True)"

text \<open>The answers to awaited requests.  A URL test throws when an address has no text.\<close>

inductive client_replies :: "'n nitro \<Rightarrow> (jstring \<Rightarrow> network) \<Rightarrow> (jstring \<Rightarrow> fetch_run) \<Rightarrow> request \<Rightarrow> 'n client \<Rightarrow>
    thrown + answer \<Rightarrow> 'n client \<Rightarrow> bool" for native net probes where
  client_method: "of_client r \<Longrightarrow> client_calls native r c = (x, c') \<Longrightarrow> client_replies native net probes r c x c'"
| subscription: "fromSubscriptionWithInfo None (net url) = Some x \<Longrightarrow>
    client_replies native net probes (ReqSubscription url) c (map_sum (\<lambda>e. e) (\<lambda>(ss, info). Loaded ss info) x) c"
| url_test: "urlTest no_test_options probes ss (Inr ranked) \<Longrightarrow>
    client_replies native net probes (ReqUrlTest ss) c (Inr (Ranking ranked)) c"
| url_test_throws: "urlTest no_test_options probes ss (Inl e) \<Longrightarrow>
    client_replies native net probes (ReqUrlTest ss) c (Inl (ThrownError m)) c"
| share: "client_replies native net probes (ReqShare t) c x c"
| sleep: "client_replies native net probes (ReqSleep n) c (Inr Nothing) c"

definition client_env :: "'n nitro \<Rightarrow> (jstring \<Rightarrow> network) \<Rightarrow> (jstring \<Rightarrow> fetch_run) \<Rightarrow> jsnum \<Rightarrow> 'n client environment" where
  "client_env native net probes now = \<lparr>asked = (\<lambda>r. if r = ReqNow then ret (Clock now) else client_calls native r),
     replies = client_replies native net probes, moves = (\<lambda>c c'. \<exists>e. c' = js_step e c)\<rparr>"

subsection \<open>One handler at a time\<close>

text \<open>A handler run to its end with nothing in between: every request is answered at once by \<open>serve\<close>.\<close>

primrec perform :: "('c, 'r, 'a) server_of_calls \<Rightarrow> ('s, 'r, 'a) prog \<Rightarrow> 's \<times> 'c \<Rightarrow> 's \<times> 'c" where
  "perform serve Done sc = sc"
| "perform serve (Throw e) sc = sc"
| "perform serve (SetState f p) sc = perform serve p (f (fst sc), snd sc)"
| "perform serve (Read k) sc = perform serve (k (fst sc)) sc"
| "perform serve (Ask r k) sc = perform serve (k (fst (serve r (snd sc)))) (fst sc, snd (serve r (snd sc)))"
| "perform serve (Await r k) sc = perform serve (k (fst (serve r (snd sc)))) (fst sc, snd (serve r (snd sc)))"
| "perform serve (Fork b p) sc = perform serve b (perform serve p sc)"

text \<open>The requests of a handler that are the client's, with nothing detached.\<close>

primrec client_only :: "('s, request, 'a) prog \<Rightarrow> bool" where
  "client_only Done = True"
| "client_only (Throw e) = True"
| "client_only (SetState f p) = client_only p"
| "client_only (Read k) = (\<forall>s. client_only (k s))"
| "client_only (Ask r k) = (of_client r \<and> (\<forall>x. client_only (k x)))"
| "client_only (Await r k) = (of_client r \<and> (\<forall>x. client_only (k x)))"
| "client_only (Fork b p) = False"

lemma asked_client: "of_client r \<Longrightarrow> asked (client_env native net probes now) r c = client_calls native r c"
  by (auto simp: client_env_def of_client_def)

lemma run_client_only: "client_only p \<Longrightarrow> run_on ask p sc = (sc', m, ds) \<Longrightarrow> ds = []"
proof (induction p arbitrary: sc)
  case (Read k)
  then show ?case by (metis client_only.simps(4) rangeI run_on.simps(4))
next
  case (Ask r k)
  then show ?case by (metis client_only.simps(5) rangeI run_on.simps(5))
qed auto

text \<open>Such a run is one of the pool: from a pool where the handler has got to its first \<open>await\<close>, to the
  pool without it.\<close>

lemma perform_steps:
  "client_only p \<Longrightarrow> run_on (asked (client_env native net probes now)) p (s, c) = ((s1, c1), m, ds) \<Longrightarrow>
   current w = s1 \<Longrightarrow> outer w = c1 \<Longrightarrow> waiting w = xs @ owned l m @ ys \<Longrightarrow>
   (app_step pf ev (client_env native net probes now))\<^sup>*\<^sup>* w
     (w\<lparr>current := fst (perform (client_calls native) p (s, c)), outer := snd (perform (client_calls native) p (s, c)),
        waiting := xs @ ys\<rparr>)"
proof (induction p arbitrary: s c s1 c1 m ds w)
  case (SetState f p)
  from SetState.IH [of "f s" c s1 c1 m ds w] SetState.prems show ?case by simp
next
  case (Read k)
  from Read.IH [of "k s" s c s1 c1 m ds w] Read.prems show ?case by simp
next
  case (Ask r k)
  then have a: "asked (client_env native net probes now) r c = client_calls native r c" by (simp add: asked_client)
  from Ask.IH [of "k (fst (client_calls native r c))" s "snd (client_calls native r c)" s1 c1 m ds w] Ask.prems show ?case
    by (simp add: a)
next
  case (Await r k)
  let ?env = "client_env native net probes now"
  obtain x c' where x: "client_calls native r c = (x, c')" by (metis prod.exhaust)
  obtain s2 c2 m2 ds2 where run: "run_on (asked ?env) (k x) (s, c') = ((s2, c2), m2, ds2)" by (metis prod.exhaust)
  have co: "of_client r" "client_only (k x)" using Await.prems(1) by simp_all
  have w: "current w = s" "outer w = c" "waiting w = xs @ (l, Await r k) # ys"
    using Await.prems by (auto simp: owned_def)
  define w2 where "w2 = resume (asked ?env) (length xs) x (w\<lparr>outer := c'\<rparr>)"
  have w2: "w2 = w\<lparr>current := s2, outer := c2, waiting := xs @ owned l m2 @ ys\<rparr>"
    using run_client_only [OF co(2) run] by (simp add: w2_def resume_def w run)
  have "replies ?env r (outer w) x c'" using co(1) x by (simp add: client_env_def w client_replies.client_method)
  then have "app_step pf ev ?env w w2"
    unfolding w2_def by (intro app_step.settled [where r = r and k = k]) (simp_all add: w)
  moreover have "(app_step pf ev ?env)\<^sup>*\<^sup>* w2
     (w2\<lparr>current := fst (perform (client_calls native) (k x) (s, c')), outer := snd (perform (client_calls native) (k x) (s, c')),
        waiting := xs @ ys\<rparr>)"
    by (rule Await.IH [OF _ co(2) run]) (simp_all add: w2)
  ultimately show ?case by (simp add: x w2 converse_rtranclp_into_rtranclp)
next
  case (Fork b p)
  then show ?case by simp
next
  case Done
  then have "w\<lparr>current := s, outer := c, waiting := xs @ ys\<rparr> = w" by (auto simp: owned_def)
  then show ?case by simp
next
  case (Throw e)
  then have "w\<lparr>current := s, outer := c, waiting := xs @ ys\<rparr> = w" by (auto simp: owned_def)
  then show ?case by simp
qed

text \<open>A tap on a rendered screen whose handler leaves the connection state alone.\<close>

lemma tap_performs:
  assumes "enabled (visible w) t" "visible w = current w"
    and "client_only (handler pf ev (visible w) t)" "frames ui_state (handler pf ev (visible w) t)"
  shows "\<exists>w'. (app_step pf ev (client_env native net probes now))\<^sup>*\<^sup>* w w'
    \<and> (current w', outer w') = perform (client_calls native) (handler pf ev (visible w) t) (current w, outer w)
    \<and> waiting w' = waiting w"
proof -
  let ?env = "client_env native net probes now" and ?p = "handler pf ev (visible w) t"
  obtain s1 c1 m ds where run: "run_on (asked ?env) ?p (current w, outer w) = ((s1, c1), m, ds)" by (metis prod.exhaust)
  define w1 where "w1 = commit (spawn (asked ?env) (Some (owner_of t)) ?p w)"
  have "ui_state s1 = ui_state (current w)" using frames_run [OF assms(4) run] by simp
  then have w1: "current w1 = s1" "outer w1 = c1" "waiting w1 = waiting w @ owned (Some (owner_of t)) m @ []"
    using run_client_only [OF assms(3) run] run [folded assms(2)]
    by (simp_all add: w1_def commit_def spawn_def run Let_def reset_ref_def assms(2) flip: assms(2))
  have "app_step pf ev ?env w w1" unfolding w1_def by (rule app_step.tapped [OF assms(1)])
  moreover note perform_steps [OF assms(3) run w1, of pf ev]
  ultimately show ?thesis
    by (intro exI [of _ "w1\<lparr>current := fst (perform (client_calls native) ?p (current w, outer w)),
        outer := snd (perform (client_calls native) ?p (current w, outer w)), waiting := waiting w @ []\<rparr>"])
      (auto intro: converse_rtranclp_into_rtranclp)
qed

subsection \<open>A server is tapped\<close>

lemma client_only_combine:
  "client_only p \<Longrightarrow> (\<And>e. client_only (h e)) \<Longrightarrow> client_only (try_catch p h)"
  "(\<And>a. client_only (k a)) \<Longrightarrow> client_only (or_throw k x)"
  by (induction p) (auto simp: or_throw_def split: sum.split)

lemma connect_handler: "client_only (app_connect pf server)" "frames ui_state (app_connect pf server)"
proof -
  have t: "client_only (template v k)" if "\<And>t. client_only (k t)" for v k
    using that by (simp add: template_def split: sum.split)
  show "client_only (app_connect pf server)"
    by (simp add: app_connect_def addLog_def log_error_def of_client_def client_only_combine t del: try_catch.simps js_Cons)
  have f: "ui_state (push_log m u) = ui_state u" for m u by (simp add: push_log_def)
  show "frames ui_state (app_connect pf server)"
    by (simp add: app_connect_def addLog_def log_error_def template_def frames_combine f split: sum.split del: try_catch.simps js_Cons)
qed

lemma last_push_log [simp]: "last (ui_logs (push_log m u)) = m"
  by (simp add: push_log_def)

lemma error_text: "js ''Connect error: '' = js ''Connect error'' @ js '': ''"
  by simp

lemma perform_connect:
  assumes "n_hasVpnPermission native (core c) = (Inr True, evs, n1)" "n_getOlcrtcSocksPort native n1 = (Inr port, n2)"
    and "to_text (ps_tag server) = Inr tag"
    and "perform (client_calls native) (app_connect pf server) (u, c) = (u', c')"
  shows "\<exists>c1. trace c1 = trace c @ [HasVpnPermission, GetOlcrtcSocksPort]
    \<and> c' = snd (connect native server (connect_options port) c1)
    \<and> (case fst (connect native server (connect_options port) c1) of
         Inr _ \<Rightarrow> ui_activeTag u' = Some (ps_tag server) \<and> last (ui_logs u') = js ''Connected to '' @ quoted tag @ js ''.''
       | Inl e \<Rightarrow> ui_activeTag u' = None \<and> last (ui_logs u') = js ''Connect error: '' @ errStr pf e)"
proof -
  define ca where "ca = fold js_step evs (log_call HasVpnPermission (c\<lparr>core := n1\<rparr>))"
  have ca: "core ca = n1" "trace ca = trace c @ [HasVpnPermission]" by (simp_all add: ca_def)
  define cb where "cb = log_call GetOlcrtcSocksPort (ca\<lparr>core := n2\<rparr>)"
  have p: "client_calls native ReqEnsurePermission c = (Inr Nothing, ca)"
    by (simp add: client_calls_def answering_unit_def answering_def ensurePermission_def andThen_def act_simps
        await_def assms(1) ca_def)
  have q: "client_calls native ReqOlcrtcPort ca = (Inr (Number port), cb)"
    by (simp add: client_calls_def answering_def getOlcrtcSocksPort_def andThen_def act_simps invoke_def ca assms(2) cb_def)
  obtain r c2 where r: "connect native server (connect_options port) cb = (r, c2)" by (metis prod.exhaust)
  have rc: "client_calls native (ReqConnect server (connect_options port)) cb = (map_sum (\<lambda>e. e) (\<lambda>_. Nothing) r, c2)"
    by (cases r) (simp_all add: client_calls_def answering_unit_def answering_def andThen_def act_simps r)
  note defs = app_connect_def addLog_def log_error_def template_def assms(3) p q rc
  have "trace cb = trace c @ [HasVpnPermission, GetOlcrtcSocksPort]" by (simp add: cb_def ca log_call_def)
  moreover have "c' = c2 \<and> (case r of
         Inr _ \<Rightarrow> ui_activeTag u' = Some (ps_tag server) \<and> last (ui_logs u') = js ''Connected to '' @ quoted tag @ js ''.''
       | Inl e \<Rightarrow> ui_activeTag u' = None \<and> last (ui_logs u') = js ''Connect error: '' @ errStr pf e)"
    using assms(4) by (cases r) (auto simp: defs push_log_def error_text simp del: js_Cons)
  ultimately show ?thesis using r by (intro exI [of _ cb]) simp
qed

lemma tap_connect_runs:
  assumes "server \<in> set (ui_servers (visible w))" "visible w = current w" "to_text (ps_tag server) = Inr tag"
    and "n_hasVpnPermission native (core (outer w)) = (Inr True, evs, n1)" "n_getOlcrtcSocksPort native n1 = (Inr port, n2)"
    and "flags_answer native"
  shows "\<exists>w' c1 n. (app_step pf ev (client_env native net probes now))\<^sup>*\<^sup>* w w' \<and> waiting w' = waiting w
    \<and> (bo_olcrtc (connect_options port) \<noteq> None \<longleftrightarrow> 0 < port)
    \<and> trace (outer w') = trace (outer w) @ [HasVpnPermission, GetOlcrtcSocksPort] @ connect_calls native server (connect_options port) c1
    \<and> (case fst (n_startXray native (stringify (buildXrayConfig server (connect_options port))) n) of
         Inr _ \<Rightarrow> ui_activeTag (current w') = Some (ps_tag server)
           \<and> last (ui_logs (current w')) = js ''Connected to '' @ quoted tag @ js ''.''
       | Inl e \<Rightarrow> ui_activeTag (current w') = None
           \<and> last (ui_logs (current w')) = js ''Connect error: '' @ errStr pf (ThrownXray (toXrayError e ENGINE_START_FAILED)))"
proof -
  obtain w' where w': "(app_step pf ev (client_env native net probes now))\<^sup>*\<^sup>* w w'" "waiting w' = waiting w"
    "(current w', outer w') = perform (client_calls native) (app_connect pf server) (current w, outer w)"
    using tap_performs [of w "TapServer server" pf ev native net probes now] connect_handler [of pf server] assms(1,2) by auto
  obtain c1 where c1: "trace c1 = trace (outer w) @ [HasVpnPermission, GetOlcrtcSocksPort]"
    "outer w' = snd (connect native server (connect_options port) c1)"
    "case fst (connect native server (connect_options port) c1) of
         Inr _ \<Rightarrow> ui_activeTag (current w') = Some (ps_tag server)
           \<and> last (ui_logs (current w')) = js ''Connected to '' @ quoted tag @ js ''.''
       | Inl e \<Rightarrow> ui_activeTag (current w') = None \<and> last (ui_logs (current w')) = js ''Connect error: '' @ errStr pf e"
    using perform_connect [OF assms(4,5,3) w'(3) [symmetric]] by blast
  obtain n where n: "trace (outer w') = trace c1 @ connect_calls native server (connect_options port) c1"
    "fst (connect native server (connect_options port) c1) = (case fst (n_startXray native (stringify (buildXrayConfig server (connect_options port))) n) of
         Inr _ \<Rightarrow> Inr () | Inl e \<Rightarrow> Inl (ThrownXray (toXrayError e ENGINE_START_FAILED)))"
    using connect_outcome [OF assms(6), of server "connect_options port" c1] c1(2) by auto
  have "bo_olcrtc (connect_options port) \<noteq> None \<longleftrightarrow> 0 < port" by (simp add: connect_options_def)
  with w'(1,2) n c1(1,3) show ?thesis
    by (intro exI [of _ w'] exI [of _ c1] exI [of _ n]) (auto split: sum.splits)
qed

subsection \<open>The subscription is loaded\<close>

lemma load_handler:
  assumes "\<forall>c. ask ReqNow c = (Inr (Clock now), c)"
  shows "\<exists>u' k. run_on ask (loadSubscription pf ev) (u, c) = ((u', c), Some (Await (ReqSubscription (SUB_URL ev)) k), [])
    \<and> ui_state u' = ui_state u
    \<and> (\<forall>u1 c1. \<exists>u2. run_on ask (k (Inr (Loaded ss info))) (u1, c1) = ((u2, c1), None, [])
        \<and> ui_servers u2 = ss \<and> ui_subInfo u2 = info \<and> ui_state u2 = ui_state u1)"
proof -
  have "\<exists>u2. run_on ask (case info of None \<Rightarrow> Done | Some info \<Rightarrow> (case si_expire info of None \<Rightarrow> addLog (quota_text info) Done
             | Some expire \<Rightarrow> asking ReqNow (\<lambda>now.
                 addLog (quota_text info @ js '' '' @ [0xB7] @ js '' until '' @ formatExpiry pf (the_clock now) expire) Done))) (u1, c1)
      = ((u2, c1), None, [])
    \<and> ui_servers u2 = ui_servers u1 \<and> ui_subInfo u2 = ui_subInfo u1 \<and> ui_state u2 = ui_state u1" for u1 c1
    using assms by (auto simp: addLog_def push_log_def split: option.split simp del: js_Cons)
  then show ?thesis
    using assms by (auto simp: loadSubscription_def addLog_def push_log_def split: option.split simp del: js_Cons)
qed

text \<open>A tap on the button, the answer of the network, and the rendering of the list.\<close>

lemma load_runs:
  assumes "visible w = current w" "fromSubscriptionWithInfo None (net (SUB_URL ev)) = Some (Inr (ss, info))"
  shows "\<exists>w'. (app_step pf ev (client_env native net probes now))\<^sup>*\<^sup>* w w' \<and> visible w' = current w' \<and> ui_servers (current w') = ss
    \<and> ui_subInfo (current w') = info \<and> waiting w' = waiting w \<and> outer w' = outer w"
proof -
  let ?env = "client_env native net probes now"
  have now: "\<forall>c. asked ?env ReqNow c = (Inr (Clock now), c)" by (simp add: client_env_def act_simps)
  obtain u' k where k: "run_on (asked ?env) (loadSubscription pf ev) (current w, outer w)
      = ((u', outer w), Some (Await (ReqSubscription (SUB_URL ev)) k), [])" "ui_state u' = ui_state (current w)"
    "\<forall>u1 c1. \<exists>u2. run_on (asked ?env) (k (Inr (Loaded ss info))) (u1, c1) = ((u2, c1), None, [])
        \<and> ui_servers u2 = ss \<and> ui_subInfo u2 = info \<and> ui_state u2 = ui_state u1"
    using load_handler [of "asked ?env" now pf ev "current w" "outer w" ss info, OF now] by blast
  define w1 where "w1 = commit (spawn (asked ?env) (Some (owner_of TapLoad)) (handler pf ev (visible w) TapLoad) w)"
  have w1: "current w1 = u'" "outer w1 = outer w" "waiting w1 = waiting w @ [(Some OtherHandler, Await (ReqSubscription (SUB_URL ev)) k)]"
    "visible w1 = u'"
    using k(1,2) assms(1) by (simp_all add: w1_def commit_def spawn_def owned_def Let_def reset_ref_def)
  have s1: "app_step pf ev ?env w w1" unfolding w1_def by (rule app_step.tapped) simp
  obtain u2 where u2: "run_on (asked ?env) (k (Inr (Loaded ss info))) (u', outer w) = ((u2, outer w), None, [])"
    "ui_servers u2 = ss" "ui_subInfo u2 = info" "ui_state u2 = ui_state u'" using k(3) by blast
  define w2 where "w2 = resume (asked ?env) (length (waiting w)) (Inr (Loaded ss info)) (w1\<lparr>outer := outer w\<rparr>)"
  have w2: "current w2 = u2" "outer w2 = outer w" "waiting w2 = waiting w" "visible w2 = u'"
    using u2(1) by (simp_all add: w2_def resume_def w1 owned_def)
  have "client_replies native net probes (ReqSubscription (SUB_URL ev)) (outer w1) (map_sum (\<lambda>e. e) (\<lambda>(ss, info). Loaded ss info) (Inr (ss, info))) (outer w1)"
    by (rule client_replies.subscription [where net = net]) (rule assms(2))
  then have s2: "app_step pf ev ?env w1 w2"
    unfolding w2_def by (intro app_step.settled [where r = "ReqSubscription (SUB_URL ev)" and k = k]) (simp_all add: w1 client_env_def)
  have s3: "app_step pf ev ?env w2 (commit w2)" by (rule app_step.rendered)
  have "visible (commit w2) = current (commit w2)" "ui_servers (current (commit w2)) = ss" "ui_subInfo (current (commit w2)) = info"
    "waiting (commit w2) = waiting w" "outer (commit w2) = outer w"
    using u2 by (simp_all add: commit_def Let_def reset_ref_def w2)
  with s1 s2 s3 show ?thesis by (intro exI [of _ "commit w2"]) (auto intro: converse_rtranclp_into_rtranclp)
qed

subsection \<open>Properties\<close>


subsection \<open>A failed bypass\<close>

lemma on_state_proxy_failed:
  assumes "s = js ''connected'' \<longrightarrow> (\<exists>x. fst (ask ReqConnection c) = Inr x)"
  shows "\<exists>u' c' d k. run_on ask (on_state pf s (js ''proxy-failed'')) (u, c) = ((u', c'), None, d)
    \<and> Await ReqDisconnect k \<in> set d \<and> (s \<noteq> js ''disconnected'' \<and> s \<noteq> js ''error'' \<longrightarrow> ui_proxyStatus u' = Some ProxyFailed)
    \<and> (\<forall>e u1 c1. \<exists>u2. run_on ask (k (Inl e)) (u1, c1) = ((u2, c1), None, [])
         \<and> last (ui_logs u2) = js ''auto-disconnect error'' @ js '': '' @ errStr pf e)"
proof -
  have ne: "js ''proxy-failed'' \<noteq> js ''proxy-connecting''" "js ''proxy-failed'' \<noteq> js ''proxy-ready''"
    "js ''connected'' \<noteq> js ''disconnected''" "js ''connected'' \<noteq> js ''error''" by (simp_all only: js_inject) simp_all
  define k where "k = (\<lambda>x. try_catch (or_throw (\<lambda>_. Done) x) (\<lambda>e. log_error pf ''auto-disconnect error'' e (Done :: app)))"
  have k: "\<exists>u2. run_on ask (k (Inl e)) (u1, c1) = ((u2, c1), None, [])
         \<and> last (ui_logs u2) = js ''auto-disconnect error'' @ js '': '' @ errStr pf e" for e u1 c1
    by (simp add: k_def log_error_def addLog_def del: js_Cons)
  have "\<exists>u' c' d. run_on ask (on_state pf s (js ''proxy-failed'')) (u, c) = ((u', c'), None, d)
    \<and> Await ReqDisconnect k \<in> set d \<and> (s \<noteq> js ''disconnected'' \<and> s \<noteq> js ''error'' \<longrightarrow> ui_proxyStatus u' = Some ProxyFailed)"
  proof (cases "s = js ''connected''")
    case True
    then obtain x where "fst (ask ReqConnection c) = Inr x" using assms by blast
    with True ne show ?thesis
      by (simp add: on_state_def refresh_connection_def proxy_message_def addLog_def push_log_def k_def del: js_Cons)
  next
    case False
    with ne show ?thesis
      by (simp add: on_state_def proxy_message_def addLog_def push_log_def k_def only_if_def del: js_Cons)
  qed
  with k show ?thesis by blast
qed


subsection \<open>The connection on the screen\<close>

definition config_text :: "string \<Rightarrow> olcrtc_config \<Rightarrow> jstring \<Rightarrow> jstring" where
  "config_text k c d = (case field k c of Some (JStr t) \<Rightarrow> t | _ \<Rightarrow> d)"

text \<open>What the line says of a connect.\<close>

definition connection_text :: "server \<Rightarrow> jstring \<Rightarrow> build_options \<Rightarrow> olcrtc_config option \<Rightarrow> jstring" where
  "connection_text server tag options armed = to_upper (xrayProtocol (ps_protocol server)) @ middot @ tag
     @ (case (bo_olcrtc options, armed) of
          (Some _, Some c) \<Rightarrow> middot @ js ''olcrtc('' @ config_text ''carrier'' c [] @ js ''/''
            @ config_text ''transport'' c (js ''vp8channel'') @ js '')''
        | _ \<Rightarrow> [])"

lemma truthy_obj: "truthy (obj kvs)"
  by (simp add: obj_def)

lemma conn_line_connect:
  assumes "to_text (ps_tag server) = Inr tag" "\<forall>c. armedOlcrtc s = Some c \<longrightarrow> OlcrtcClientConfig c"
  shows "conn_line (connect_info server options s) = Some (connection_text server tag options (armedOlcrtc s))"
proof -
  let ?c = "connect_info server options s"
  have f: "field ''mode'' ?c = Some (str (if bo_olcrtc options \<noteq> None then ''olcrtc-chained'' else ''direct''))"
    "field ''server'' ?c = Some (server_info server)"
    "field ''olcrtc'' ?c = (if bo_olcrtc options \<noteq> None then olcrtcMeta s else None)"
    by (simp_all add: connect_info_def connection_info_def)
  have "str (if b then ''olcrtc-chained'' else ''direct'') \<noteq> str ''olcrtc-only''" for b by (simp add: str_def js_inject del: js_Cons)
  then have n: "conn_name ?c = Some (to_upper (xrayProtocol (ps_protocol server)) @ middot @ tag)"
    using assms(1) by (simp add: conn_name_def f prop_truthy_def server_info_def prop_text_def truthy_obj del: js_Cons)
  show ?thesis
  proof (cases "bo_olcrtc options \<noteq> None \<and> armedOlcrtc s \<noteq> None")
    case False
    then have "conn_bypass ?c = Some []" by (auto simp: conn_bypass_def prop_truthy_def f olcrtcMeta_def)
    with False n show ?thesis by (auto simp: conn_line_def connection_text_def split: option.split)
  next
    case True
    then obtain c where c: "armedOlcrtc s = Some c" by blast
    with assms(2) have "OlcrtcClientConfig c" by blast
    from meta_of_config [OF this c] obtain carrier roomId transport where m: "field ''carrier'' c = Some (JStr carrier)"
      "field ''transport'' c \<in> {None, Some (JStr transport)}" "field ''transport'' c = None \<longrightarrow> transport = js ''vp8channel''"
      "olcrtcMeta s = Some (obj [(''carrier'', JStr carrier), (''roomId'', JStr roomId), (''transport'', JStr transport)])"
      by (elim exE conjE) (rule that; assumption)
    let ?m = "obj [(''carrier'', JStr carrier), (''roomId'', JStr roomId), (''transport'', JStr transport)]"
    have "field ''olcrtc'' ?c = Some ?m" using True unfolding f m(4) by simp
    then have "prop_truthy ''olcrtc'' ?c = Some ?m" by (simp add: prop_truthy_def truthy_obj del: js_Cons)
    then have "conn_bypass ?c = Some (middot @ js ''olcrtc('' @ carrier @ js ''/'' @ transport @ js '')'')"
      by (simp add: conn_bypass_def prop_text_def del: js_Cons)
    moreover have "config_text ''carrier'' c [] = carrier" "config_text ''transport'' c (js ''vp8channel'') = transport"
      using m(1-3) by (auto simp: config_text_def)
    ultimately show ?thesis using True n by (auto simp: conn_line_def connection_text_def c)
  qed
qed


end
