(* ===== verification/AppTrace.thy ===== *)
theory AppTrace
  imports AppClient
begin

section \<open>Runs of the application\<close>

text \<open>
  A concrete environment and runs through it: witnesses of the properties, and three races between
  handlers that the code does not guard against.
\<close>

definition server_a :: server where
  "server_a = server_of Trojan (str ''a'') (str ''a.net'') (Fin 443) (js ''trojan://a'')"

definition server_b :: server where
  "server_b = server_of Trojan (str ''b'') (str ''b.net'') (Fin 443) (js ''trojan://b'')"

definition sample_answer :: "request \<Rightarrow> answer" where
  "sample_answer r = (case r of ReqOlcrtcPort \<Rightarrow> Number 0 | ReqOlcrtcRunning \<Rightarrow> Flag False
     | ReqKillSwitchEnabled \<Rightarrow> Flag False | ReqVersion \<Rightarrow> Text [] | ReqConnection \<Rightarrow> Connection None
     | ReqConnected \<Rightarrow> Flag False | ReqStats \<Rightarrow> Counters \<lparr>uplink = 5, downlink = 50\<rparr>
     | ReqSubscription _ \<Rightarrow> Loaded [server_a, server_b] None
     | ReqUrlTest ss \<Rightarrow> Ranking (map (\<lambda>s. (s, Some 20)) ss) | ReqNotificationPermission \<Rightarrow> Flag True
     | ReqNow \<Rightarrow> Clock (Fin 0) | _ \<Rightarrow> Nothing)"

lemma sample_answer_fits: "answer_fits r (sample_answer r)"
  by (simp add: answer_fits_def sample_answer_def split: request.split)

text \<open>Every promise may be fulfilled with the sample answer or be rejected.\<close>

definition sample_env :: "unit environment" where
  "sample_env = \<lparr>asked = (\<lambda>r c. (Inr (sample_answer r), c)),
     replies = (\<lambda>r c x c'. x = Inr (sample_answer r) \<or> (\<exists>m. x = Inl (ThrownError m))), moves = (\<lambda>_ _. False)\<rparr>"

definition sample_platform :: platform where
  "sample_platform = \<lparr>pf_stack = (\<lambda>_. None), pf_name = (\<lambda>_. js ''Error''), pf_json = (\<lambda>_. None), pf_date = (\<lambda>_. [])\<rparr>"

definition sample_dotenv :: dotenv where
  "sample_dotenv = \<lparr>SUB_URL = [], OLCRTC_ROOM_ID = [], OLCRTC_CLIENT_ID = [], OLCRTC_KEY_HEX = []\<rparr>"

abbreviation reached :: "unit app_world \<Rightarrow> bool" where
  "reached \<equiv> app_reachable sample_platform sample_dotenv sample_env"

abbreviation tap_on :: "tap \<Rightarrow> unit app_world \<Rightarrow> unit app_world" where
  "tap_on t w \<equiv> commit (spawn (asked sample_env) (Some (owner_of t)) (handler sample_platform sample_dotenv (visible w) t) w)"

abbreviation settle_on :: "nat \<Rightarrow> thrown + answer \<Rightarrow> unit app_world \<Rightarrow> unit app_world" where
  "settle_on i x w \<equiv> resume (asked sample_env) i x (w\<lparr>outer := ()\<rparr>)"

definition mounted :: "unit app_world" where
  "mounted = app_start sample_platform sample_env ()"

lemma mounted_reached: "reached mounted"
  unfolding mounted_def by (rule app_reachable.start)

lemma reached_tap: "reached w \<Longrightarrow> enabled (visible w) t \<Longrightarrow> reached (tap_on t w)"
  by (rule app_reachable.step [OF _ app_step.tapped])

lemma reached_settle:
  "reached w \<Longrightarrow> i < length (waiting w) \<Longrightarrow> snd (waiting w ! i) = Await r k \<Longrightarrow>
   x = Inr (sample_answer r) \<or> (\<exists>m. x = Inl (ThrownError m)) \<Longrightarrow> reached (settle_on i x w)"
  by (rule app_reachable.step [OF _ app_step.settled]) (simp_all add: sample_env_def)

lemmas run_defs = spawn_def resume_def commit_def Let_def owned_def reset_ref_def sample_env_def sample_answer_def
  addLog_def log_error_def

lemma mounted_eq:
  "\<exists>k. mounted = \<lparr>current = initial_screen, visible = initial_screen, outer = (),
     waiting = [(None, Await ReqNotificationPermission k)], polling = False\<rparr>"
  by (simp add: mounted_def app_start_def mount_def run_defs initial_screen_def del: js_Cons)

subsection \<open>Witnesses\<close>

lemma toggle_reached:
  "\<exists>w. reached w \<and> ui_olcrtcBusy (current w) \<and> \<not> ui_pinging (current w) \<and> length (waiting w) = 2 \<and> length (ui_logs (visible w)) = 1"
proof -
  obtain k where m: "mounted = \<lparr>current = initial_screen, visible = initial_screen, outer = (),
     waiting = [(None, Await ReqNotificationPermission k)], polling = False\<rparr>" using mounted_eq by blast
  have e: "enabled (visible mounted) (TapOlcrtc True)" by (simp add: m initial_screen_def)
  show ?thesis
    by (rule exI [of _ "tap_on (TapOlcrtc True) mounted"], rule conjI, rule reached_tap [OF mounted_reached e])
      (simp add: m toggleOlcrtc_def olcrtc_body_def run_defs initial_screen_def set_busy_def push_log_def del: js_Cons)
qed

lemma handlers_exclusive_witness:
  "\<exists>w. reached w \<and> in_flight OlcrtcToggle w = 1 \<and> in_flight PingButton w = 0 \<and> length (waiting w) = 2"
  using toggle_reached handlers_exclusive by fastforce

lemma screens_bounded_witness:
  "\<exists>w. reached w \<and> length (ui_logs (visible w)) = 1 \<and> ui_vp8Fps (visible w) \<in> {30, 60, 90}"
  using toggle_reached screens_bounded by blast


subsection \<open>Races\<close>

text \<open>Two taps on the kill switch, on and off again, and both are refused: the switch was never on, and
  the screen shows it on.\<close>

lemma kill_switch_shown_on:
  "\<exists>w. reached w \<and> ui_killSwitch (current w) \<and> length (waiting w) = 1 \<and> fst (hd (waiting w)) = None"
proof -
  obtain k where m: "mounted = \<lparr>current = initial_screen, visible = initial_screen, outer = (),
     waiting = [(None, Await ReqNotificationPermission k)], polling = False\<rparr>" using mounted_eq by blast
  define w1 where "w1 = tap_on (TapKillSwitch True) mounted"
  define w2 where "w2 = tap_on (TapKillSwitch False) w1"
  define w3 where "w3 = settle_on 1 (Inl (ThrownError [])) w2"
  define w4 where "w4 = settle_on 1 (Inl (ThrownError [])) w3"
  have r2: "reached w2" unfolding w2_def w1_def by (intro reached_tap mounted_reached) simp_all
  note defs = m toggleKillSwitch_def run_defs initial_screen_def push_log_def
  have s1: "\<exists>k1. waiting w1 = [(None, Await ReqNotificationPermission k), (Some OtherHandler, Await (ReqSetKillSwitch True) k1)]"
    by (simp add: w1_def defs del: js_Cons)
  have s2: "\<exists>k1 k2. waiting w2 = [(None, Await ReqNotificationPermission k), (Some OtherHandler, Await (ReqSetKillSwitch True) k1),
      (Some OtherHandler, Await (ReqSetKillSwitch False) k2)]"
    by (simp add: w2_def w1_def defs del: js_Cons)
  then have r3: "reached w3" unfolding w3_def by (auto intro: reached_settle [OF r2])
  have s3: "\<exists>k2. waiting w3 = [(None, Await ReqNotificationPermission k), (Some OtherHandler, Await (ReqSetKillSwitch False) k2)]"
    by (simp add: w3_def w2_def w1_def defs del: js_Cons)
  then have r4: "reached w4" unfolding w4_def by (auto intro: reached_settle [OF r3])
  have "ui_killSwitch (current w4)" "waiting w4 = [(None, Await ReqNotificationPermission k)]"
    by (simp_all add: w4_def w3_def w2_def w1_def defs del: js_Cons)
  with r4 show ?thesis by force
qed

lemma nil_js: "([] = js s) = (s = [])"
  using js_eq_Nil by metis

text \<open>A poll that is answered after the disconnect puts the totals back on the screen.\<close>

lemma late_poll_shown:
  "\<exists>w. reached w \<and> ui_state (current w) = js ''disconnected'' \<and> ui_down (current w) = 50 \<and> length (waiting w) = 2"
proof -
  obtain k where m: "mounted = \<lparr>current = initial_screen, visible = initial_screen, outer = (),
     waiting = [(None, Await ReqNotificationPermission k)], polling = False\<rparr>" using mounted_eq by blast
  let ?event = "\<lambda>s. spawn (asked sample_env) None (on_state sample_platform (js s) [])"
  define w1 where "w1 = commit (?event ''connected'' mounted)"
  define w2 where "w2 = spawn (asked sample_env) None poll w1"
  define w3 where "w3 = ?event ''disconnected'' w2"
  define w4 where "w4 = settle_on 2 (Inr (sample_answer ReqStats)) w3"
  note defs = m on_state_def refresh_connection_def proxy_message_def poll_def run_defs initial_screen_def push_log_def
    clear_connection_def js_inject nil_js
  have "reached w1" unfolding w1_def
    by (intro app_reachable.step [OF app_reachable.step [OF mounted_reached app_step.state_event] app_step.rendered])
  moreover have "polling w1" by (simp add: w1_def defs del: js_Cons)
  ultimately have "reached w2" unfolding w2_def by (intro app_reachable.step [OF _ app_step.tick])
  then have r3: "reached w3" unfolding w3_def by (intro app_reachable.step [OF _ app_step.state_event])
  have "\<exists>k0 k1 k2. waiting w3 = [(None, Await ReqNotificationPermission k0), (None, Await (ReqSleep 500) k1), (None, Await ReqStats k2)]"
    by (simp add: w3_def w2_def w1_def defs del: js_Cons)
  then have "reached w4" unfolding w4_def by (auto intro: reached_settle [OF r3])
  moreover have "ui_state (current w4) = js ''disconnected''" "ui_down (current w4) = 50" "length (waiting w4) = 2"
    by (simp_all add: w4_def w3_def w2_def w1_def defs del: js_Cons)
  ultimately show ?thesis by blast
qed

text \<open>Two servers tapped one after the other: the connect to the first fails late, and takes the mark off
  the second, which is connected.\<close>

lemma connected_not_marked:
  "\<exists>w. reached w \<and> ui_activeTag (current w) = None \<and> length (waiting w) = 1
     \<and> last (ui_logs (current w)) = js ''Connected to '' @ quoted (js ''b'') @ js ''.''"
proof -
  obtain k where m: "mounted = \<lparr>current = initial_screen, visible = initial_screen, outer = (),
     waiting = [(None, Await ReqNotificationPermission k)], polling = False\<rparr>" using mounted_eq by blast
  define w1 where "w1 = tap_on TapLoad mounted"
  define w2 where "w2 = commit (settle_on 1 (Inr (Loaded [server_a, server_b] None)) w1)"
  define w3 where "w3 = settle_on 1 (Inr Nothing) (tap_on (TapServer server_a) w2)"
  define w4 where "w4 = settle_on 2 (Inr Nothing) (tap_on (TapServer server_b) w3)"
  define w5 where "w5 = settle_on 1 (Inl (ThrownError [])) w4"
  define w6 where "w6 = settle_on 1 (Inr Nothing) w5"
  let ?n = "(None, Await ReqNotificationPermission k)"
  note defs = m loadSubscription_def app_connect_def template_def run_defs initial_screen_def push_log_def
  have tag: "ps_tag server_a = str ''a''" "ps_tag server_b = str ''b''" "to_text (str t) = Inr (js t)" for t
    by (simp_all add: server_a_def server_b_def server_of_def str_def)
  have "\<exists>k1. waiting w1 = [?n, (Some OtherHandler, Await (ReqSubscription []) k1)]"
    by (simp add: w1_def defs sample_dotenv_def del: js_Cons)
  moreover have r1: "reached w1" unfolding w1_def by (intro reached_tap mounted_reached) simp
  ultimately have "reached (settle_on 1 (Inr (Loaded [server_a, server_b] None)) w1)"
    by (auto intro: reached_settle simp: sample_answer_def)
  then have r2: "reached w2" unfolding w2_def by (rule app_reachable.step [OF _ app_step.rendered])
  have v2: "ui_servers (visible w2) = [server_a, server_b]" "waiting w2 = [?n]"
    by (simp_all add: w2_def w1_def defs sample_dotenv_def del: js_Cons)
  have "\<exists>k1. waiting (tap_on (TapServer server_a) w2) = [?n, (Some OtherHandler, Await ReqEnsurePermission k1)]"
    by (simp add: v2 app_connect_def run_defs del: js_Cons)
  with reached_tap [OF r2, of "TapServer server_a"] have r3: "reached w3"
    unfolding w3_def by (auto intro: reached_settle simp: v2 sample_answer_def)
  have v3: "ui_servers (visible w3) = [server_a, server_b]"
      "\<exists>k1. waiting w3 = [?n, (Some OtherHandler, Await (ReqConnect server_a (connect_options 0)) k1)]"
    by (simp_all add: w3_def w2_def w1_def defs tag sample_dotenv_def del: js_Cons)
  then have "\<exists>k1 k2. waiting (tap_on (TapServer server_b) w3)
      = [?n, (Some OtherHandler, Await (ReqConnect server_a (connect_options 0)) k1), (Some OtherHandler, Await ReqEnsurePermission k2)]"
    by (auto simp: app_connect_def run_defs simp del: js_Cons)
  with reached_tap [OF r3, of "TapServer server_b"] have r4: "reached w4"
    unfolding w4_def by (auto intro: reached_settle simp: v3 sample_answer_def)
  have "\<exists>k1 k2. waiting w4 = [?n, (Some OtherHandler, Await (ReqConnect server_a (connect_options 0)) k1),
      (Some OtherHandler, Await (ReqConnect server_b (connect_options 0)) k2)]"
    by (simp add: w4_def w3_def w2_def w1_def defs tag sample_dotenv_def del: js_Cons)
  then have r5: "reached w5" unfolding w5_def by (auto intro: reached_settle [OF r4])
  have "\<exists>k2. waiting w5 = [?n, (Some OtherHandler, Await (ReqConnect server_b (connect_options 0)) k2)]"
    by (simp add: w5_def w4_def w3_def w2_def w1_def defs tag sample_dotenv_def del: js_Cons)
  then have "reached w6" unfolding w6_def by (auto intro: reached_settle [OF r5] simp: sample_answer_def)
  moreover have "ui_activeTag (current w6) = None" "length (waiting w6) = 1"
      "last (ui_logs (current w6)) = js ''Connected to '' @ quoted (js ''b'') @ js ''.''"
    by (simp_all add: w6_def w5_def w4_def w3_def w2_def w1_def defs tag sample_dotenv_def del: js_Cons)
  ultimately show ?thesis by blast
qed

subsection \<open>Witnesses over the client\<close>

definition sample_world :: "demo client app_world" where
  "sample_world = (let u = initial_screen\<lparr>ui_servers := [sample_ws_server]\<rparr> in
     \<lparr>current = u, visible = u, outer = demo_client, waiting = [], polling = False\<rparr>)"

lemma config_text_not_empty: "stringify (buildXrayConfig server options) \<noteq> []"
  by (simp add: buildXrayConfig_def config_of_def obj_def Let_def split: option.split)



lemma ping_shows_latencies_witness:
  "\<exists>u k. run_on (\<lambda>r c. (Inr Nothing, c)) (pingAll sample_platform (initial_screen\<lparr>ui_servers := [server_a]\<rparr>)) (initial_screen, ())
       = ((u, ()), Some (Await (ReqUrlTest [server_a]) k), [])
     \<and> (\<exists>u2. run_on (\<lambda>r c. (Inr Nothing, c)) (k (Inr (Ranking [(server_a, Some 20)]))) (u, ()) = ((u2, ()), None, [])
          \<and> row_latency u2 server_a = Some (latency_text (Some 20)) \<and> ui_servers u2 = [server_a])"
proof -
  let ?v = "initial_screen\<lparr>ui_servers := [server_a]\<rparr>" and ?net = "\<lambda>_ :: nat. \<lparr>heeds_abort = True, settles = Some (20, True)\<rparr>"
    and ?p = "\<lparr>next_index = Suc 0, working = [None], results = [Some (Some 20)]\<rparr>"
  let ?probe = "probe_of (\<lambda>_ :: server. 0) ?net None [server_a]"
  have m: "measured (\<lambda>_. 0) ?net s = Some 20" for s
    by (simp add: measured_def measure_latency_def run_race_heeding)
  have probe: "?probe 0 = Some 20" by (simp add: probe_of_def measure_latency_def run_race_heeding coalesce_def)
  have "start_pool None 1 = \<lparr>next_index = 1, working = [Some 0], results = [None]\<rparr>" by code_simp
  then have "pool_reachable ?probe 1 None \<lparr>next_index = 1, working = [Some 0], results = [None]\<rparr>"
    using pool_reachable.start [of ?probe 1 None] by simp
  from pool_reachable.step [OF this pool_step.finish [of 0 _ 0]]
  have "pool_reachable ?probe 1 None \<lparr>next_index = Suc 0, working = [None], results = [Some (?probe 0)]\<rparr>"
    by (simp add: take_next_def store_def)
  then have r: "pool_reachable ?probe 1 None ?p" unfolding probe .
  have i: "idle ?p" by (simp add: idle_def)
  have np: "\<not> ui_pinging initial_screen" by (simp add: initial_screen_def)
  have t: "urlTest_result [server_a] ?p = [(server_a, Some 20)]" by (simp add: urlTest_result_def rank_def sort_by_def)
  from ping_shows_latencies [of ?v "\<lambda>_. 0" ?net ?p "\<lambda>r c. (Inr Nothing, c)" sample_platform initial_screen "()"] r i
  obtain u k where k: "run_on (\<lambda>r c. (Inr Nothing, c)) (pingAll sample_platform ?v) (initial_screen, ()) = ((u, ()), Some (Await (ReqUrlTest [server_a]) k), [])"
    "\<forall>u1. \<exists>u2. run_on (\<lambda>r c. (Inr Nothing, c)) (k (Inr (Ranking [(server_a, Some 20)]))) (u1, ()) = ((u2, ()), None, [])
      \<and> ui_servers u2 = [server_a] \<and> (\<forall>s \<in> set (ui_servers u2). row_latency u2 s = Some (latency_text (Some 20)))"
    by (fastforce simp: t m np)
  then show ?thesis by (metis list.set_intros(1))
qed


end
