(* ===== verification/ReleaseConfig.thy ===== *)
theory ReleaseConfig
  imports UrlTest
begin

section \<open>The release configuration (\<open>release.config.cjs\<close>)\<close>

text \<open>
  The table of commit types and what the file computes from it: the rules that decide the kind of a
  release, the sections of the release notes, and the comparator that orders the sections.  Titles are
  sequences of code units.  The exported object has the plugins in their order, each with its options.
\<close>

datatype bump = Major | Minor | Patch

record rule =
  ru_type :: jstring
  ru_release :: bump
  ru_title :: jstring

definition rules :: "rule list" where
  "rules = [\<lparr>ru_type = js ''feat'', ru_release = Minor, ru_title = [0x2728] @ js '' Features''\<rparr>,
     \<lparr>ru_type = js ''fix'', ru_release = Patch, ru_title = [0xD83D, 0xDC1B] @ js '' Bug Fixes''\<rparr>,
     \<lparr>ru_type = js ''perf'', ru_release = Patch, ru_title = [0xD83D, 0xDCA8] @ js '' Performance Improvements''\<rparr>,
     \<lparr>ru_type = js ''refactor'', ru_release = Patch, ru_title = [0xD83D, 0xDD04] @ js '' Code Refactors''\<rparr>,
     \<lparr>ru_type = js ''docs'', ru_release = Patch, ru_title = [0xD83D, 0xDCDA] @ js '' Documentation''\<rparr>,
     \<lparr>ru_type = js ''chore'', ru_release = Patch, ru_title = [0xD83D, 0xDEE0, 0xFE0F] @ js '' Other changes''\<rparr>]"

text \<open>\<open>Object.fromEntries\<close>: a later entry with the same key wins.\<close>

definition sortMap :: "jstring \<rightharpoonup> nat" where
  "sortMap = map_of (rev (zip (map ru_title rules) [0..<length rules]))"

datatype release_rule = Breaking bump | Revert bump | TypeRule jstring bump

definition releaseRules :: "release_rule list" where
  "releaseRules = [Breaking Major, Revert Patch] @ map (\<lambda>r. TypeRule (ru_type r) (ru_release r)) rules"

definition note_types :: "(jstring \<times> jstring) list" where
  "note_types = map (\<lambda>r. (ru_type r, ru_title r)) rules"

text \<open>The difference is \<open>NaN\<close> for a title that is not in the table, which a sort takes for zero.\<close>

definition commitGroupsSort :: "jstring \<Rightarrow> jstring \<Rightarrow> int" where
  "commitGroupsSort a z = (case (sortMap a, sortMap z) of (Some i, Some j) \<Rightarrow> int i - int j | _ \<Rightarrow> 0)"

datatype branch = Branch string | Prerelease string string

datatype plugin_option = Preset string | ReleaseRules "release_rule list" | PresetTypes "(jstring \<times> jstring) list"
  | GroupsSort "jstring \<Rightarrow> jstring \<Rightarrow> int" | ChangelogFile string | Assets "string list"

datatype plugin = Plugin string "plugin_option list"

record release_config =
  rc_branches :: "branch list"
  rc_plugins :: "plugin list"

definition config_exports :: release_config where
  "config_exports = \<lparr>rc_branches = [Branch ''master'', Prerelease ''next'' ''next''],
     rc_plugins = [Plugin ''@semantic-release/commit-analyzer'' [Preset ''conventionalcommits'', ReleaseRules releaseRules],
       Plugin ''@semantic-release/release-notes-generator''
         [Preset ''conventionalcommits'', PresetTypes note_types, GroupsSort commitGroupsSort],
       Plugin ''@semantic-release/changelog'' [ChangelogFile ''CHANGELOG.md''],
       Plugin ''@semantic-release/npm'' [], Plugin ''@semantic-release/github'' [],
       Plugin ''@semantic-release/git'' [Assets [''package.json'', ''CHANGELOG.md'', ''example/package.json'']]]\<rparr>"

lemma sortMap_titles:
  "map sortMap (map ru_title rules) = map Some [0..<6]"
  by (simp add: sortMap_def rules_def upt_rec)

lemma titles_known: "t \<in> set (map ru_title rules) \<Longrightarrow> \<exists>i. sortMap t = Some i"
proof -
  assume "t \<in> set (map ru_title rules)"
  then have "sortMap t \<in> set (map sortMap (map ru_title rules))" by (simp only: set_map imageI)
  then show ?thesis unfolding sortMap_titles by auto
qed

text \<open>Every commit type that makes a release has a section in the notes, and a place in their order.\<close>

lemma released_types_listed:
  assumes "TypeRule t b \<in> set releaseRules"
  shows "\<exists>section i. (t, section) \<in> set note_types \<and> sortMap section = Some i"
proof -
  from assms obtain r where r: "r \<in> set rules" "t = ru_type r" by (auto simp: releaseRules_def)
  then have "(t, ru_title r) \<in> set note_types" by (auto simp: note_types_def)
  moreover have "ru_title r \<in> set (map ru_title rules)" using r(1) by simp
  ultimately show ?thesis using titles_known by blast
qed

lemma titles_compare:
  assumes "a \<in> set (map ru_title rules)" "z \<in> set (map ru_title rules)"
  shows "commitGroupsSort a z \<le> 0 \<longleftrightarrow> the (sortMap a) \<le> the (sortMap z)"
  using titles_known [OF assms(1)] titles_known [OF assms(2)] by (auto simp: commitGroupsSort_def)

lemma sections_insert:
  "set (t # ts) \<subseteq> set (map ru_title rules) \<Longrightarrow> insert_by commitGroupsSort t ts = insort_key (\<lambda>t. the (sortMap t)) t ts"
proof (induction ts)
  case (Cons u ts)
  then have "t \<in> set (map ru_title rules)" "u \<in> set (map ru_title rules)" "set (t # ts) \<subseteq> set (map ru_title rules)"
    by auto
  with Cons.IH show ?case by (simp add: titles_compare)
qed simp

text \<open>The sections come out in the order of the table, whatever order the commits had.\<close>

lemma sections_in_order:
  "set titles \<subseteq> set (map ru_title rules) \<Longrightarrow> sort_by commitGroupsSort titles = sort_key (\<lambda>t. the (sortMap t)) titles"
proof (induction titles)
  case (Cons t ts)
  then have "set (t # sort_key (\<lambda>t. the (sortMap t)) ts) \<subseteq> set (map ru_title rules)" by simp
  with Cons sections_insert [OF this] show ?case by (simp add: sort_by_def)
qed (simp add: sort_by_def)

end
