(* ===== verification/Spec2Isabelle.thy ===== *)
theory Spec2Isabelle
  imports SubscriptionFetch LockedClient UrlTest GenScript AppTrace ReleaseConfig
begin
text \<open>
  The TypeScript core of react-native-nitro-xray-core, a VPN client library for React Native.  All
  paths are those of the repository; \<open>src/client.ts\<close> is the library's own \<open>src\<close> directory.

  \<^bold>\<open>The program.\<close>  An application gives the library a subscription (a text of share links, often in
  base64), gets a list of servers, and connects to one of them.  \<open>XrayClient\<close> (\<open>src/client.ts\<close>) turns the
  server into a configuration document for the Xray engine, starts the engine through the native
  object \<open>NitroXrayCore\<close>, and follows it: state events are multiplexed to listeners
  (\<open>src/native.ts\<close>), raw traffic counters are folded into totals that survive restarts of the engine
  (\<open>src/stats/session.ts\<close>), native rejections become typed errors (\<open>src/errors.ts\<close>), and a serial lock
  (\<open>src/lock.ts\<close>) keeps the calls that change the engine apart.  A latency test ranks servers
  (\<open>src/urltest/urltest.ts\<close>), and version strings are read out of the shipped binaries at build time
  (\<open>scripts/gen-core-versions.ts\<close>, \<open>src/versions/parse.ts\<close>).

  \<^bold>\<open>The language.\<close>  \<open>Prelude\<close>, \<open>JsString\<close>, \<open>JsNumber\<close>, \<open>Json\<close>, \<open>Utf8\<close> model what the source uses of
  JavaScript, from its specification: strings as lists of 16-bit code units with \<open>trim\<close>, \<open>indexOf\<close>,
  \<open>split\<close> and lower case; numbers as doubles over the rationals with rounding, \<open>parseInt\<close>, \<open>Number\<close>
  and conversion to text; JSON values with \<open>JSON.parse\<close> and \<open>JSON.stringify\<close> and their round trip.
  \<open>Codec\<close> is the interface of a pair of inverse encodings and of their composition; it is
  interpreted on JSON and on the payload of a \<open>vmess\<close> link.  The fuel of the JSON parser is twice the
  length of the text plus one: every nested call has consumed a character, and the round trip shows
  it is enough for every text \<open>stringify\<close> writes.

  \<^bold>\<open>Links and subscriptions.\<close>  \<open>Base64\<close> is \<open>src/subscription/base64.ts\<close>, its 32-bit buffer that
  overflows included; the loop is proved equal to a specification on unbounded numbers, and inverse
  to every emitter (interface \<open>base64_emitter\<close>).  \<open>Uri\<close> is \<open>decodeURIComponent\<close> and
  \<open>decodeComponentSafe\<close> (interface \<open>component_encoder\<close>).  \<open>ServerTypes\<close> is \<open>src/subscription/types.ts\<close> as the
  fields really are at run time, \<open>ShareLink\<close> the parsers of \<open>src/subscription/parse.ts\<close> in the order of
  the file.  \<open>LinkText\<close> and \<open>PayloadLinks\<close> write links of the four protocols and prove that parsing gives
  the server back; \<open>LinkSound\<close> shows what holds of a server read from arbitrary text.
  \<open>Subscription\<close> is \<open>parseSubscription\<close> and the quota header with its declarative specification.

  \<^bold>\<open>Configuration.\<close>  \<open>ConfigBuild\<close> is \<open>src/config/build.ts\<close>, the documents as JSON values with keys in
  source order; \<open>ConfigFacts\<close> reads them the way the engine does: every rule finds its outbound, the
  chaining through olcrtc is there exactly when asked for, nothing of the server is lost, and
  serialising loses nothing.

  \<^bold>\<open>Runtime.\<close>  \<open>XrayErrors\<close>, \<open>SerialLock\<close> (a step relation on an explicit store of promises, with mutual
  exclusion, order, progress and termination), \<open>TrafficSession\<close> (with the interface \<open>session_meter\<close>),
  \<open>NativeEvents\<close> (live iteration over the listener set; the fuel of a delivery is the number of slots
  plus one, enough when listeners only unsubscribe), \<open>UrlTest\<close> (the worker pool as a step relation,
  independence of the schedule, concurrency bound and termination, and how the promise of \<open>urlTest\<close>
  settles for its options), \<open>Versions\<close> and \<open>GeneratedFile\<close> (the
  version parsers, the pure part of the generator and the file it writes) and \<open>GenScript\<close> (the script
  itself, loop by loop, with its errors and what it does to the file system, and its agreement with the
  pure part).

  \<^bold>\<open>The client.\<close>  \<open>ClientState\<close> has the module variables of \<open>src/client.ts\<close> as a record and the native
  object of \<open>src/specs/nitro-xray-core.nitro.ts\<close> as a record of functions that every operation takes as
  an argument; an asynchronous call also says which other events ran in the JavaScript context while
  it was awaited, so everything that can interleave there is covered by one universally quantified
  argument.  \<open>Client\<close> has one definition per method, \<open>ClientFrame\<close> the interfaces \<open>client_frame\<close> and
  \<open>client_invariant\<close> with one preservation lemma per operation, \<open>ClientFacts\<close> their instances (the state
  hook, the counters) and \<open>ClientSpec\<close> the properties.  \<open>LockedClient\<close> shows that the lock implements a
  queue that runs one operation at a time, and that concurrent calls therefore act as a sequential
  history in which every caller gets the outcome of its own operation; what \<open>startOlcrtc\<close> and \<open>stopOlcrtc\<close>
  do before they queue is an event of that history, and a finding.  \<open>SubscriptionFetch\<close> is the time-boxed fetch over
  an argument that says how the network behaves.  The present theory composes them: from a line of a
  subscription to the text the engine is started with, and from the taps on the screen of the
  application to the same.

  \<^bold>\<open>The example application.\<close>  \<open>example/App.tsx\<close> is a React component over the client.  \<open>Handlers\<close> has
  programs with \<open>await\<close>, \<open>try\<close>, \<open>catch\<close> and \<open>finally\<close> as resumptions over a state, runs them up to their
  next \<open>await\<close>, keeps those that wait in a pool, and states the interface \<open>guarded_handler\<close> of a handler
  that sets a flag, does its work and clears the flag in a \<open>finally\<close>.  \<open>AppText\<close> is \<open>formatBytes\<close>,
  \<open>formatExpiry\<close> and \<open>errStr\<close>, \<open>OlcrtcTypes\<close> the options of \<open>src/olcrtc/types.ts\<close> the application passes on,
  \<open>NativeTypes\<close> the states and the notification texts of the native specification,
  \<open>App\<close> the \<open>useState\<close> cells as the record \<open>screen\<close> with every effect and handler, what a handler asks of
  the library being a \<open>request\<close>.  \<open>AppRun\<close> lets taps, events, ticks, uncaught errors and answers
  interleave over any environment (interface \<open>app_guard\<close>, with an instance for each of the two
  handlers that guard themselves): exclusion, termination and the bounds of what is shown.  \<open>AppView\<close>
  has the rendered texts, \<open>AppClient\<close> the environment made of the modelled client, network and latency
  test, and \<open>AppTrace\<close> concrete runs, three of them races the code does not guard against.  The
  assumption on React is that the updates of a tap are rendered before the next tap, as it does for such events, while
  updates after an \<open>await\<close> are rendered at any later time; a method of the client takes effect as a
  whole when its promise settles, which \<open>LockedClient\<close> justifies.  \<open>ReleaseConfig\<close> is the object
  \<open>release.config.cjs\<close> exports, with the order of the sections of the release notes.

  \<^bold>\<open>Hypotheses on code outside the repository.\<close>  \<open>flags_answer\<close> (the two status flags can be read) and
  \<open>info_cell\<close> (the connection info is a cell) state the documented contract of the native object, and
  hold of the instance \<open>demo\<close>; \<open>counter_event\<close> says that traffic counters are not negative; \<open>fetch\<close> is
  taken to reject with an \<open>AbortError\<close> when its signal aborts.  The application is proved over every
  environment, and \<open>platform\<close> has what the text of an error and of a date depend on.

  \<^bold>\<open>Bounds.\<close>  Traffic counters are integers, exact in a double up to two to the fifty-third.  The
  concurrency of the latency test is an integer option.  \<open>formatBytes\<close> divides by powers of two, which
  is exact for counts below two to the fifty-third; its accuracy is stated for those.  The serialisation theorems are for numbers
  that are integers a double holds exactly.

  \<^bold>\<open>Not modelled.\<close>  The native sides (Kotlin, Swift, C++, Go).  Of the example application: styles and
  layout, upper case beyond ASCII (only the names of the protocols are put in upper case), the copy of
  the log on the console, the clean-up of effects, which needs the component to unmount,
  and the handler of the platform that the handler of uncaught errors calls.  Application
  listeners that act on the client from inside a state event other than by subscribing and
  unsubscribing, and listeners that throw before the client's own hook; header objects other than
  plain ones in \<open>init.headers\<close>; how the version
  generator's reads and writes fail inside the file system; the re-exports of \<open>src/index.ts\<close> and the
  configuration of the build tools.
\<close>

section \<open>From a subscription to the engine\<close>


lemma sample_trojan_server:
  "\<exists>server. parseShareLink (js ''trojan://p@h:1'') = Some server \<and> server_json_ok server"
  by (simp add: link_eval server_json_ok_def streamFromQuery_def server_of_def safe_int_def str_or_def str_or_undef_def)

lemma sample_trojan_tag: "\<exists>server tag. parseShareLink (js ''trojan://p@h:1'') = Some server \<and> to_text (ps_tag server) = Inr tag"
  by (simp add: link_eval streamFromQuery_def server_of_def str_or_def str_or_undef_def)


section \<open>From the screen to the engine\<close>

lemma connect_options_ok: "\<bar>port\<bar> < 2 ^ 53 \<Longrightarrow> options_json_ok (connect_options port) \<and> tags_ok (connect_options port)"
  by (auto simp: connect_options_def options_json_ok_def safe_int_def tags_ok_def proxy_tag_def chain_of_def reserved_tags_def
      coalesce_def str_or_def str_or_undef_def js_inject simp del: js_Cons)



end
